(* ===== verification/Prelude.thy ===== *)
theory Prelude
  imports Main "HOL-Library.Word" "HOL-Library.Multiset" "HOL-Library.Signed_Division"
begin

section \<open>Shared vocabulary: faults, results, C integers\<close>

text \<open>
  What every component of the development shares: the faults a C program can run into, results
  that carry either a fault or a value, sequencing of such results, and the C reading of 32-bit
  integers. Pointers into an array are array indices, so a nullable pointer is an option of an
  index.
\<close>

unbundle bit_operations_syntax

named_theorems res_simps \<open>evaluation of fault-carrying results\<close>
named_theorems c_arith \<open>C integer arithmetic\<close>

text \<open>
  A fault is an execution that C leaves undefined or that never returns: a kernel panic (which
  spins for ever after printing its message), a null dereference, an access outside an array, a
  write through a pointer that is no object, a loop that never ends, a failed assertion.
\<close>

datatype fault =
    Panic string
  | NullDeref
  | OutOfBounds
  | BadPointer
  | Diverge
  | AssertFail
  | DivByZero
  | Undefined

type_synonym 'a res = "fault + 'a"

type_synonym i32 = "32 word"
type_synonym u32 = "32 word"
type_synonym u16 = "16 word"
type_synonym u8 = "8 word"

definition bnd :: "'a res \<Rightarrow> ('a \<Rightarrow> 'b res) \<Rightarrow> 'b res" where
  "bnd m f = (case m of Inl e \<Rightarrow> Inl e | Inr x \<Rightarrow> f x)"

text \<open>Evaluation looks at the first result before it touches what follows.\<close>

declare bnd_def [code_unfold]

lemma bnd_simps [simp, res_simps]:
  "bnd (Inl e) f = Inl e"
  "bnd (Inr x) f = f x"
  by (simp_all add: bnd_def)

lemma bnd_Inr_iff [res_simps]: "bnd m f = Inr y \<longleftrightarrow> (\<exists>x. m = Inr x \<and> f x = Inr y)"
  by (cases m) simp_all

lemma bnd_InrE [elim!]:
  assumes "bnd m f = Inr y"
  obtains x where "m = Inr x" and "f x = Inr y"
  using assms by (auto simp: bnd_Inr_iff)

lemma bnd_assoc: "bnd (bnd m f) g = bnd m (\<lambda>x. bnd (f x) g)"
  by (cases m) simp_all

text \<open>Reading through a nullable pointer.\<close>

definition deref :: "'p option \<Rightarrow> 'p res" where
  "deref p = (case p of None \<Rightarrow> Inl NullDeref | Some a \<Rightarrow> Inr a)"

lemma deref_simps [simp, res_simps]:
  "deref None = Inl NullDeref"
  "deref (Some a) = Inr a"
  by (simp_all add: deref_def)

text \<open>Reading and writing an array of the source, whose length is the list's length.\<close>

definition aget :: "'a list \<Rightarrow> nat \<Rightarrow> 'a res" where
  "aget xs i = (if i < length xs then Inr (xs ! i) else Inl OutOfBounds)"

definition aset :: "'a list \<Rightarrow> nat \<Rightarrow> 'a \<Rightarrow> 'a list res" where
  "aset xs i v = (if i < length xs then Inr (xs[i := v]) else Inl OutOfBounds)"

lemma aget_in [simp, res_simps]: "i < length xs \<Longrightarrow> aget xs i = Inr (xs ! i)"
  by (simp add: aget_def)

lemma aset_in [simp, res_simps]: "i < length xs \<Longrightarrow> aset xs i v = Inr (xs[i := v])"
  by (simp add: aset_def)

lemma aget_out [res_simps]: "length xs \<le> i \<Longrightarrow> aget xs i = Inl OutOfBounds"
  by (simp add: aget_def)

lemma aset_out [res_simps]: "length xs \<le> i \<Longrightarrow> aset xs i v = Inl OutOfBounds"
  by (simp add: aset_def)

subsection \<open>Signed 32-bit values\<close>

text \<open>A C \<open>int\<close> is a 32-bit word read in two's complement; its sums wrap.\<close>

lemma sint32_range: "- 2147483648 \<le> sint (x :: 32 word)" "sint (x :: 32 word) < 2147483648"
  using sint_ge [of x] sint_lt [of x] by simp_all

lemma sint32_add [c_arith]:
  assumes "- 2147483648 \<le> sint a + sint (b :: 32 word)" and "sint a + sint b < 2147483648"
  shows "sint (a + b) = sint a + sint b"
  using assms by (simp add: sint_word_add signed_take_bit_int_eq_self)

lemma sint32_diff [c_arith]:
  assumes "- 2147483648 \<le> sint a - sint (b :: 32 word)" and "sint a - sint b < 2147483648"
  shows "sint (a - b) = sint a - sint b"
  using assms by (simp add: sint_word_diff signed_take_bit_int_eq_self)

lemma sint32_wrap:
  assumes "0 < sint (b :: 32 word)"
  shows "sint (b + 0x7FFFFFFF) < 0"
proof -
  have "(sint b + 2147483647) div 2147483648 = 1"
    using assms sint32_range(2) [of b] by linarith
  then have "bit (sint b + 2147483647) 31" by (simp add: bit_iff_odd)
  then show ?thesis by (simp add: sint_word_add)
qed

text \<open>C division and remainder truncate towards zero.\<close>

definition cdiv :: "int \<Rightarrow> int \<Rightarrow> int" where "cdiv a b = a sdiv b"
definition cmod :: "int \<Rightarrow> int \<Rightarrow> int" where "cmod a b = a smod b"

lemma cdiv_nonneg [c_arith]: "0 \<le> a \<Longrightarrow> 0 < b \<Longrightarrow> cdiv a b = a div b"
  by (cases "a = 0") (simp_all add: cdiv_def signed_divide_int_def)

lemma cmod_nonneg [c_arith]: "0 \<le> a \<Longrightarrow> 0 < b \<Longrightarrow> cmod a b = a mod b"
  by (cases "a = 0") (simp_all add: cmod_def signed_modulo_int_def signed_divide_int_def
        minus_div_mult_eq_mod [symmetric] mult.commute)

lemma cdiv_neg [c_arith]: "a < 0 \<Longrightarrow> 0 < b \<Longrightarrow> cdiv a b = - ((- a) div b)"
  by (simp add: cdiv_def signed_divide_int_def)

lemma cmod_neg [c_arith]: "a < 0 \<Longrightarrow> 0 < b \<Longrightarrow> cmod a b = - ((- a) mod b)"
  by (simp add: cmod_def signed_modulo_int_def signed_divide_int_def
      minus_div_mult_eq_mod [symmetric] algebra_simps)

subsection \<open>Bits of registers\<close>

named_theorems reg_bits \<open>bits of the masks the drivers use\<close>

lemma mask_values:
  "(0x0F :: 'a :: len word) = mask 4" "(0xFF :: 'a word) = mask 8" "(0x7FF :: 'a word) = mask 11"
  "(0xFFFF :: 'a word) = mask 16" "(0x1FFFFFFF :: 'a word) = mask 29"
  by (simp_all add: mask_eq_exp_minus_1)

lemma bit_masks [reg_bits]:
  "bit (0x0F :: 'a :: len word) n \<longleftrightarrow> n < LENGTH('a) \<and> n < 4"
  "bit (0xFF :: 'a word) n \<longleftrightarrow> n < LENGTH('a) \<and> n < 8"
  "bit (0x7FF :: 'a word) n \<longleftrightarrow> n < LENGTH('a) \<and> n < 11"
  "bit (0xFFFF :: 'a word) n \<longleftrightarrow> n < LENGTH('a) \<and> n < 16"
  "bit (0x1FFFFFFF :: 'a word) n \<longleftrightarrow> n < LENGTH('a) \<and> n < 29"
  unfolding mask_values by (auto simp: bit_mask_iff)

lemma bit_masks_int [reg_bits]:
  "bit (0x0F :: int) n \<longleftrightarrow> n < 4" "bit (0xFF :: int) n \<longleftrightarrow> n < 8" "bit (0x7FF :: int) n \<longleftrightarrow> n < 11"
  "bit (0x1FF :: int) n \<longleftrightarrow> n < 9"
  using bit_mask_iff [where 'a = int, of 4 n] bit_mask_iff [where 'a = int, of 8 n]
    bit_mask_iff [where 'a = int, of 11 n] bit_mask_iff [where 'a = int, of 9 n]
  by (simp_all add: mask_eq_exp_minus_1)

lemma bit_masks_nat [reg_bits]:
  "bit (0x0F :: nat) n \<longleftrightarrow> n < 4" "bit (0xFF :: nat) n \<longleftrightarrow> n < 8" "bit (0x7FF :: nat) n \<longleftrightarrow> n < 11"
  using bit_mask_iff [where 'a = nat, of 4 n] bit_mask_iff [where 'a = nat, of 8 n]
    bit_mask_iff [where 'a = nat, of 11 n]
  by (simp_all add: mask_eq_exp_minus_1)

lemma bit_one_hot [reg_bits]:
  "bit (0x01 :: 'a :: len word) n \<longleftrightarrow> n = 0" "bit (0x02 :: 'a word) n \<longleftrightarrow> n < LENGTH('a) \<and> n = 1"
  "bit (0x04 :: 'a word) n \<longleftrightarrow> n < LENGTH('a) \<and> n = 2"
  using bit_exp_iff [where 'a = "'a word", of 1 n] bit_exp_iff [where 'a = "'a word", of 2 n]
  by (auto simp: bit_1_iff)

text \<open>A numeral word's bits are those of the integer.\<close>

lemma bit_one_hot_int [reg_bits]:
  "bit (2 :: int) n \<longleftrightarrow> n = 1" "bit (4 :: int) n \<longleftrightarrow> n = 2" "bit (8 :: int) n \<longleftrightarrow> n = 3"
  "bit (16 :: int) n \<longleftrightarrow> n = 4" "bit (32 :: int) n \<longleftrightarrow> n = 5" "bit (64 :: int) n \<longleftrightarrow> n = 6"
  "bit (128 :: int) n \<longleftrightarrow> n = 7" "bit (256 :: int) n \<longleftrightarrow> n = 8" "bit (512 :: int) n \<longleftrightarrow> n = 9"
  "bit (1024 :: int) n \<longleftrightarrow> n = 10" "bit (2048 :: int) n \<longleftrightarrow> n = 11" "bit (4096 :: int) n \<longleftrightarrow> n = 12"
  "bit (8192 :: int) n \<longleftrightarrow> n = 13" "bit (16384 :: int) n \<longleftrightarrow> n = 14" "bit (32768 :: int) n \<longleftrightarrow> n = 15"
  "bit (65536 :: int) n \<longleftrightarrow> n = 16" "bit (131072 :: int) n \<longleftrightarrow> n = 17" "bit (262144 :: int) n \<longleftrightarrow> n = 18"
  "bit (524288 :: int) n \<longleftrightarrow> n = 19" "bit (1048576 :: int) n \<longleftrightarrow> n = 20" "bit (2097152 :: int) n \<longleftrightarrow> n = 21"
  "bit (4194304 :: int) n \<longleftrightarrow> n = 22" "bit (8388608 :: int) n \<longleftrightarrow> n = 23" "bit (16777216 :: int) n \<longleftrightarrow> n = 24"
  "bit (33554432 :: int) n \<longleftrightarrow> n = 25" "bit (67108864 :: int) n \<longleftrightarrow> n = 26" "bit (134217728 :: int) n \<longleftrightarrow> n = 27"
  "bit (268435456 :: int) n \<longleftrightarrow> n = 28" "bit (536870912 :: int) n \<longleftrightarrow> n = 29" "bit (1073741824 :: int) n \<longleftrightarrow> n = 30"
  "bit (2147483648 :: int) n \<longleftrightarrow> n = 31"
  using bit_exp_iff [where 'a = int, of 1 n]
    bit_exp_iff [where 'a = int, of 2 n]
    bit_exp_iff [where 'a = int, of 3 n]
    bit_exp_iff [where 'a = int, of 4 n]
    bit_exp_iff [where 'a = int, of 5 n]
    bit_exp_iff [where 'a = int, of 6 n]
    bit_exp_iff [where 'a = int, of 7 n]
    bit_exp_iff [where 'a = int, of 8 n]
    bit_exp_iff [where 'a = int, of 9 n]
    bit_exp_iff [where 'a = int, of 10 n]
    bit_exp_iff [where 'a = int, of 11 n]
    bit_exp_iff [where 'a = int, of 12 n]
    bit_exp_iff [where 'a = int, of 13 n]
    bit_exp_iff [where 'a = int, of 14 n]
    bit_exp_iff [where 'a = int, of 15 n]
    bit_exp_iff [where 'a = int, of 16 n]
    bit_exp_iff [where 'a = int, of 17 n]
    bit_exp_iff [where 'a = int, of 18 n]
    bit_exp_iff [where 'a = int, of 19 n]
    bit_exp_iff [where 'a = int, of 20 n]
    bit_exp_iff [where 'a = int, of 21 n]
    bit_exp_iff [where 'a = int, of 22 n]
    bit_exp_iff [where 'a = int, of 23 n]
    bit_exp_iff [where 'a = int, of 24 n]
    bit_exp_iff [where 'a = int, of 25 n]
    bit_exp_iff [where 'a = int, of 26 n]
    bit_exp_iff [where 'a = int, of 27 n]
    bit_exp_iff [where 'a = int, of 28 n]
    bit_exp_iff [where 'a = int, of 29 n]
    bit_exp_iff [where 'a = int, of 30 n]
    bit_exp_iff [where 'a = int, of 31 n]
  by simp_all

lemma bit_FFFFFFF0 [reg_bits]: "bit (0xFFFFFFF0 :: int) n \<longleftrightarrow> 4 \<le> n \<and> n < 32"
proof -
  have "(0xFFFFFFF0 :: int) = push_bit 4 (mask 28)" by (simp add: mask_eq_exp_minus_1 push_bit_eq_mult)
  then show ?thesis by (simp only: bit_push_bit_iff bit_mask_iff) auto
qed

text \<open>A word below a power of two has no higher bits.\<close>

lemma word_take_bit_self:
  assumes "x < 2 ^ k" and "k < LENGTH('a)"
  shows "take_bit k (x :: 'a :: len word) = x"
  using less_mask_eq [OF assms(1)] by (simp add: take_bit_eq_mask)

lemma word_bits_below: "x < 2 ^ k \<Longrightarrow> k < LENGTH('a) \<Longrightarrow> bit (x :: 'a :: len word) n \<Longrightarrow> n < k"
  by (metis bit_take_bit_iff word_take_bit_self)

lemma word_less_of_take_bit:
  "take_bit k x = x \<Longrightarrow> k < LENGTH('a) \<Longrightarrow> x < (2 ^ k :: 'a :: len word)"
  using and_mask_less_size [of k x] by (simp add: take_bit_eq_mask word_size)

lemma ucast_u8_u32_u8 [simp]: "ucast (ucast (x :: u8) :: u32) = x"
  by (rule bit_word_eqI) (auto simp: bit_simps)

lemma u8_high [simp]: "8 \<le> n \<Longrightarrow> \<not> bit (x :: u8) n"
  by (auto dest: bit_imp_le_length)

text \<open>\<open>if (NewState != DISABLE) reg |= mask; else reg &= ~mask;\<close>\<close>

definition put_bits :: "bool \<Rightarrow> 'a :: len word \<Rightarrow> 'a word \<Rightarrow> 'a word" where
  "put_bits on m r = (if on then r OR m else r AND NOT m)"

lemma bit_put_bits: "bit (put_bits on m r) n \<longleftrightarrow> (if bit m n then on else bit r n)"
  by (auto simp: put_bits_def bit_simps dest: bit_imp_le_length)

lemma put_bits_and: "put_bits on m r AND m = (if on then m else 0)"
  by (rule bit_word_eqI) (auto simp: bit_simps bit_put_bits)

lemma put_bits_other: "m AND k = 0 \<Longrightarrow> put_bits on m r AND k = r AND k"
proof (rule bit_word_eqI)
  fix n assume "m AND k = 0" and "n < LENGTH('a)"
  then have "\<not> bit (m AND k) n" by simp
  then have "\<not> (bit m n \<and> bit k n)" by (simp add: bit_and_iff)
  then show "bit (put_bits on m r AND k) n = bit (r AND k) n" by (auto simp: bit_simps bit_put_bits)
qed

subsection \<open>Lists\<close>

lemma takeWhile_dropWhile_hd:
  "dropWhile P xs = y # ys \<Longrightarrow> \<not> P y"
  by (induction xs) (auto split: if_splits)

lemma mset_takeWhile_dropWhile [simp]: "mset (takeWhile P xs) + mset (dropWhile P xs) = mset xs"
  by (metis mset_append takeWhile_dropWhile_id)

lemma mset_takeWhile_insert:
  "mset (takeWhile P xs @ x # dropWhile P xs) = add_mset x (mset xs)"
  by simp

lemma distinct_append_swap:
  "distinct (xs @ ys @ zs) \<longleftrightarrow> distinct (ys @ xs @ zs)"
  by auto

lemma distinct_mset_eq: "mset xs = mset ys \<Longrightarrow> distinct xs = distinct ys"
  by (metis mset_eq_imp_distinct_iff)

lemma length_remove1_mem: "x \<in> set xs \<Longrightarrow> length (remove1 x xs) = length xs - 1"
  by (simp add: length_remove1)

end
