(* ===== verification/Chain.thy ===== *)
theory Chain
  imports Prelude
begin

section \<open>Null-terminated linked lists\<close>

text \<open>
  The C code keeps its messages and threads in singly linked lists threaded through array
  elements. \<open>chain nx q xs\<close> says that following \<open>nx\<close> from the pointer \<open>q\<close> visits exactly \<open>xs\<close>
  and then ends in NULL. The search loop that four of the kernel's routines share walks such a
  list with a predecessor pointer; its fuel is one more than the number of array elements, so it
  runs out exactly when the list is cyclic, where the C loop never ends.
\<close>

primrec chain :: "('p \<Rightarrow> 'p option) \<Rightarrow> 'p option \<Rightarrow> 'p list \<Rightarrow> bool" where
  "chain nx q [] = (q = None)"
| "chain nx q (x # xs) = (q = Some x \<and> chain nx (nx x) xs)"

primrec cpath :: "('p \<Rightarrow> 'p option) \<Rightarrow> 'p option \<Rightarrow> 'p list \<Rightarrow> 'p option \<Rightarrow> bool" where
  "cpath nx q [] r = (q = r)"
| "cpath nx q (x # xs) r = (q = Some x \<and> cpath nx (nx x) xs r)"

definition head :: "'p list \<Rightarrow> 'p option" where
  "head xs = (case xs of [] \<Rightarrow> None | x # _ \<Rightarrow> Some x)"

lemma head_simps [simp]: "head [] = None" "head (x # xs) = Some x"
  by (simp_all add: head_def)

lemma head_None_iff [simp]: "head xs = None \<longleftrightarrow> xs = []"
  by (cases xs) simp_all

lemma head_Some_iff: "head xs = Some x \<longleftrightarrow> (\<exists>ys. xs = x # ys)"
  by (cases xs) simp_all

lemma chain_head: "chain nx q xs \<Longrightarrow> q = head xs"
  by (cases xs) simp_all

lemma chain_None [simp]: "chain nx None xs \<longleftrightarrow> xs = []"
  by (cases xs) simp_all

lemma chain_Some: "chain nx (Some a) xs \<longleftrightarrow> (\<exists>ys. xs = a # ys \<and> chain nx (nx a) ys)"
  by (cases xs) auto

lemma chain_append: "chain nx q (xs @ ys) \<longleftrightarrow> (\<exists>r. cpath nx q xs r \<and> chain nx r ys)"
  by (induction xs arbitrary: q) auto

lemma chain_upd [simp]: "a \<notin> set xs \<Longrightarrow> chain (nx(a := r)) q xs = chain nx q xs"
  by (induction xs arbitrary: q) auto

lemma cpath_upd [simp]: "a \<notin> set xs \<Longrightarrow> cpath (nx(a := r)) q xs t = cpath nx q xs t"
  by (induction xs arbitrary: q) auto

lemma cpath_snoc: "cpath nx q (xs @ [x]) r \<longleftrightarrow> cpath nx q xs (Some x) \<and> nx x = r"
  by (induction xs arbitrary: q) auto

lemma chain_cong: "(\<And>a. a \<in> set xs \<Longrightarrow> nx a = nx' a) \<Longrightarrow> chain nx q xs = chain nx' q xs"
  by (induction xs arbitrary: q) auto

lemma chain_unique: "chain nx q xs \<Longrightarrow> chain nx q ys \<Longrightarrow> xs = ys"
  by (induction xs arbitrary: q ys) (auto simp: chain_Some)

lemma chain_hd_notin_tl: "chain nx (nx a) xs \<Longrightarrow> a \<notin> set xs"
proof
  assume c: "chain nx (nx a) xs" and "a \<in> set xs"
  then obtain us vs where xs: "xs = us @ a # vs" by (auto simp: in_set_conv_decomp)
  with c have "chain nx (nx a) vs" by (auto simp: chain_append)
  with c have "xs = vs" by (rule chain_unique)
  with xs show False by simp
qed

lemma chain_distinct: "chain nx q xs \<Longrightarrow> distinct xs"
  by (induction xs arbitrary: q) (auto dest: chain_hd_notin_tl)

text \<open>Linking a fresh node \<open>p\<close> between \<open>ys\<close> and \<open>zs\<close>, and unlinking one.\<close>

lemma chain_splice_front:
  assumes "chain nx q zs" and "p \<notin> set zs"
  shows "chain (nx(p := q)) (Some p) (p # zs)"
  using assms by simp

lemma chain_splice:
  assumes "chain nx q (ys @ y # zs)" and "p \<notin> set (ys @ y # zs)"
  shows "chain (nx(p := head zs, y := Some p)) q (ys @ y # p # zs)"
proof -
  have d: "y \<notin> set ys" "y \<notin> set zs"
    using chain_distinct [OF assms(1)] by auto
  from assms(1) have "cpath nx q ys (Some y)" and z: "chain nx (nx y) zs"
    by (auto simp: chain_append)
  moreover from z have "chain nx (head zs) zs" using chain_head [OF z] by simp
  ultimately show ?thesis
    using assms(2) d by (auto simp: chain_append)
qed

lemma chain_unlink:
  assumes "chain nx q (ys @ y # m # zs)"
  shows "chain (nx(y := nx m)) q (ys @ y # zs)"
proof -
  have "y \<notin> set ys" "y \<notin> set zs" "y \<noteq> m"
    using chain_distinct [OF assms] by auto
  with assms show ?thesis by (auto simp: chain_append)
qed

subsection \<open>The search loop\<close>

text \<open>
  \<^verbatim>\<open>
  prev = NULL; q = *queue;
  while (q && P(q)) { prev = q; q = q->next; }
  \<close>
  The result is the final pair of pointers.
\<close>

fun walk :: "nat \<Rightarrow> ('p \<Rightarrow> 'p option) \<Rightarrow> ('p \<Rightarrow> bool) \<Rightarrow> 'p option \<Rightarrow> 'p option
    \<Rightarrow> ('p option \<times> 'p option) res" where
  "walk 0 nx P prev q = Inl Diverge"
| "walk (Suc fuel) nx P prev q =
     (case q of
        None \<Rightarrow> Inr (prev, None)
      | Some a \<Rightarrow> if P a then walk fuel nx P (Some a) (nx a) else Inr (prev, Some a))"

definition last_or :: "'p option \<Rightarrow> 'p list \<Rightarrow> 'p option" where
  "last_or d xs = (if xs = [] then d else Some (last xs))"

lemma last_or_Nil [simp]: "last_or d [] = d"
  and last_or_Cons [simp]: "last_or d (x # xs) = last_or (Some x) xs"
  by (simp_all add: last_or_def)

lemma last_or_snoc [simp]: "last_or d (xs @ [x]) = Some x"
  by (simp add: last_or_def)

lemma walk_chain:
  "chain nx q xs \<Longrightarrow> length xs < fuel \<Longrightarrow>
   walk fuel nx P prev q = Inr (last_or prev (takeWhile P xs), head (dropWhile P xs))"
proof (induction xs arbitrary: q prev fuel)
  case Nil
  then show ?case by (cases fuel) auto
next
  case (Cons x xs)
  from Cons.prems obtain f where "fuel = Suc f" "length xs < f" by (cases fuel) auto
  with Cons show ?case by simp
qed

end
