(* ===== verification/TT_Queues.thy ===== *)
theory TT_Queues
  imports Chain
begin

section \<open>TinyTimber: message blocks and the queue manager\<close>

text \<open>
  The queue manager of \<open>lib/tinytimber/src/TinyTimber.c\<close>: message blocks live in the array
  \<open>messages\<close> of \<open>NMSGS\<close> elements and are linked through their \<open>next\<close> field into the pool of free
  blocks, the queue of schedulable messages (by deadline) and the queue of timed messages (by
  baseline). A \<open>Msg\<close> is an index into the array, the memory is a function from indices to blocks.
  Times are 32-bit words read as signed; the queue manager compares them with plain \<open>\<le>\<close>.
\<close>

definition NMSGS :: nat where "NMSGS = 30"

record msg_block =
  m_next :: "nat option"
  m_baseline :: i32
  m_deadline :: i32
  m_to :: nat
  m_method :: nat
  m_arg :: i32

type_synonym msg_mem = "nat \<Rightarrow> msg_block"

definition set_next :: "msg_mem \<Rightarrow> nat \<Rightarrow> nat option \<Rightarrow> msg_mem" where
  "set_next h p q = h(p := (h p)\<lparr>m_next := q\<rparr>)"

abbreviation mnx :: "msg_mem \<Rightarrow> nat \<Rightarrow> nat option" where
  "mnx h \<equiv> \<lambda>a. m_next (h a)"

subsection \<open>The operations\<close>

text \<open>Both insertions end alike: \<open>p->next = q\<close>, then \<open>*queue\<close> or \<open>prev->next\<close> becomes \<open>p\<close>.\<close>

definition link_after :: "nat \<Rightarrow> msg_mem \<Rightarrow> nat option \<Rightarrow> nat option \<times> nat option
    \<Rightarrow> msg_mem \<times> nat option" where
  "link_after p h queue pq =
     (let h1 = set_next h p (snd pq)
      in case fst pq of None \<Rightarrow> (h1, Some p) | Some a \<Rightarrow> (set_next h1 a (Some p), queue))"

definition enqueueByDeadline :: "nat \<Rightarrow> msg_mem \<Rightarrow> nat option \<Rightarrow> (msg_mem \<times> nat option) res" where
  "enqueueByDeadline p h queue =
     bnd (walk (Suc NMSGS) (mnx h) (\<lambda>q. sint (m_deadline (h q)) \<le> sint (m_deadline (h p))) None queue)
       (\<lambda>pq. Inr (link_after p h queue pq))"

definition enqueueByBaseline :: "nat \<Rightarrow> msg_mem \<Rightarrow> nat option \<Rightarrow> (msg_mem \<times> nat option) res" where
  "enqueueByBaseline p h queue =
     bnd (walk (Suc NMSGS) (mnx h) (\<lambda>q. sint (m_baseline (h q)) \<le> sint (m_baseline (h p))) None queue)
       (\<lambda>pq. Inr (link_after p h queue pq))"

definition dequeue :: "msg_mem \<Rightarrow> nat option \<Rightarrow> (nat \<times> nat option) res" where
  "dequeue h queue =
     (case queue of
        Some m \<Rightarrow> Inr (m, m_next (h m))
      | None \<Rightarrow> Inl (Panic ''Empty queue''))"

definition dequeue_pool :: "msg_mem \<Rightarrow> nat option \<Rightarrow> (nat \<times> nat option) res" where
  "dequeue_pool h queue =
     (case queue of
        Some m \<Rightarrow> Inr (m, m_next (h m))
      | None \<Rightarrow> Inl (Panic ''Empty pool''))"

definition insert_msg :: "nat \<Rightarrow> msg_mem \<Rightarrow> nat option \<Rightarrow> msg_mem \<times> nat option" where
  "insert_msg m h queue = (set_next h m queue, Some m)"

definition remove_msg :: "nat \<Rightarrow> msg_mem \<Rightarrow> nat option \<Rightarrow> (bool \<times> msg_mem \<times> nat option) res" where
  "remove_msg m h queue =
     bnd (walk (Suc NMSGS) (mnx h) (\<lambda>q. q \<noteq> m) None queue)
       (\<lambda>(prev, q). case q of
            None \<Rightarrow> Inr (False, h, queue)
          | Some a \<Rightarrow>
              (case prev of
                 Some b \<Rightarrow> Inr (True, set_next h b (m_next (h a)), queue)
               | None \<Rightarrow> Inr (True, h, m_next (h a))))"

subsection \<open>The abstract queues\<close>

text \<open>
  The list a queue stands for, and the insertion the two C loops implement: behind every message
  whose time is not later, in front of the first later one.
\<close>

abbreviation mlist :: "msg_mem \<Rightarrow> nat option \<Rightarrow> nat list \<Rightarrow> bool" where
  "mlist h \<equiv> chain (mnx h)"

definition enq_list :: "('m \<Rightarrow> int) \<Rightarrow> 'm \<Rightarrow> 'm list \<Rightarrow> 'm list" where
  "enq_list key p xs =
     takeWhile (\<lambda>q. key q \<le> key p) xs @ p # dropWhile (\<lambda>q. key q \<le> key p) xs"

abbreviation by_deadline :: "msg_mem \<Rightarrow> nat \<Rightarrow> int" where
  "by_deadline h \<equiv> \<lambda>a. sint (m_deadline (h a))"

abbreviation by_baseline :: "msg_mem \<Rightarrow> nat \<Rightarrow> int" where
  "by_baseline h \<equiv> \<lambda>a. sint (m_baseline (h a))"

definition msg_data :: "msg_block \<Rightarrow> i32 \<times> i32 \<times> nat \<times> nat \<times> i32" where
  "msg_data b = (m_baseline b, m_deadline b, m_to b, m_method b, m_arg b)"

text \<open>Queue operations relink blocks; they never change what a message says.\<close>

definition same_data :: "msg_mem \<Rightarrow> msg_mem \<Rightarrow> bool" where
  "same_data h h' \<longleftrightarrow> (\<forall>a. msg_data (h' a) = msg_data (h a))"

lemma set_enq_list [simp]: "set (enq_list key p xs) = insert p (set xs)"
proof -
  have "set (takeWhile (\<lambda>q. key q \<le> key p) xs) \<union> set (dropWhile (\<lambda>q. key q \<le> key p) xs) = set xs"
    by (metis set_append takeWhile_dropWhile_id)
  then show ?thesis by (auto simp: enq_list_def)
qed

lemma mset_enq_list [simp]: "mset (enq_list key p xs) = add_mset p (mset xs)"
  unfolding enq_list_def by (rule mset_takeWhile_insert)

lemma length_enq_list [simp]: "length (enq_list key p xs) = Suc (length xs)"
  by (metis mset_enq_list size_add_mset size_mset)

lemma distinct_enq_list [simp]: "distinct (enq_list key p xs) = distinct (p # xs)"
  by (metis distinct_mset_eq mset.simps(2) mset_enq_list)

lemma enq_list_Nil [simp]: "enq_list key p [] = [p]"
  by (simp add: enq_list_def)

lemma enq_list_Cons [simp]:
  "enq_list key p (x # xs) = (if key x \<le> key p then x # enq_list key p xs else p # x # xs)"
  by (simp add: enq_list_def)

lemma sorted_enq_list: "sorted (map key xs) \<Longrightarrow> sorted (map key (enq_list key p xs))"
  by (induction xs) auto

text \<open>Messages of equal time leave in the order they came.\<close>

lemma enq_list_fifo:
  assumes "sorted (map key xs)"
  shows "filter (\<lambda>q. key q = key p) (enq_list key p xs) = filter (\<lambda>q. key q = key p) xs @ [p]"
  using assms
proof (induction xs)
  case Nil
  then show ?case by simp
next
  case (Cons x xs)
  show ?case
  proof (cases "key x \<le> key p")
    case True
    with Cons show ?thesis by simp
  next
    case False
    with Cons.prems have "filter (\<lambda>q. key q = key p) (x # xs) = []"
      by (auto simp: filter_empty_conv)
    with False show ?thesis by simp
  qed
qed

lemma enq_list_others:
  "filter (\<lambda>q. q \<noteq> p) (enq_list key p xs) = filter (\<lambda>q. q \<noteq> p) xs"
  by (induction xs) auto

lemma enq_list_cong:
  "(\<And>a. a \<in> insert p (set xs) \<Longrightarrow> key a = key' a) \<Longrightarrow> enq_list key p xs = enq_list key' p xs"
  by (induction xs) auto


lemma fold_enq_list_sort:
  "fold (enq_list key) ps [] = sort_key key ps"
proof (rule sym, rule properties_for_sort_key)
  have sorted: "sorted (map key (fold (enq_list key) ps xs))" if "sorted (map key xs)" for xs
    using that by (induction ps arbitrary: xs) (auto simp: sorted_enq_list)
  then show "sorted (map key (fold (enq_list key) ps []))" by simp
  have mset: "mset (fold (enq_list key) ps xs) = mset ps + mset xs" for xs
    by (induction ps arbitrary: xs) auto
  show "mset (fold (enq_list key) ps []) = mset ps" by (simp add: mset)
  have other: "filter (\<lambda>q. key q = k) (enq_list key p xs) = filter (\<lambda>q. key q = k) xs"
    if "key p \<noteq> k" for k p xs
    using that by (induction xs) auto
  have "filter (\<lambda>q. key q = k) (fold (enq_list key) ps xs) =
      filter (\<lambda>q. key q = k) xs @ filter (\<lambda>q. key q = k) ps"
    if "sorted (map key xs)" for k xs
    using that
  proof (induction ps arbitrary: xs)
    case Nil
    then show ?case by simp
  next
    case (Cons p ps)
    have "sorted (map key (enq_list key p xs))"
      using Cons.prems by (rule sorted_enq_list)
    from Cons.IH [OF this] show ?case
      using enq_list_fifo [OF Cons.prems, of p] other [of p k xs] by (cases "key p = k") auto
  qed
  then have "filter (\<lambda>q. key q = k) (fold (enq_list key) ps []) = filter (\<lambda>q. key q = k) ps" for k
    by simp
  then show "filter (\<lambda>x. key k = key x) (fold (enq_list key) ps []) = filter (\<lambda>x. key k = key x) ps"
    for k by (simp only: eq_commute [of "key k"])
qed

subsection \<open>The pointer code refines the abstract queues\<close>

lemma m_next_set_next: "m_next (set_next h p q a) = (if a = p then q else m_next (h a))"
  by (simp add: set_next_def)

lemma m_next_set_next_same [simp]: "m_next (set_next h p q p) = q"
  by (simp add: set_next_def)

lemma set_next_simps [simp]:
  "msg_data (set_next h p q a) = msg_data (h a)"
  "m_baseline (set_next h p q a) = m_baseline (h a)"
  "m_deadline (set_next h p q a) = m_deadline (h a)"
  "m_to (set_next h p q a) = m_to (h a)"
  "m_method (set_next h p q a) = m_method (h a)"
  "m_arg (set_next h p q a) = m_arg (h a)"
  by (simp_all add: set_next_def msg_data_def)

lemma set_next_other [simp]: "a \<noteq> p \<Longrightarrow> set_next h p q a = h a"
  by (simp add: set_next_def)

lemma mnx_set_next [simp]: "mnx (set_next h p q) = (mnx h)(p := q)"
  by (rule ext) (simp add: m_next_set_next)

lemma same_data_refl [simp]: "same_data h h"
  by (simp add: same_data_def)

lemma same_data_trans: "same_data h h' \<Longrightarrow> same_data h' h'' \<Longrightarrow> same_data h h''"
  by (simp add: same_data_def)

lemma same_data_set_next [simp]: "same_data h (set_next h' p q) = same_data h h'"
  by (simp add: same_data_def)

lemma same_dataD:
  assumes "same_data h h'"
  shows "m_baseline (h' a) = m_baseline (h a)" "m_deadline (h' a) = m_deadline (h a)"
    "m_to (h' a) = m_to (h a)" "m_method (h' a) = m_method (h a)" "m_arg (h' a) = m_arg (h a)"
  using assms by (auto simp: same_data_def msg_data_def)

lemma mlist_frame:
  assumes "mlist h q xs" and "\<And>a. a \<in> set xs \<Longrightarrow> h' a = h a"
  shows "mlist h' q xs"
  using assms chain_cong [of xs "mnx h" "mnx h'" q] by simp

text \<open>Linking behind the last block of a prefix yields the list with \<open>p\<close> in between.\<close>

lemma link_after_mlist:
  assumes q: "mlist h q (ys @ zs)" and p: "p \<notin> set (ys @ zs)"
    and l: "link_after p h q (last_or None ys, head zs) = (h', q')"
  shows "mlist h' q' (ys @ p # zs)" and "same_data h h'"
    and "\<forall>a. a \<notin> insert p (set (ys @ zs)) \<longrightarrow> h' a = h a"
proof -
  have "mlist h' q' (ys @ p # zs) \<and> same_data h h' \<and> (\<forall>a. a \<notin> insert p (set (ys @ zs)) \<longrightarrow> h' a = h a)"
  proof (cases ys rule: rev_cases)
    case Nil
    with q have "q = head zs" by (simp add: chain_head)
    with Nil l have "h' = set_next h p q" "q' = Some p"
      by (auto simp: link_after_def)
    with Nil q p show ?thesis by simp
  next
    case (snoc us y)
    with l have h': "h' = set_next (set_next h p (head zs)) y (Some p)" and "q' = q"
      by (auto simp: link_after_def)
    moreover have "mlist h' q (us @ y # p # zs)"
      using chain_splice [of "mnx h" q us y zs p] q p snoc h' by simp
    ultimately show ?thesis using snoc by auto
  qed
  then show "mlist h' q' (ys @ p # zs)" "same_data h h'"
    "\<forall>a. a \<notin> insert p (set (ys @ zs)) \<longrightarrow> h' a = h a" by blast+
qed

lemma walk_link_refines:
  assumes "mlist h q xs" and "length xs \<le> NMSGS" and "p \<notin> set xs"
  shows "\<exists>h' q'. bnd (walk (Suc NMSGS) (mnx h) P None q) (\<lambda>pq. Inr (link_after p h q pq)) = Inr (h', q')
    \<and> mlist h' q' (takeWhile P xs @ p # dropWhile P xs) \<and> same_data h h'
    \<and> (\<forall>a. a \<notin> insert p (set xs) \<longrightarrow> h' a = h a)"
proof -
  let ?ys = "takeWhile P xs" and ?zs = "dropWhile P xs"
  have w: "walk (Suc NMSGS) (mnx h) P None q = Inr (last_or None ?ys, head ?zs)"
    using walk_chain [OF assms(1)] assms(2) by (simp del: walk.simps)
  obtain h' q' where l: "link_after p h q (last_or None ?ys, head ?zs) = (h', q')" by fastforce
  have "mlist h q (?ys @ ?zs)" "p \<notin> set (?ys @ ?zs)" "set (?ys @ ?zs) = set xs"
    using assms by (simp_all del: set_append)
  from link_after_mlist [OF this(1,2) l] this(3) w l show ?thesis
    by (simp del: walk.simps set_append)
qed


lemma dequeue_Cons:
  assumes "mlist h q (m # xs)"
  shows "dequeue h q = Inr (m, m_next (h m))" and "dequeue_pool h q = Inr (m, m_next (h m))"
    and "mlist h (m_next (h m)) xs"
  using assms by (simp_all add: dequeue_def dequeue_pool_def)

lemma dequeue_Nil:
  assumes "mlist h q []"
  shows "dequeue h q = Inl (Panic ''Empty queue'')" "dequeue_pool h q = Inl (Panic ''Empty pool'')"
  using assms by (simp_all add: dequeue_def dequeue_pool_def)

lemma insert_msg_mlist:
  assumes "mlist h q xs" and "m \<notin> set xs" and "insert_msg m h q = (h', q')"
  shows "mlist h' q' (m # xs)" and "same_data h h'" and "\<forall>a. a \<noteq> m \<longrightarrow> h' a = h a"
  using assms by (auto simp: insert_msg_def)

lemma remove_msg_absent:
  assumes "mlist h q xs" and "length xs \<le> NMSGS" and "m \<notin> set xs"
  shows "remove_msg m h q = Inr (False, h, q)"
proof -
  have "takeWhile (\<lambda>a. a \<noteq> m) xs = xs" "dropWhile (\<lambda>a. a \<noteq> m) xs = []"
    using assms(3) by (auto simp: takeWhile_eq_all_conv dropWhile_eq_Nil_conv)
  with walk_chain [OF assms(1), of "Suc NMSGS" "\<lambda>a. a \<noteq> m" None] assms(2) show ?thesis
    by (simp add: remove_msg_def del: walk.simps)
qed

lemma remove_msg_present:
  assumes q: "mlist h q xs" and len: "length xs \<le> NMSGS" and m: "m \<in> set xs"
  shows "\<exists>h' q'. remove_msg m h q = Inr (True, h', q') \<and> mlist h' q' (remove1 m xs)
    \<and> same_data h h' \<and> (\<forall>a. a \<notin> set (remove1 m xs) \<longrightarrow> h' a = h a)"
proof -
  obtain ys zs where xs: "xs = ys @ m # zs" "m \<notin> set ys"
    using m by (meson split_list_first)
  then have tw: "takeWhile (\<lambda>a. a \<noteq> m) xs = ys" "dropWhile (\<lambda>a. a \<noteq> m) xs = m # zs"
    by (auto simp: takeWhile_append dropWhile_append)
  have r1: "remove1 m xs = ys @ zs" using xs by (simp add: remove1_append)
  have w: "walk (Suc NMSGS) (mnx h) (\<lambda>a. a \<noteq> m) None q = Inr (last_or None ys, Some m)"
    using walk_chain [OF q, of "Suc NMSGS" "\<lambda>a. a \<noteq> m" None] len tw by (simp del: walk.simps)
  show ?thesis
  proof (cases ys rule: rev_cases)
    case Nil
    with q xs have "mlist h (m_next (h m)) zs" by simp
    with w Nil r1 show ?thesis by (simp add: remove_msg_def del: walk.simps)
  next
    case (snoc us y)
    with q xs have "mlist h q (us @ y # m # zs)" by simp
    from chain_unlink [OF this] have "mlist (set_next h y (m_next (h m))) q (us @ y # zs)"
      by simp
    with w snoc r1 show ?thesis by (simp add: remove_msg_def del: walk.simps)
  qed
qed

subsection \<open>The interface of a time-ordered message queue\<close>

text \<open>
  The kernel keeps two time-ordered queues and relies on the same contract for both: insertion
  returns (its loop ends), links the message into place, keeps the data of every message and
  touches no block outside the queue. The laws below are the contract; the lemmas are what the
  kernel uses of it.
\<close>

text \<open>Entering several messages, one after the other.\<close>

primrec enq_all :: "(nat \<Rightarrow> msg_mem \<Rightarrow> nat option \<Rightarrow> (msg_mem \<times> nat option) res)
    \<Rightarrow> nat list \<Rightarrow> msg_mem \<Rightarrow> nat option \<Rightarrow> (msg_mem \<times> nat option) res" where
  "enq_all enq [] h q = Inr (h, q)"
| "enq_all enq (p # ps) h q = bnd (enq p h q) (\<lambda>(h', q'). enq_all enq ps h' q')"

locale msg_queue =
  fixes enq :: "nat \<Rightarrow> msg_mem \<Rightarrow> nat option \<Rightarrow> (msg_mem \<times> nat option) res"
    and key :: "msg_mem \<Rightarrow> nat \<Rightarrow> int"
  assumes enq_law: "mlist h q xs \<Longrightarrow> length xs \<le> NMSGS \<Longrightarrow> p \<notin> set xs \<Longrightarrow>
      \<exists>h' q'. enq p h q = Inr (h', q') \<and> mlist h' q' (enq_list (key h) p xs) \<and> same_data h h'
        \<and> (\<forall>a. a \<notin> insert p (set xs) \<longrightarrow> h' a = h a)"
    and key_law: "same_data h h' \<Longrightarrow> key h' = key h"
begin

lemma enqE:
  assumes "mlist h q xs" and "length xs \<le> NMSGS" and "p \<notin> set xs"
  obtains h' q' where "enq p h q = Inr (h', q')" and "mlist h' q' (enq_list (key h) p xs)"
    and "same_data h h'" and "key h' = key h" and "\<forall>a. a \<notin> insert p (set xs) \<longrightarrow> h' a = h a"
  using enq_law [OF assms] key_law by blast

lemma enq_sorted:
  assumes "mlist h q xs" and "length xs \<le> NMSGS" and "p \<notin> set xs"
    and "sorted (map (key h) xs)" and "enq p h q = Inr (h', q')"
  shows "\<exists>ys. mlist h' q' ys \<and> mset ys = add_mset p (mset xs) \<and> sorted (map (key h') ys)"
proof -
  obtain h2 q2 where "enq p h q = Inr (h2, q2)" "mlist h2 q2 (enq_list (key h) p xs)" "key h2 = key h"
    using enqE [OF assms(1-3)] by metis
  with assms(4,5) show ?thesis
    by (intro exI [of _ "enq_list (key h) p xs"]) (simp add: sorted_enq_list)
qed

lemma enq_frame:
  assumes "mlist h q xs" and "length xs \<le> NMSGS" and "p \<notin> set xs"
    and "enq p h q = Inr (h', q')" and "mlist h r ys" and "set ys \<inter> insert p (set xs) = {}"
  shows "mlist h' r ys"
proof -
  have "\<forall>a. a \<notin> insert p (set xs) \<longrightarrow> h' a = h a"
    using enqE [OF assms(1-3)] assms(4) by (metis Inr_inject prod.inject)
  with assms(5,6) show ?thesis by (intro mlist_frame [of h r ys h']) auto
qed

lemma enq_all_fold:
  assumes "mlist h q xs" and "length xs + length ps \<le> Suc NMSGS" and "distinct (ps @ xs)"
  shows "\<exists>h' q'. enq_all enq ps h q = Inr (h', q') \<and> mlist h' q' (fold (enq_list (key h)) ps xs)
    \<and> same_data h h'"
  using assms
proof (induction ps arbitrary: h q xs)
  case Nil
  then show ?case by simp
next
  case (Cons p ps)
  obtain h1 q1 where e: "enq p h q = Inr (h1, q1)" "mlist h1 q1 (enq_list (key h) p xs)"
      "same_data h h1" "key h1 = key h"
    using enqE [OF Cons.prems(1), of p] Cons.prems(2,3)
    by (metis Suc_le_mono add_Suc_right add_leE distinct.simps(2) length_Cons list.set_intros(1)
        append_Cons Un_iff set_append)
  have "distinct (enq_list (key h) p xs)"
    using Cons.prems(3) by simp
  with Cons.IH [OF e(2)] Cons.prems(2,3) e show ?case
    by (auto intro: same_data_trans)
qed

text \<open>Entering any messages into an empty queue leaves them stably sorted by time.\<close>

lemma enq_all_sorts:
  assumes "distinct ps" and "length ps \<le> NMSGS"
  shows "\<exists>h' q'. enq_all enq ps h None = Inr (h', q') \<and> mlist h' q' (sort_key (key h) ps) \<and> same_data h h'"
  using enq_all_fold [of h None "[]" ps] assms by (simp add: fold_enq_list_sort)

end

interpretation dlq: msg_queue enqueueByDeadline by_deadline
proof unfold_locales
  show "\<exists>h' q'. enqueueByDeadline p h q = Inr (h', q') \<and> mlist h' q' (enq_list (by_deadline h) p xs)
      \<and> same_data h h' \<and> (\<forall>a. a \<notin> insert p (set xs) \<longrightarrow> h' a = h a)"
    if "mlist h q xs" "length xs \<le> NMSGS" "p \<notin> set xs" for h q xs p
    using walk_link_refines [OF that] by (simp add: enqueueByDeadline_def enq_list_def)
qed (simp add: same_dataD)

interpretation blq: msg_queue enqueueByBaseline by_baseline
proof unfold_locales
  show "\<exists>h' q'. enqueueByBaseline p h q = Inr (h', q') \<and> mlist h' q' (enq_list (by_baseline h) p xs)
      \<and> same_data h h' \<and> (\<forall>a. a \<notin> insert p (set xs) \<longrightarrow> h' a = h a)"
    if "mlist h q xs" "length xs \<le> NMSGS" "p \<notin> set xs" for h q xs p
    using walk_link_refines [OF that] by (simp add: enqueueByBaseline_def enq_list_def)
qed (simp add: same_dataD)

end
