(* ===== verification/TT_Kernel.thy ===== *)
theory TT_Kernel
  imports TT_Queues
begin

section \<open>TinyTimber: the kernel\<close>

text \<open>
  The kernel proper of \<open>lib/tinytimber/src/TinyTimber.c\<close>: its global variables as one record and
  one definition per routine. Threads and objects are numbered; \<open>threads[i]\<close> is \<open>i\<close> and \<open>thread0\<close>
  is \<open>THREAD0\<close>. Values that the code reads from the free-running timer are arguments, one per read.

  Context switches. \<open>dispatch\<close> names the thread to run next and triggers an exception: in thread
  mode the supervisor call switches at once; in an interrupt handler the switch is pended and taken
  when the handler returns (\<open>isr_exit\<close>, after \<open>vect_PendSV\<close> of \<open>dispatch.s\<close>). Whatever thread runs
  after a switch runs with interrupts enabled: a thread that left the processor in \<open>dispatch\<close>
  executes its \<open>ENABLE(1)\<close>, a preempted one was enabled, and a new one starts enabled. A routine
  that calls \<open>dispatch\<close> in the middle is therefore split there: the state it returns is the one
  just after the switch, and a second definition continues when the thread is switched back to.
\<close>

definition NTHREADS :: nat where "NTHREADS = 4"
definition THREAD0 :: nat where "THREAD0 = 4"
definition N_VECTORS :: nat where "N_VECTORS = 3"
definition INFINITY :: i32 where "INFINITY = 0x7fffffff"

datatype wanted = WNull | Installed | WThread nat

record kobject =
  ownedBy :: "nat option"
  wantedBy :: wanted

record thread_block =
  thread_no :: int
  t_next :: "nat option"
  t_msg :: "nat option"
  t_waitsFor :: "nat option"

type_synonym thr_mem = "nat \<Rightarrow> thread_block"

record kstate =
  kmem :: msg_mem
  kthr :: thr_mem
  kobj :: "nat \<Rightarrow> kobject"
  msgPool :: "nat option"
  msgQ :: "nat option"
  timerQ :: "nat option"
  runAsHardware :: bool
  doIRQSchedule :: bool
  timestamp :: i32
  threadPool :: "nat option"
  activeStack :: "nat option"
  current :: nat
  upcoming :: "nat option"
  mtable :: "nat \<Rightarrow> nat option"
  otable :: "nat \<Rightarrow> nat option"
  kprot :: bool
  khandler :: bool
  kpendsv :: bool
  kccr1 :: i32
  kredled :: bool

definition upd_thr :: "nat \<Rightarrow> (thread_block \<Rightarrow> thread_block) \<Rightarrow> kstate \<Rightarrow> kstate" where
  "upd_thr t f k = k\<lparr>kthr := (kthr k)(t := f (kthr k t))\<rparr>"

definition upd_obj :: "nat \<Rightarrow> (kobject \<Rightarrow> kobject) \<Rightarrow> kstate \<Rightarrow> kstate" where
  "upd_obj ob f k = k\<lparr>kobj := (kobj k)(ob := f (kobj k ob))\<rparr>"

subsection \<open>Interrupt masking and context switches\<close>

definition ENABLED :: "kstate \<Rightarrow> bool" where "ENABLED k = (\<not> kprot k)"
definition DISABLE :: "kstate \<Rightarrow> kstate" where "DISABLE k = k\<lparr>kprot := True\<rparr>"
definition ENABLE :: "bool \<Rightarrow> kstate \<Rightarrow> kstate" where
  "ENABLE s k = (if s then k\<lparr>kprot := False\<rparr> else k)"

definition RED_ALERT :: "kstate \<Rightarrow> kstate" where "RED_ALERT k = k\<lparr>kredled := True\<rparr>"
definition TIMERSET :: "nat \<Rightarrow> kstate \<Rightarrow> kstate" where
  "TIMERSET x k = k\<lparr>kccr1 := m_baseline (kmem k x)\<rparr>"

definition dispatch :: "nat \<Rightarrow> kstate \<Rightarrow> kstate" where
  "dispatch next k =
     (if \<not> khandler k then ENABLE True (k\<lparr>upcoming := Some next, current := next\<rparr>)
      else ENABLE True (k\<lparr>upcoming := Some next, kpendsv := True\<rparr>))"

definition isr_exit :: "kstate \<Rightarrow> kstate res" where
  "isr_exit k =
     (if kpendsv k
      then bnd (deref (upcoming k)) (\<lambda>t. Inr (k\<lparr>khandler := False, kpendsv := False, current := t\<rparr>))
      else Inr (k\<lparr>khandler := False\<rparr>))"

subsection \<open>Thread stacks\<close>

definition push :: "nat \<Rightarrow> thr_mem \<Rightarrow> nat option \<Rightarrow> thr_mem \<times> nat option" where
  "push t th stack = (th(t := (th t)\<lparr>t_next := stack\<rparr>), Some t)"

definition pop :: "thr_mem \<Rightarrow> nat option \<Rightarrow> (nat \<times> nat option) res" where
  "pop th stack = bnd (deref stack) (\<lambda>t. Inr (t, t_next (th t)))"

text \<open>\<open>push(pop(&threadPool), &activeStack); dispatch(activeStack);\<close>\<close>

definition activate :: "kstate \<Rightarrow> kstate res" where
  "activate k =
     bnd (pop (kthr k) (threadPool k)) (\<lambda>(t, tp).
       let (th, st) = push t (kthr k) (activeStack k)
       in Inr (dispatch t (k\<lparr>kthr := th, threadPool := tp, activeStack := st\<rparr>)))"

subsection \<open>Scheduling\<close>

text \<open>The wrapping comparison \<open>a->deadline - b->deadline\<close>, read as signed.\<close>

definition dl_diff :: "kstate \<Rightarrow> nat \<Rightarrow> nat \<Rightarrow> int" where
  "dl_diff k a b = sint (m_deadline (kmem k a) - m_deadline (kmem k b))"

definition schedule :: "kstate \<Rightarrow> kstate res" where
  "schedule k =
     bnd (deref (activeStack k)) (\<lambda>a.
       case msgQ k of
         None \<Rightarrow> Inr k
       | Some q \<Rightarrow>
           if threadPool k \<noteq> None \<and>
              (case t_msg (kthr k a) of None \<Rightarrow> True | Some topMsg \<Rightarrow> dl_diff k q topMsg < 0)
           then activate k
           else Inr k)"

text \<open>
  \<open>while (t->waitsFor) t = t->waitsFor->ownedBy;\<close>. There are five threads; the fuel covers a walk
  over all of them.
\<close>

fun chase :: "nat \<Rightarrow> kstate \<Rightarrow> nat \<Rightarrow> nat res" where
  "chase 0 k t = Inl Diverge"
| "chase (Suc fuel) k t =
     (case t_waitsFor (kthr k t) of
        None \<Rightarrow> Inr t
      | Some ob \<Rightarrow> bnd (deref (ownedBy (kobj k ob))) (\<lambda>t'. chase fuel k t'))"

abbreviation "CHASE_FUEL \<equiv> Suc (Suc NTHREADS)"

subsection \<open>The message loop\<close>

text \<open>Top of the loop of \<open>run\<close>: take the first message; \<open>SYNC\<close> on it follows.\<close>

definition run_begin :: "kstate \<Rightarrow> (nat \<times> kstate) res" where
  "run_begin k =
     bnd (dequeue (kmem k) (msgQ k)) (\<lambda>(this, q).
       Inr (this, ENABLE True (upd_thr (current k) (\<lambda>t. t\<lparr>t_msg := Some this\<rparr>) (k\<lparr>msgQ := q\<rparr>))))"

text \<open>Rest of the loop, after \<open>SYNC\<close> has returned.\<close>

definition run_end :: "nat \<Rightarrow> kstate \<Rightarrow> kstate res" where
  "run_end this k0 =
     (let k1 = DISABLE k0;
          (h, p) = insert_msg this (kmem k1) (msgPool k1);
          k = k1\<lparr>kmem := h, msgPool := p\<rparr>
      in bnd (deref (activeStack k)) (\<lambda>a.
         bnd (deref (t_next (kthr k a))) (\<lambda>b.
           if (case msgQ k of None \<Rightarrow> True
               | Some q \<Rightarrow> (case t_msg (kthr k b) of None \<Rightarrow> False | Some oldMsg \<Rightarrow> 0 < dl_diff k q oldMsg))
           then bnd (pop (kthr k) (activeStack k)) (\<lambda>(t, st).
                let (th, tp) = push t (kthr k) (threadPool k);
                    k2 = k\<lparr>kthr := th, activeStack := st, threadPool := tp\<rparr>
                in bnd (deref (activeStack k2)) (\<lambda>t0.
                   bnd (chase CHASE_FUEL k2 t0) (\<lambda>t1. Inr (dispatch t1 k2))))
           else Inr k)))"

subsection \<open>The timer interrupt\<close>

text \<open>
  \<open>while (timerQ && (timerQ->baseline - now <= 0)) enqueueByDeadline(dequeue(&timerQ), &msgQ);\<close>
\<close>

fun expire :: "nat \<Rightarrow> i32 \<Rightarrow> msg_mem \<Rightarrow> nat option \<Rightarrow> nat option
    \<Rightarrow> (msg_mem \<times> nat option \<times> nat option) res" where
  "expire 0 now h tq mq = Inl Diverge"
| "expire (Suc fuel) now h tq mq =
     (case tq of
        None \<Rightarrow> Inr (h, tq, mq)
      | Some a \<Rightarrow>
          if sint (m_baseline (h a) - now) \<le> 0
          then bnd (dequeue h tq) (\<lambda>(m, tq').
               bnd (enqueueByDeadline m h mq) (\<lambda>(h', mq'). expire fuel now h' tq' mq'))
          else Inr (h, tq, mq))"

definition vect_TIM5 :: "i32 \<Rightarrow> i32 \<Rightarrow> kstate \<Rightarrow> kstate res" where
  "vect_TIM5 now timcount k0 =
     bnd (expire (Suc NMSGS) now (kmem k0) (timerQ k0) (msgQ k0)) (\<lambda>(h, tq, mq).
       let k1 = k0\<lparr>kmem := h, timerQ := tq, msgQ := mq\<rparr>;
           k2 = (case tq of
                   None \<Rightarrow> k1
                 | Some q \<Rightarrow>
                     TIMERSET q (if sint (m_baseline (h q)) < sint timcount then RED_ALERT k1 else k1))
       in schedule k2)"

text \<open>The device interrupt wrapper \<open>IRQ(n, v)\<close>; \<open>meth\<close> is what the installed method does.\<close>

definition IRQ :: "nat \<Rightarrow> i32 \<Rightarrow> (kstate \<Rightarrow> kstate res) \<Rightarrow> kstate \<Rightarrow> kstate res" where
  "IRQ n now meth k0 =
     (let k1 = k0\<lparr>timestamp := now, runAsHardware := True, doIRQSchedule := False\<rparr>
      in bnd (if mtable k1 n \<noteq> None then meth k1 else Inr k1) (\<lambda>k2.
           let k3 = k2\<lparr>runAsHardware := False\<rparr>
           in bnd (if doIRQSchedule k3 then schedule k3 else Inr k3)
                (\<lambda>k4. Inr (k4\<lparr>doIRQSchedule := False\<rparr>))))"

text \<open>An interrupt as a whole: entry, handler, exception return.\<close>

definition interrupt :: "(kstate \<Rightarrow> kstate res) \<Rightarrow> kstate \<Rightarrow> kstate res" where
  "interrupt handler k = bnd (handler (k\<lparr>khandler := True\<rparr>)) isr_exit"


subsection \<open>Communication primitives\<close>

text \<open>The baseline that new messages and timers count from.\<close>

definition current_baseline :: "kstate \<Rightarrow> i32 res" where
  "current_baseline k =
     bnd (deref (t_msg (kthr k (current k)))) (\<lambda>m. Inr (m_baseline (kmem k m)))"

definition base_of :: "kstate \<Rightarrow> i32 res" where
  "base_of k = (if runAsHardware k then Inr (timestamp k) else current_baseline k)"

text \<open>The message is handed to the first block of the pool.\<close>

definition fill_msg :: "nat \<Rightarrow> i32 \<Rightarrow> i32 \<Rightarrow> nat \<Rightarrow> nat \<Rightarrow> i32 \<Rightarrow> kstate \<Rightarrow> kstate" where
  "fill_msg m b d ob meth arg k =
     k\<lparr>kmem := (kmem k)(m := (kmem k m)\<lparr>m_to := ob, m_method := meth, m_arg := arg,
                                         m_baseline := b, m_deadline := d\<rparr>)\<rparr>"

text \<open>The end of \<open>async\<close>: enter the filled message \<open>m\<close> into the queue its baseline calls for.\<close>

definition async_timed :: "i32 \<Rightarrow> nat \<Rightarrow> bool \<Rightarrow> kstate \<Rightarrow> kstate res" where
  "async_timed now m wasEnabled k =
     bnd (enqueueByBaseline m (kmem k) (timerQ k)) (\<lambda>(h, tq).
     bnd (deref tq) (\<lambda>q.
       let k2 = k\<lparr>kmem := h, timerQ := tq\<rparr>;
           k3 = (if sint (m_baseline (h q)) < sint now then RED_ALERT k2 else k2)
       in Inr (ENABLE wasEnabled (TIMERSET q k3))))"

definition async_ready :: "nat \<Rightarrow> bool \<Rightarrow> kstate \<Rightarrow> kstate res" where
  "async_ready m wasEnabled k =
     bnd (enqueueByDeadline m (kmem k) (msgQ k)) (\<lambda>(h, mq).
       let k2 = k\<lparr>kmem := h, msgQ := mq\<rparr>
       in if wasEnabled \<and> threadPool k2 \<noteq> None
          then bnd (deref mq) (\<lambda>q.
               bnd (deref (activeStack k2)) (\<lambda>a.
               bnd (deref (t_msg (kthr k2 a))) (\<lambda>am.
                 if dl_diff k2 q am < 0 then activate k2 else Inr (ENABLE wasEnabled k2))))
          else Inr (ENABLE wasEnabled k2))"

definition async :: "i32 \<Rightarrow> i32 \<Rightarrow> i32 \<Rightarrow> nat \<Rightarrow> nat \<Rightarrow> i32 \<Rightarrow> kstate \<Rightarrow> (nat \<times> kstate) res" where
  "async now bl dl ob meth arg k0 =
     (let wasEnabled = ENABLED k0; k1 = DISABLE k0
      in bnd (dequeue_pool (kmem k1) (msgPool k1)) (\<lambda>(m, p).
         bnd (base_of k1) (\<lambda>base.
           let b = base + bl;
               d = b + (if 0 < sint dl then dl else INFINITY);
               k = fill_msg m b d ob meth arg (k1\<lparr>msgPool := p\<rparr>)
           in bnd (if 0 < sint (b - now) then async_timed now m wasEnabled k
                   else async_ready m wasEnabled k)
                (\<lambda>k2. Inr (m, k2)))))"

text \<open>
  \<open>sync\<close> up to its first context switch. It has refused the call (the value is -1), or holds the
  object and is about to run the method, or waits for the object with the processor handed to the
  thread at the end of the chain of owners.
\<close>

datatype sync_step = SyncDeadlock | SyncAcquired bool | SyncBlocked bool

definition sync_lock :: "nat \<Rightarrow> bool \<Rightarrow> kstate \<Rightarrow> kstate" where
  "sync_lock ob wasEnabled k0 =
     (let k = upd_obj ob (\<lambda>x. x\<lparr>ownedBy := Some (current k0)\<rparr>) k0
      in ENABLE (wasEnabled \<and> wantedBy (kobj k ob) \<noteq> Installed) k)"

definition sync_want :: "nat \<Rightarrow> kstate \<Rightarrow> kstate res" where
  "sync_want ob k =
     bnd (case wantedBy (kobj k ob) of
            WNull \<Rightarrow> Inr k
          | WThread w \<Rightarrow> Inr (upd_thr w (\<lambda>x. x\<lparr>t_waitsFor := None\<rparr>) k)
          | Installed \<Rightarrow> Inl BadPointer)
       (\<lambda>k1. Inr (upd_thr (current k1) (\<lambda>x. x\<lparr>t_waitsFor := Some ob\<rparr>)
                   (upd_obj ob (\<lambda>x. x\<lparr>wantedBy := WThread (current k1)\<rparr>) k1)))"

definition sync_enter :: "nat \<Rightarrow> kstate \<Rightarrow> (sync_step \<times> kstate) res" where
  "sync_enter ob k0 =
     (let wasEnabled = ENABLED k0; k = DISABLE k0
      in case ownedBy (kobj k ob) of
           None \<Rightarrow> Inr (SyncAcquired wasEnabled, sync_lock ob wasEnabled k)
         | Some t0 \<Rightarrow>
             bnd (chase CHASE_FUEL k t0) (\<lambda>t.
               if t = current k \<or> \<not> wasEnabled
               then Inr (SyncDeadlock, ENABLE wasEnabled k)
               else bnd (sync_want ob k) (\<lambda>k1. Inr (SyncBlocked wasEnabled, dispatch t k1))))"

text \<open>Switched back to: the message may have been aborted meanwhile (the value is 0).\<close>

definition sync_resume :: "nat \<Rightarrow> bool \<Rightarrow> kstate \<Rightarrow> bool \<times> kstate" where
  "sync_resume ob wasEnabled k =
     (if t_msg (kthr k (current k)) = None then (False, ENABLE wasEnabled k)
      else (True, sync_lock ob wasEnabled k))"

text \<open>After the method: release the object and hand over to the thread that wants it.\<close>

definition sync_exit :: "nat \<Rightarrow> bool \<Rightarrow> kstate \<Rightarrow> kstate" where
  "sync_exit ob wasEnabled k0 =
     (let k = upd_obj ob (\<lambda>x. x\<lparr>ownedBy := None\<rparr>) (DISABLE k0)
      in case wantedBy (kobj k ob) of
           WThread t \<Rightarrow>
             dispatch t (upd_thr t (\<lambda>x. x\<lparr>t_waitsFor := None\<rparr>)
                          (upd_obj ob (\<lambda>x. x\<lparr>wantedBy := WNull\<rparr>) k))
         | _ \<Rightarrow> ENABLE wasEnabled k)"

text \<open>The search of \<open>ABORT\<close> along the active stack for a thread that waits to run \<open>m\<close>.\<close>

fun abort_search :: "nat \<Rightarrow> nat \<Rightarrow> kstate \<Rightarrow> nat option \<Rightarrow> nat option res" where
  "abort_search 0 m k t = Inl Diverge"
| "abort_search (Suc fuel) m k t =
     (case t of
        None \<Rightarrow> Inr None
      | Some a \<Rightarrow>
          if a \<noteq> current k \<and> t_msg (kthr k a) = Some m \<and> t_waitsFor (kthr k a) = Some (m_to (kmem k m))
          then Inr (Some a)
          else abort_search fuel m k (t_next (kthr k a)))"

definition ABORT :: "nat \<Rightarrow> kstate \<Rightarrow> kstate res" where
  "ABORT m k0 =
     (let wasEnabled = ENABLED k0; k = DISABLE k0
      in bnd (remove_msg m (kmem k) (timerQ k)) (\<lambda>(r1, h1, tq).
         let k1 = k\<lparr>kmem := h1, timerQ := tq\<rparr>
         in bnd (if r1 then Inr (True, h1, msgQ k1) else remove_msg m h1 (msgQ k1)) (\<lambda>(r, h2, mq).
            let k2 = k1\<lparr>kmem := h2, msgQ := mq\<rparr>
            in if r
               then let (h, p) = insert_msg m (kmem k2) (msgPool k2)
                    in Inr (ENABLE wasEnabled (k2\<lparr>kmem := h, msgPool := p\<rparr>))
               else bnd (abort_search CHASE_FUEL m k2 (activeStack k2)) (\<lambda>t.
                      case t of
                        None \<Rightarrow> Inr (ENABLE wasEnabled k2)
                      | Some a \<Rightarrow>
                          let k3 = upd_thr a (\<lambda>x. x\<lparr>t_msg := None\<rparr>) k2;
                              (h, p) = insert_msg m (kmem k3) (msgPool k3)
                          in Inr (ENABLE wasEnabled (k3\<lparr>kmem := h, msgPool := p\<rparr>))))))"

subsection \<open>Timers\<close>

definition T_RESET :: "kstate \<Rightarrow> i32 res" where
  "T_RESET k = (if ENABLED k then current_baseline k else Inr (timestamp k))"

definition T_SAMPLE :: "i32 \<Rightarrow> kstate \<Rightarrow> i32 res" where
  "T_SAMPLE accum k =
     bnd (if ENABLED k then current_baseline k else Inr (timestamp k)) (\<lambda>b. Inr (b - accum))"

definition CURRENT_OFFSET :: "i32 \<Rightarrow> kstate \<Rightarrow> i32 res" where
  "CURRENT_OFFSET now k =
     bnd (if ENABLED k then current_baseline k else Inr (timestamp k)) (\<lambda>b. Inr (now - b))"

subsection \<open>Initialization\<close>

definition init_messages :: "msg_mem \<Rightarrow> msg_mem" where
  "init_messages h = (\<lambda>i. if i < NMSGS - 1 then (h i)\<lparr>m_next := Some (i + 1)\<rparr>
                          else if i = NMSGS - 1 then (h i)\<lparr>m_next := None\<rparr> else h i)"

definition init_threads :: "thr_mem \<Rightarrow> thr_mem" where
  "init_threads th =
     (\<lambda>i. if i < NTHREADS
          then (th i)\<lparr>t_next := (if i < NTHREADS - 1 then Some (i + 1) else None),
                      thread_no := int i, t_waitsFor := None\<rparr>
          else if i = THREAD0
          then \<lparr>thread_no = -1, t_next = None, t_msg = None, t_waitsFor = None\<rparr>
          else th i)"

definition initialize :: "kstate \<Rightarrow> kstate" where
  "initialize k = k\<lparr>kmem := init_messages (kmem k), kthr := init_threads (kthr k)\<rparr>"

text \<open>The kernel's variables as the C loader leaves them.\<close>

definition boot :: kstate where
  "boot = \<lparr>kmem = (\<lambda>_. \<lparr>m_next = None, m_baseline = 0, m_deadline = 0, m_to = 0, m_method = 0, m_arg = 0\<rparr>),
     kthr = (\<lambda>_. \<lparr>thread_no = 0, t_next = None, t_msg = None, t_waitsFor = None\<rparr>),
     kobj = (\<lambda>_. \<lparr>ownedBy = None, wantedBy = WNull\<rparr>),
     msgPool = Some 0, msgQ = None, timerQ = None,
     runAsHardware = False, doIRQSchedule = False, timestamp = 0,
     threadPool = Some 0, activeStack = Some THREAD0, current = THREAD0, upcoming = None,
     mtable = (\<lambda>_. None), otable = (\<lambda>_. None),
     kprot = False, khandler = False, kpendsv = False, kccr1 = 0, kredled = False\<rparr>"

definition install :: "nat \<Rightarrow> nat \<Rightarrow> int \<Rightarrow> kstate \<Rightarrow> kstate" where
  "install ob m i k0 =
     (if 0 \<le> i \<and> i < int N_VECTORS
      then let wasEnabled = ENABLED k0;
               k1 = DISABLE k0;
               k2 = k1\<lparr>otable := (otable k1)(nat i := Some ob), mtable := (mtable k1)(nat i := Some m)\<rparr>
           in ENABLE wasEnabled (upd_obj ob (\<lambda>x. x\<lparr>wantedBy := Installed\<rparr>) k2)
      else k0)"

text \<open>
  \<open>tinytimber\<close> up to the point where the first thread, or the idle loop, takes over; \<open>t0\<close> and \<open>now\<close>
  are the two timer reads.
\<close>

definition tinytimber :: "i32 \<Rightarrow> i32 \<Rightarrow> nat \<Rightarrow> nat option \<Rightarrow> i32 \<Rightarrow> kstate \<Rightarrow> kstate res" where
  "tinytimber t0 now ob meth arg k0 =
     (let k1 = initialize (DISABLE k0)
      in case meth of
           None \<Rightarrow> Inr k1
         | Some m \<Rightarrow>
             bnd (async now 0 0 ob m arg (k1\<lparr>timestamp := t0, runAsHardware := True\<rparr>)) (\<lambda>(_, k2).
               schedule (k2\<lparr>runAsHardware := False\<rparr>)))"

text \<open>\<open>idle\<close>: schedule once, then sleep with interrupts enabled.\<close>

definition idle :: "kstate \<Rightarrow> kstate res" where
  "idle k = bnd (schedule k) (\<lambda>k1. Inr (ENABLE True k1))"

end
