(* ===== verification/TT_Messages.thy ===== *)
theory TT_Messages
  imports TT_Kernel
begin

section \<open>TinyTimber: no message block is lost or duplicated\<close>

text \<open>
  The kernel's first invariant: the pool, the two queues and the blocks held by executing threads
  together are the whole array \<open>messages\<close>, each block once, and the queues are sorted. \<open>held\<close> lists
  the blocks that \<open>run\<close> has dequeued and not yet returned.
\<close>

definition ALL_MSGS :: "nat multiset" where "ALL_MSGS = mset [0..<NMSGS]"

definition kqueues :: "kstate \<Rightarrow> nat list \<Rightarrow> nat list \<Rightarrow> nat list \<Rightarrow> bool" where
  "kqueues k pool mq tq \<longleftrightarrow>
     mlist (kmem k) (msgPool k) pool \<and> mlist (kmem k) (msgQ k) mq \<and> mlist (kmem k) (timerQ k) tq"

definition msgs_inv :: "nat list \<Rightarrow> kstate \<Rightarrow> bool" where
  "msgs_inv held k \<longleftrightarrow> (\<exists>pool mq tq. kqueues k pool mq tq
     \<and> mset (pool @ mq @ tq @ held) = ALL_MSGS
     \<and> sorted (map (by_deadline (kmem k)) mq) \<and> sorted (map (by_baseline (kmem k)) tq))"

lemma msgs_invE:
  assumes "msgs_inv held k"
  obtains pool mq tq where "mlist (kmem k) (msgPool k) pool" "mlist (kmem k) (msgQ k) mq"
    "mlist (kmem k) (timerQ k) tq" "mset (pool @ mq @ tq @ held) = ALL_MSGS"
    "sorted (map (by_deadline (kmem k)) mq)" "sorted (map (by_baseline (kmem k)) tq)"
  using assms by (auto simp: msgs_inv_def kqueues_def)

lemma msgs_invI:
  assumes "mlist (kmem k) (msgPool k) pool" "mlist (kmem k) (msgQ k) mq"
    "mlist (kmem k) (timerQ k) tq" "mset (pool @ mq @ tq @ held) = ALL_MSGS"
    "sorted (map (by_deadline (kmem k)) mq)" "sorted (map (by_baseline (kmem k)) tq)"
  shows "msgs_inv held k"
  using assms by (auto simp: msgs_inv_def kqueues_def)

text \<open>What the partition gives the proofs: disjointness and short queues.\<close>

lemma partition_distinct: "mset xs = ALL_MSGS \<Longrightarrow> distinct xs"
  by (metis ALL_MSGS_def distinct_upt mset_eq_imp_distinct_iff)

lemma partition_length: "mset xs = ALL_MSGS \<Longrightarrow> length xs = NMSGS"
  by (metis ALL_MSGS_def diff_zero length_upt mset_eq_length)

lemma same_data_keys:
  assumes "same_data h h'"
  shows "by_deadline h' = by_deadline h" and "by_baseline h' = by_baseline h"
  using assms by (simp_all add: same_dataD)

text \<open>Only the queues, their heads and the blocks matter to the invariant.\<close>

lemma msgs_inv_cong:
  assumes "kmem k' = kmem k" "msgPool k' = msgPool k" "msgQ k' = msgQ k" "timerQ k' = timerQ k"
  shows "msgs_inv held k' = msgs_inv held k"
  using assms by (simp add: msgs_inv_def kqueues_def)

named_theorems kframe \<open>fields a kernel routine leaves alone\<close>

lemma upd_thr_frame [simp, kframe]:
  "kmem (upd_thr t f k) = kmem k" "msgPool (upd_thr t f k) = msgPool k" "msgQ (upd_thr t f k) = msgQ k"
  "timerQ (upd_thr t f k) = timerQ k" "kobj (upd_thr t f k) = kobj k" "current (upd_thr t f k) = current k"
  "kthr (upd_thr t f k) = (kthr k)(t := f (kthr k t))" "threadPool (upd_thr t f k) = threadPool k"
  "activeStack (upd_thr t f k) = activeStack k" "kprot (upd_thr t f k) = kprot k"
  "khandler (upd_thr t f k) = khandler k" "runAsHardware (upd_thr t f k) = runAsHardware k"
  by (simp_all add: upd_thr_def)

lemma upd_obj_frame [simp, kframe]:
  "kmem (upd_obj t f k) = kmem k" "msgPool (upd_obj t f k) = msgPool k" "msgQ (upd_obj t f k) = msgQ k"
  "timerQ (upd_obj t f k) = timerQ k" "kthr (upd_obj t f k) = kthr k" "current (upd_obj t f k) = current k"
  "kobj (upd_obj t f k) = (kobj k)(t := f (kobj k t))" "threadPool (upd_obj t f k) = threadPool k"
  "activeStack (upd_obj t f k) = activeStack k" "kprot (upd_obj t f k) = kprot k"
  "khandler (upd_obj t f k) = khandler k"
  by (simp_all add: upd_obj_def)

lemma mask_frame [simp, kframe]:
  "kmem (ENABLE s k) = kmem k" "msgPool (ENABLE s k) = msgPool k" "msgQ (ENABLE s k) = msgQ k"
  "timerQ (ENABLE s k) = timerQ k" "kthr (ENABLE s k) = kthr k" "kobj (ENABLE s k) = kobj k"
  "current (ENABLE s k) = current k" "threadPool (ENABLE s k) = threadPool k"
  "activeStack (ENABLE s k) = activeStack k" "khandler (ENABLE s k) = khandler k"
  "kmem (DISABLE k) = kmem k" "msgPool (DISABLE k) = msgPool k" "msgQ (DISABLE k) = msgQ k"
  "timerQ (DISABLE k) = timerQ k" "kthr (DISABLE k) = kthr k" "kobj (DISABLE k) = kobj k"
  "current (DISABLE k) = current k" "threadPool (DISABLE k) = threadPool k"
  "activeStack (DISABLE k) = activeStack k" "khandler (DISABLE k) = khandler k"
  "runAsHardware (DISABLE k) = runAsHardware k" "timestamp (DISABLE k) = timestamp k"
  "kprot (DISABLE k)"
  by (simp_all add: ENABLE_def DISABLE_def)

lemma alert_frame [simp, kframe]:
  "kmem (RED_ALERT k) = kmem k" "msgPool (RED_ALERT k) = msgPool k" "msgQ (RED_ALERT k) = msgQ k"
  "timerQ (RED_ALERT k) = timerQ k" "kthr (RED_ALERT k) = kthr k" "kobj (RED_ALERT k) = kobj k"
  "kmem (TIMERSET x k) = kmem k" "msgPool (TIMERSET x k) = msgPool k" "msgQ (TIMERSET x k) = msgQ k"
  "timerQ (TIMERSET x k) = timerQ k" "kthr (TIMERSET x k) = kthr k" "kobj (TIMERSET x k) = kobj k"
  "threadPool (RED_ALERT k) = threadPool k" "activeStack (RED_ALERT k) = activeStack k"
  "threadPool (TIMERSET x k) = threadPool k" "activeStack (TIMERSET x k) = activeStack k"
  "current (RED_ALERT k) = current k" "current (TIMERSET x k) = current k"
  "khandler (RED_ALERT k) = khandler k" "khandler (TIMERSET x k) = khandler k"
  by (simp_all add: RED_ALERT_def TIMERSET_def)

lemma dispatch_frame [simp, kframe]:
  "kmem (dispatch t k) = kmem k" "msgPool (dispatch t k) = msgPool k" "msgQ (dispatch t k) = msgQ k"
  "timerQ (dispatch t k) = timerQ k" "kthr (dispatch t k) = kthr k" "kobj (dispatch t k) = kobj k"
  "threadPool (dispatch t k) = threadPool k" "activeStack (dispatch t k) = activeStack k"
  "current (dispatch t k) = (if khandler k then current k else t)"
  by (simp_all add: dispatch_def)

lemma fill_msg_frame [simp, kframe]:
  "msgPool (fill_msg m b d ob me ar k) = msgPool k" "msgQ (fill_msg m b d ob me ar k) = msgQ k"
  "timerQ (fill_msg m b d ob me ar k) = timerQ k" "kthr (fill_msg m b d ob me ar k) = kthr k"
  "kobj (fill_msg m b d ob me ar k) = kobj k" "threadPool (fill_msg m b d ob me ar k) = threadPool k"
  "activeStack (fill_msg m b d ob me ar k) = activeStack k" "current (fill_msg m b d ob me ar k) = current k"
  "kmem (fill_msg m b d ob me ar k) = (kmem k)(m := (kmem k m)\<lparr>m_to := ob, m_method := me, m_arg := ar,
                                         m_baseline := b, m_deadline := d\<rparr>)"
  by (simp_all add: fill_msg_def)

lemma activate_msgs:
  assumes "activate k = Inr k'"
  shows "kmem k' = kmem k" "msgPool k' = msgPool k" "msgQ k' = msgQ k" "timerQ k' = timerQ k"
    "kobj k' = kobj k"
  using assms by (auto simp: activate_def push_def res_simps)

lemma schedule_msgs:
  assumes "schedule k = Inr k'"
  shows "kmem k' = kmem k" "msgPool k' = msgPool k" "msgQ k' = msgQ k" "timerQ k' = timerQ k"
    "kobj k' = kobj k"
  using assms activate_msgs [of k k']
  by (auto simp: schedule_def res_simps split: option.splits if_splits)

lemma schedule_msgs_inv: "schedule k = Inr k' \<Longrightarrow> msgs_inv held k' = msgs_inv held k"
  by (intro msgs_inv_cong schedule_msgs)

subsection \<open>The message loop\<close>

lemma run_begin_msgs:
  assumes "msgs_inv held k" and "run_begin k = Inr (this, k')"
  shows "msgs_inv (this # held) k'" and "t_msg (kthr k' (current k')) = Some this"
    and "this \<notin> set held"
proof -
  from assms(1) obtain pool mq tq where inv: "mlist (kmem k) (msgPool k) pool" "mlist (kmem k) (msgQ k) mq"
    "mlist (kmem k) (timerQ k) tq" "mset (pool @ mq @ tq @ held) = ALL_MSGS"
    "sorted (map (by_deadline (kmem k)) mq)" "sorted (map (by_baseline (kmem k)) tq)"
    by (rule msgs_invE)
  from assms(2) obtain mq' where mq: "mq = this # mq'"
    using inv(2) by (cases mq) (auto simp: run_begin_def dequeue_def res_simps)
  from assms(2) mq inv(2) have k': "k' = ENABLE True (upd_thr (current k) (\<lambda>t. t\<lparr>t_msg := Some this\<rparr>)
      (k\<lparr>msgQ := m_next (kmem k this)\<rparr>))"
    by (auto simp: run_begin_def dequeue_def res_simps)
  show "msgs_inv (this # held) k'"
    by (rule msgs_invI [of k' pool mq' tq]) (use inv mq k' in auto)
  show "t_msg (kthr k' (current k')) = Some this" using k' by simp
  show "this \<notin> set held" using partition_distinct [OF inv(4)] mq by auto
qed


lemma insert_pool_msgs_inv:
  assumes "msgs_inv held k" and "m \<in> set held"
    and "insert_msg m (kmem k) (msgPool k) = (h, p)"
  shows "msgs_inv (remove1 m held) (k\<lparr>kmem := h, msgPool := p\<rparr>)"
proof -
  from assms(1) obtain pool mq tq where inv: "mlist (kmem k) (msgPool k) pool" "mlist (kmem k) (msgQ k) mq"
    "mlist (kmem k) (timerQ k) tq" "mset (pool @ mq @ tq @ held) = ALL_MSGS"
    "sorted (map (by_deadline (kmem k)) mq)" "sorted (map (by_baseline (kmem k)) tq)"
    by (rule msgs_invE)
  have d: "m \<notin> set pool" "m \<notin> set mq" "m \<notin> set tq"
    using partition_distinct [OF inv(4)] assms(2) by auto
  note ins = insert_msg_mlist [OF inv(1) d(1) assms(3)]
  have "mlist h (msgQ k) mq" "mlist h (timerQ k) tq"
    using ins(3) d by (auto intro: mlist_frame [OF inv(2)] mlist_frame [OF inv(3)])
  moreover have "mset held = add_mset m (mset (remove1 m held))"
    using assms(2) by simp
  then have "mset ((m # pool) @ mq @ tq @ remove1 m held) = ALL_MSGS"
    using inv(4) by (simp del: mset_remove1)
  ultimately show ?thesis
    using ins(1) inv(5,6) same_data_keys [OF ins(2)]
    by (intro msgs_invI [of _ "m # pool" mq tq]) simp_all
qed

lemma run_end_mem:
  assumes "run_end this k = Inr k'" and "insert_msg this (kmem k) (msgPool k) = (h, p)"
  shows "kmem k' = h" "msgPool k' = p" "msgQ k' = msgQ k" "timerQ k' = timerQ k"
  using assms by (auto simp: run_end_def res_simps Let_def push_def split: if_splits)

lemma run_end_msgs:
  assumes "msgs_inv held k" and "this \<in> set held" and "run_end this k = Inr k'"
  shows "msgs_inv (remove1 this held) k'"
proof -
  obtain h p where i: "insert_msg this (kmem k) (msgPool k) = (h, p)" by fastforce
  have "msgs_inv (remove1 this held) k' = msgs_inv (remove1 this held) (k\<lparr>kmem := h, msgPool := p\<rparr>)"
    using run_end_mem [OF assms(3) i] by (intro msgs_inv_cong) simp_all
  with insert_pool_msgs_inv [OF assms(1,2) i] show ?thesis by simp
qed

subsection \<open>The timer interrupt\<close>

definition expired :: "i32 \<Rightarrow> msg_mem \<Rightarrow> nat \<Rightarrow> bool" where
  "expired now h a \<longleftrightarrow> sint (m_baseline (h a) - now) \<le> 0"

lemma expired_same_data: "same_data h h' \<Longrightarrow> expired now h' = expired now h"
  by (rule ext) (simp add: expired_def same_dataD)

lemma expire_spec:
  assumes "mlist h tq ts" and "mlist h mq ms" and "distinct (ts @ ms)"
    and "length ts + length ms \<le> NMSGS" and "length ts < fuel"
  shows "\<exists>h' tq' mq'. expire fuel now h tq mq = Inr (h', tq', mq')
    \<and> mlist h' tq' (dropWhile (expired now h) ts)
    \<and> mlist h' mq' (fold (enq_list (by_deadline h)) (takeWhile (expired now h) ts) ms)
    \<and> same_data h h' \<and> (\<forall>a. a \<notin> set (ts @ ms) \<longrightarrow> h' a = h a)"
  using assms
proof (induction ts arbitrary: fuel h tq mq ms)
  case Nil
  then show ?case by (cases fuel) auto
next
  case (Cons t ts)
  from Cons.prems(5) obtain f where f: "fuel = Suc f" "length ts < f" by (cases fuel) auto
  from Cons.prems(1) have tq: "tq = Some t" "mlist h (m_next (h t)) ts" by simp_all
  show ?case
  proof (cases "expired now h t")
    case False
    with f tq Cons.prems(1,2) show ?thesis by (simp add: expired_def)
  next
    case True
    have "length ms \<le> NMSGS" "t \<notin> set ms" using Cons.prems(3,4) by auto
    from dlq.enqE [OF Cons.prems(2) this] obtain h1 q1 where
      e: "enqueueByDeadline t h mq = Inr (h1, q1)" "mlist h1 q1 (enq_list (by_deadline h) t ms)"
        "same_data h h1" "by_deadline h1 = by_deadline h"
        "\<forall>a. a \<notin> insert t (set ms) \<longrightarrow> h1 a = h a"
      by blast
    have ts1: "mlist h1 (m_next (h t)) ts"
      using e(5) Cons.prems(3) by (intro mlist_frame [OF tq(2)]) auto
    have d: "distinct (ts @ enq_list (by_deadline h) t ms)"
      using Cons.prems(3) by auto
    have "length ts + length (enq_list (by_deadline h) t ms) \<le> NMSGS" using Cons.prems(4) by simp
    from Cons.IH [OF ts1 e(2) d this f(2)] obtain h2 tq2 mq2 where
      r: "expire f now h1 (m_next (h t)) q1 = Inr (h2, tq2, mq2)"
        "mlist h2 tq2 (dropWhile (expired now h1) ts)"
        "mlist h2 mq2 (fold (enq_list (by_deadline h1)) (takeWhile (expired now h1) ts)
            (enq_list (by_deadline h) t ms))"
        "same_data h1 h2" "\<forall>a. a \<notin> set (ts @ enq_list (by_deadline h) t ms) \<longrightarrow> h2 a = h1 a"
      by blast
    have "expire fuel now h tq mq = Inr (h2, tq2, mq2)"
      using True f(1) tq(1) e(1) r(1) by (simp add: expired_def dequeue_def)
    moreover have "\<forall>a. a \<notin> set ((t # ts) @ ms) \<longrightarrow> h2 a = h a" using r(5) e(5) by simp
    ultimately show ?thesis
      using r(2-4) e(3,4) True expired_same_data [OF e(3)] same_data_trans [OF e(3) r(4)]
      by simp
  qed
qed

lemma sorted_fold_enq: "sorted (map key xs) \<Longrightarrow> sorted (map key (fold (enq_list key) ps xs))"
  by (induction ps arbitrary: xs) (auto simp: sorted_enq_list)

lemma mset_fold_enq: "mset (fold (enq_list key) ps xs) = mset ps + mset xs"
  by (induction ps arbitrary: xs) auto

text \<open>
  What the interrupt leaves: the expired front of the timer queue has moved to the message queue,
  the rest waits, and the compare register holds the baseline of its head.
\<close>

lemma vect_TIM5_queues:
  assumes inv: "kqueues k pool mq tq" "mset (pool @ mq @ tq @ held) = ALL_MSGS"
    and r: "vect_TIM5 now timcount k = Inr k'"
  shows "kqueues k' pool
      (fold (enq_list (by_deadline (kmem k))) (takeWhile (expired now (kmem k)) tq) mq)
      (dropWhile (expired now (kmem k)) tq)"
    and "same_data (kmem k) (kmem k')"
proof -
  have q: "mlist (kmem k) (msgPool k) pool" "mlist (kmem k) (msgQ k) mq" "mlist (kmem k) (timerQ k) tq"
    using inv(1) by (simp_all add: kqueues_def)
  have d: "distinct (tq @ mq)" "length tq + length mq \<le> NMSGS" "set pool \<inter> set (tq @ mq) = {}"
    using partition_distinct [OF inv(2)] partition_length [OF inv(2)] by auto
  have "length tq < Suc NMSGS" using d(2) by simp
  from expire_spec [OF q(3,2) d(1,2) this, of now] obtain h tq' mq' where
    e: "expire (Suc NMSGS) now (kmem k) (timerQ k) (msgQ k) = Inr (h, tq', mq')"
      "mlist h tq' (dropWhile (expired now (kmem k)) tq)"
      "mlist h mq' (fold (enq_list (by_deadline (kmem k))) (takeWhile (expired now (kmem k)) tq) mq)"
      "same_data (kmem k) h" "\<forall>a. a \<notin> set (tq @ mq) \<longrightarrow> h a = kmem k a"
    by blast
  have "mlist h (msgPool k) pool" using e(5) d(3) by (intro mlist_frame [OF q(1)]) auto
  moreover have "kmem k' = h" "msgPool k' = msgPool k" "msgQ k' = mq'" "timerQ k' = tq'"
    using r schedule_msgs [of _ k']
    by (auto simp: vect_TIM5_def e(1) Let_def simp del: expire.simps split: option.splits if_splits)
  ultimately show "kqueues k' pool
      (fold (enq_list (by_deadline (kmem k))) (takeWhile (expired now (kmem k)) tq) mq)
      (dropWhile (expired now (kmem k)) tq)" and "same_data (kmem k) (kmem k')"
    using e(2-4) by (simp_all add: kqueues_def)
qed

lemma vect_TIM5_msgs:
  assumes "msgs_inv held k" and "vect_TIM5 now timcount k = Inr k'"
  shows "msgs_inv held k'"
proof -
  from assms(1) obtain pool mq tq where inv: "kqueues k pool mq tq"
    "mset (pool @ mq @ tq @ held) = ALL_MSGS"
    "sorted (map (by_deadline (kmem k)) mq)" "sorted (map (by_baseline (kmem k)) tq)"
    by (auto simp: msgs_inv_def)
  let ?e = "expired now (kmem k)"
  note r = vect_TIM5_queues [OF inv(1,2) assms(2)]
  let ?mq = "fold (enq_list (by_deadline (kmem k))) (takeWhile ?e tq) mq"
  have "mset tq = mset (takeWhile ?e tq) + mset (dropWhile ?e tq)" by simp
  then have "mset (pool @ ?mq @ dropWhile ?e tq @ held) = ALL_MSGS"
    using inv(2) by (simp add: mset_fold_enq ac_simps del: mset_takeWhile_dropWhile)
  moreover have "sorted (map (by_baseline (kmem k)) (dropWhile ?e tq))"
    using inv(4) by (metis sorted_append map_append takeWhile_dropWhile_id)
  ultimately show ?thesis
    using r(1) inv(3) same_data_keys [OF r(2)]
    by (intro msgs_invI [of _ pool ?mq "dropWhile ?e tq"]) (simp_all add: sorted_fold_enq kqueues_def)
qed


subsection \<open>Sending\<close>

lemma async_timed_queues:
  assumes "mlist (kmem k) (timerQ k) tq" and "length tq \<le> NMSGS" and "m \<notin> set tq"
    and "async_timed now m w k = Inr k'"
  shows "mlist (kmem k') (timerQ k') (enq_list (by_baseline (kmem k)) m tq)"
    and "same_data (kmem k) (kmem k')" and "\<forall>a. a \<notin> insert m (set tq) \<longrightarrow> kmem k' a = kmem k a"
    and "msgQ k' = msgQ k" and "msgPool k' = msgPool k"
proof -
  from blq.enqE [OF assms(1-3)] obtain h q where
    e: "enqueueByBaseline m (kmem k) (timerQ k) = Inr (h, q)"
      "mlist h q (enq_list (by_baseline (kmem k)) m tq)" "same_data (kmem k) h"
      "\<forall>a. a \<notin> insert m (set tq) \<longrightarrow> h a = kmem k a" by blast
  from assms(4) e(1) have "kmem k' = h" "timerQ k' = q" "msgQ k' = msgQ k" "msgPool k' = msgPool k"
    by (auto simp: async_timed_def Let_def split: if_splits)
  with e show "mlist (kmem k') (timerQ k') (enq_list (by_baseline (kmem k)) m tq)"
    "same_data (kmem k) (kmem k')" "\<forall>a. a \<notin> insert m (set tq) \<longrightarrow> kmem k' a = kmem k a"
    "msgQ k' = msgQ k" "msgPool k' = msgPool k" by simp_all
qed

lemma async_ready_queues:
  assumes "mlist (kmem k) (msgQ k) mq" and "length mq \<le> NMSGS" and "m \<notin> set mq"
    and "async_ready m w k = Inr k'"
  shows "mlist (kmem k') (msgQ k') (enq_list (by_deadline (kmem k)) m mq)"
    and "same_data (kmem k) (kmem k')" and "\<forall>a. a \<notin> insert m (set mq) \<longrightarrow> kmem k' a = kmem k a"
    and "timerQ k' = timerQ k" and "msgPool k' = msgPool k"
proof -
  from dlq.enqE [OF assms(1-3)] obtain h q where
    e: "enqueueByDeadline m (kmem k) (msgQ k) = Inr (h, q)"
      "mlist h q (enq_list (by_deadline (kmem k)) m mq)" "same_data (kmem k) h"
      "\<forall>a. a \<notin> insert m (set mq) \<longrightarrow> h a = kmem k a" by blast
  from assms(4) e(1) activate_msgs [of "k\<lparr>kmem := h, msgQ := q\<rparr>" k']
  have "kmem k' = h" "msgQ k' = q" "timerQ k' = timerQ k" "msgPool k' = msgPool k"
    by (auto simp: async_ready_def Let_def split: if_splits)
  with e show "mlist (kmem k') (msgQ k') (enq_list (by_deadline (kmem k)) m mq)"
    "same_data (kmem k) (kmem k')" "\<forall>a. a \<notin> insert m (set mq) \<longrightarrow> kmem k' a = kmem k a"
    "timerQ k' = timerQ k" "msgPool k' = msgPool k" by simp_all
qed

text \<open>
  A call of \<open>async\<close> that returns has taken the first pool block, written the message into it and
  entered it in the timer queue or in the message queue, according to its baseline.
\<close>

lemma base_of_DISABLE [simp]: "base_of (DISABLE k) = base_of k"
  by (simp add: base_of_def current_baseline_def)

definition sent_mem :: "nat \<Rightarrow> i32 \<Rightarrow> i32 \<Rightarrow> nat \<Rightarrow> nat \<Rightarrow> i32 \<Rightarrow> msg_mem \<Rightarrow> msg_mem" where
  "sent_mem m b dl ob me ar h = h(m := (h m)\<lparr>m_to := ob, m_method := me, m_arg := ar,
     m_baseline := b, m_deadline := b + (if 0 < sint dl then dl else INFINITY)\<rparr>)"

lemma async_unfold:
  assumes "dequeue_pool (kmem k) (msgPool k) = Inr (m, p)" and "base_of k = Inr base"
  shows "\<exists>kf. kmem kf = sent_mem m (base + bl) dl ob me ar (kmem k) \<and> msgPool kf = p
    \<and> msgQ kf = msgQ k \<and> timerQ kf = timerQ k \<and> kthr kf = kthr k \<and> kobj kf = kobj k
    \<and> threadPool kf = threadPool k \<and> activeStack kf = activeStack k \<and> current kf = current k
    \<and> async now bl dl ob me ar k =
        bnd (if 0 < sint (base + bl - now) then async_timed now m (ENABLED k) kf
             else async_ready m (ENABLED k) kf) (\<lambda>k2. Inr (m, k2))"
  by (rule exI [of _ "fill_msg m (base + bl) (base + bl + (if 0 < sint dl then dl else INFINITY))
        ob me ar (DISABLE k\<lparr>msgPool := p\<rparr>)"])
      (simp add: async_def Let_def sent_mem_def assms)

lemma async_queues:
  assumes kq: "kqueues k (m # pool) mq tq" and part: "mset ((m # pool) @ mq @ tq @ held) = ALL_MSGS"
    and r: "async now bl dl ob me ar k = Inr (m', k')"
  obtains base h where "m' = m" and "base_of k = Inr base"
    and "h = sent_mem m (base + bl) dl ob me ar (kmem k)" and "same_data h (kmem k')"
    and "kqueues k' pool (if 0 < sint (base + bl - now) then mq else enq_list (by_deadline h) m mq)
           (if 0 < sint (base + bl - now) then enq_list (by_baseline h) m tq else tq)"
proof -
  have q: "mlist (kmem k) (msgPool k) (m # pool)" "mlist (kmem k) (msgQ k) mq" "mlist (kmem k) (timerQ k) tq"
    using kq by (simp_all add: kqueues_def)
  have d: "m \<notin> set mq" "m \<notin> set tq" "m \<notin> set pool" "set mq \<inter> set tq = {}" "set pool \<inter> set mq = {}"
      "set pool \<inter> set tq = {}" "length mq \<le> NMSGS" "length tq \<le> NMSGS"
    using partition_distinct [OF part] partition_length [OF part] by auto
  have dq: "dequeue_pool (kmem k) (msgPool k) = Inr (m, m_next (kmem k m))"
    and pool: "mlist (kmem k) (m_next (kmem k m)) pool"
    using dequeue_Cons [OF q(1)] by simp_all
  obtain base where base: "base_of k = Inr base"
    using r dq by (cases "base_of k") (simp_all add: async_def Let_def)
  define h where "h = sent_mem m (base + bl) dl ob me ar (kmem k)"
  from async_unfold [OF dq base] obtain kf where kf: "kmem kf = h" "msgPool kf = m_next (kmem k m)"
      "msgQ kf = msgQ k" "timerQ kf = timerQ k"
      "async now bl dl ob me ar k = bnd (if 0 < sint (base + bl - now) then async_timed now m (ENABLED k) kf
             else async_ready m (ENABLED k) kf) (\<lambda>k2. Inr (m, k2))"
    unfolding h_def by blast
  have fr: "h a = kmem k a" if "a \<noteq> m" for a using that by (simp add: h_def sent_mem_def)
  have l1: "mlist h (m_next (kmem k m)) pool" by (rule mlist_frame [OF pool]) (metis d(3) fr)
  have l2: "mlist h (msgQ k) mq" by (rule mlist_frame [OF q(2)]) (metis d(1) fr)
  have l3: "mlist h (timerQ k) tq" by (rule mlist_frame [OF q(3)]) (metis d(2) fr)
  show thesis
  proof (cases "0 < sint (base + bl - now)")
    case True
    with r kf(5) have mk: "m' = m" "async_timed now m (ENABLED k) kf = Inr k'" by (auto simp: res_simps)
    note e = async_timed_queues [OF _ d(8,2) mk(2), unfolded kf, OF l3]
    have "mlist (kmem k') (msgQ k) mq" "mlist (kmem k') (m_next (kmem k m)) pool"
      using e(3) d by (auto intro!: mlist_frame [OF l2] mlist_frame [OF l1])
    with e mk True show thesis
      by (intro that [OF mk(1) base h_def]) (auto simp: kqueues_def)
  next
    case False
    with r kf(5) have mk: "m' = m" "async_ready m (ENABLED k) kf = Inr k'" by (auto simp: res_simps)
    note e = async_ready_queues [OF _ d(7,1) mk(2), unfolded kf, OF l2]
    have "mlist (kmem k') (timerQ k) tq" "mlist (kmem k') (m_next (kmem k m)) pool"
      using e(3) d by (auto intro!: mlist_frame [OF l3] mlist_frame [OF l1])
    with e mk False show thesis
      by (intro that [OF mk(1) base h_def]) (auto simp: kqueues_def)
  qed
qed


lemma sent_mem_keys:
  assumes "m \<notin> set xs"
  shows "map (by_deadline (sent_mem m b dl ob me ar h)) xs = map (by_deadline h) xs"
    and "map (by_baseline (sent_mem m b dl ob me ar h)) xs = map (by_baseline h) xs"
  using assms by (auto simp: sent_mem_def)

lemma async_msgs:
  assumes "msgs_inv held k" and r: "async now bl dl ob me ar k = Inr (m, k')"
  shows "msgs_inv held k'"
proof -
  from assms(1) obtain pl mq tq where inv: "kqueues k pl mq tq"
    "mset (pl @ mq @ tq @ held) = ALL_MSGS"
    "sorted (map (by_deadline (kmem k)) mq)" "sorted (map (by_baseline (kmem k)) tq)"
    by (auto simp: msgs_inv_def)
  obtain m0 pool where pl: "pl = m0 # pool"
    using inv(1) r by (cases pl) (auto simp: async_def Let_def kqueues_def dequeue_pool_def)
  from async_queues [OF inv(1,2) [unfolded pl] r] obtain base h where
    q: "m = m0" "h = sent_mem m0 (base + bl) dl ob me ar (kmem k)" "same_data h (kmem k')"
      "kqueues k' pool (if 0 < sint (base + bl - now) then mq else enq_list (by_deadline h) m0 mq)
           (if 0 < sint (base + bl - now) then enq_list (by_baseline h) m0 tq else tq)"
    by blast
  have "m0 \<notin> set mq" "m0 \<notin> set tq" using partition_distinct [OF inv(2)] pl by auto
  then have sorted: "sorted (map (by_deadline h) mq)" "sorted (map (by_baseline h) tq)"
    using inv(3,4) q(2) sent_mem_keys by metis+
  have part: "add_mset m0 (mset pool + mset mq + mset tq + mset held) = ALL_MSGS"
    using inv(2) pl by (simp add: ac_simps)
  show ?thesis
  proof (cases "0 < sint (base + bl - now)")
    case True
    then show ?thesis
      using q(4) part sorted same_data_keys [OF q(3)]
      by (intro msgs_invI [of _ pool mq "enq_list (by_baseline h) m0 tq"])
        (simp_all add: kqueues_def sorted_enq_list ac_simps)
  next
    case False
    then show ?thesis
      using q(4) part sorted same_data_keys [OF q(3)]
      by (intro msgs_invI [of _ pool "enq_list (by_deadline h) m0 mq" tq])
        (simp_all add: kqueues_def sorted_enq_list ac_simps)
  qed
qed

text \<open>With the pool exhausted the kernel panics; nothing is overwritten.\<close>

lemma async_empty_pool: "msgPool k = None \<Longrightarrow> async now bl dl ob me ar k = Inl (Panic ''Empty pool'')"
  by (simp add: async_def Let_def dequeue_pool_def)

subsection \<open>Aborting\<close>

text \<open>Aborting a message that is still queued returns its block to the pool.\<close>

lemma ABORT_timer:
  assumes kq: "kqueues k pool mq tq" and part: "mset (pool @ mq @ tq @ held) = ALL_MSGS"
    and m: "m \<in> set tq"
  shows "\<exists>k'. ABORT m k = Inr k' \<and> kqueues k' (m # pool) mq (remove1 m tq) \<and> same_data (kmem k) (kmem k')"
proof -
  have q: "mlist (kmem k) (msgPool k) pool" "mlist (kmem k) (msgQ k) mq" "mlist (kmem k) (timerQ k) tq"
    using kq by (simp_all add: kqueues_def)
  have d: "m \<notin> set mq" "m \<notin> set pool" "m \<notin> set (remove1 m tq)" "set mq \<inter> set tq = {}"
      "set pool \<inter> set tq = {}" "length tq \<le> NMSGS" "set (remove1 m tq) \<subseteq> set tq"
    using partition_distinct [OF part] partition_length [OF part] m by (auto dest: set_remove1_subset [THEN subsetD])
  from remove_msg_present [OF q(3) d(6) m] obtain h1 t1 where
    rm: "remove_msg m (kmem k) (timerQ k) = Inr (True, h1, t1)" "mlist h1 t1 (remove1 m tq)"
      "same_data (kmem k) h1" "\<forall>a. a \<notin> set (remove1 m tq) \<longrightarrow> h1 a = kmem k a" by blast
  obtain h p where i: "insert_msg m h1 (msgPool k) = (h, p)" by fastforce
  have l: "mlist h1 (msgPool k) pool" "mlist h1 (msgQ k) mq"
    using rm(4) d by (auto intro!: mlist_frame [OF q(1)] mlist_frame [OF q(2)])
  note ins = insert_msg_mlist [OF l(1) d(2) i]
  have "mlist h (msgQ k) mq" "mlist h t1 (remove1 m tq)"
    using ins(3) d by (auto intro!: mlist_frame [OF l(2)] mlist_frame [OF rm(2)])
  with ins rm i show ?thesis
    by (auto simp: ABORT_def Let_def kqueues_def intro: same_data_trans)
qed

lemma ABORT_ready:
  assumes kq: "kqueues k pool mq tq" and part: "mset (pool @ mq @ tq @ held) = ALL_MSGS"
    and m: "m \<in> set mq"
  shows "\<exists>k'. ABORT m k = Inr k' \<and> kqueues k' (m # pool) (remove1 m mq) tq \<and> same_data (kmem k) (kmem k')"
proof -
  have q: "mlist (kmem k) (msgPool k) pool" "mlist (kmem k) (msgQ k) mq" "mlist (kmem k) (timerQ k) tq"
    using kq by (simp_all add: kqueues_def)
  have d: "m \<notin> set tq" "m \<notin> set pool" "m \<notin> set (remove1 m mq)" "set mq \<inter> set tq = {}"
      "set pool \<inter> set mq = {}" "length mq \<le> NMSGS" "set (remove1 m mq) \<subseteq> set mq" "length tq \<le> NMSGS"
    using partition_distinct [OF part] partition_length [OF part] m by (auto dest: set_remove1_subset [THEN subsetD])
  note ra = remove_msg_absent [OF q(3) d(8,1)]
  from remove_msg_present [OF q(2) d(6) m] obtain h1 m1 where
    rm: "remove_msg m (kmem k) (msgQ k) = Inr (True, h1, m1)" "mlist h1 m1 (remove1 m mq)"
      "same_data (kmem k) h1" "\<forall>a. a \<notin> set (remove1 m mq) \<longrightarrow> h1 a = kmem k a" by blast
  obtain h p where i: "insert_msg m h1 (msgPool k) = (h, p)" by fastforce
  have l: "mlist h1 (msgPool k) pool" "mlist h1 (timerQ k) tq"
    using rm(4) d by (auto intro!: mlist_frame [OF q(1)] mlist_frame [OF q(3)])
  note ins = insert_msg_mlist [OF l(1) d(2) i]
  have "mlist h (timerQ k) tq" "mlist h m1 (remove1 m mq)"
    using ins(3) d by (auto intro!: mlist_frame [OF l(2)] mlist_frame [OF rm(2)])
  with ins rm ra i show ?thesis
    by (auto simp: ABORT_def Let_def kqueues_def intro: same_data_trans)
qed

lemma ABORT_msgs:
  assumes "msgs_inv held k" and "m < NMSGS" and "\<exists>pool mq tq. kqueues k pool mq tq \<and> m \<in> set (mq @ tq)"
  shows "\<exists>k'. ABORT m k = Inr k' \<and> msgs_inv held k'"
proof -
  from assms(1) obtain pool mq tq where inv: "kqueues k pool mq tq"
    "mset (pool @ mq @ tq @ held) = ALL_MSGS"
    "sorted (map (by_deadline (kmem k)) mq)" "sorted (map (by_baseline (kmem k)) tq)"
    by (auto simp: msgs_inv_def)
  with assms(3) have "m \<in> set mq \<or> m \<in> set tq"
    by (auto simp: kqueues_def dest: chain_unique)
  then show ?thesis
  proof
    assume m: "m \<in> set mq"
    from ABORT_ready [OF inv(1,2) m] obtain k' where k': "ABORT m k = Inr k'"
      "kqueues k' (m # pool) (remove1 m mq) tq" "same_data (kmem k) (kmem k')" by blast
    have "mset mq = add_mset m (mset (remove1 m mq))" using m by simp
    then have "mset ((m # pool) @ remove1 m mq @ tq @ held) = ALL_MSGS"
      using inv(2) by (simp del: mset_remove1)
    then have "msgs_inv held k'"
      using k'(2) inv(3,4) same_data_keys [OF k'(3)]
      by (intro msgs_invI [of _ "m # pool" "remove1 m mq" tq]) (auto simp: kqueues_def sorted_map_remove1)
    with k'(1) show ?thesis by blast
  next
    assume m: "m \<in> set tq"
    from ABORT_timer [OF inv(1,2) m] obtain k' where k': "ABORT m k = Inr k'"
      "kqueues k' (m # pool) mq (remove1 m tq)" "same_data (kmem k) (kmem k')" by blast
    have "mset tq = add_mset m (mset (remove1 m tq))" using m by simp
    then have "mset ((m # pool) @ mq @ remove1 m tq @ held) = ALL_MSGS"
      using inv(2) by (simp del: mset_remove1)
    then have "msgs_inv held k'"
      using k'(2) inv(3,4) same_data_keys [OF k'(3)]
      by (intro msgs_invI [of _ "m # pool" mq "remove1 m tq"]) (auto simp: kqueues_def sorted_map_remove1)
    with k'(1) show ?thesis by blast
  qed
qed

end
