(* ===== verification/TT_Locks.thy ===== *)
theory TT_Locks
  imports TT_Messages
begin

section \<open>TinyTimber: threads, object locks and deadlock detection\<close>

text \<open>
  A thread that waits for an object points at it (\<open>waitsFor\<close>), the object points at its owner
  (\<open>ownedBy\<close>). The invariant of this part of the kernel: whoever waits is the thread its object is
  promised to (\<open>wantedBy\<close>) and the object has an owner, the graph of waiting threads has no cycle,
  and the running thread does not wait.
\<close>

abbreviation thread_id :: "nat \<Rightarrow> bool" where "thread_id t \<equiv> t \<le> THREAD0"

definition waits :: "kstate \<Rightarrow> (nat \<times> nat) set" where
  "waits k = {(t, t'). \<exists>ob. t_waitsFor (kthr k t) = Some ob \<and> ownedBy (kobj k ob) = Some t'}"

definition locks_inv :: "kstate \<Rightarrow> bool" where
  "locks_inv k \<longleftrightarrow>
     (\<forall>t ob. t_waitsFor (kthr k t) = Some ob \<longleftrightarrow> wantedBy (kobj k ob) = WThread t)
   \<and> (\<forall>t ob. t_waitsFor (kthr k t) = Some ob \<longrightarrow> thread_id t \<and> ownedBy (kobj k ob) \<noteq> None)
   \<and> (\<forall>ob t. ownedBy (kobj k ob) = Some t \<longrightarrow> thread_id t)
   \<and> acyclic (waits k)
   \<and> thread_id (current k) \<and> t_waitsFor (kthr k (current k)) = None"

lemma locks_invD:
  assumes "locks_inv k"
  shows "t_waitsFor (kthr k t) = Some ob \<Longrightarrow> thread_id t"
    and "t_waitsFor (kthr k t) = Some ob \<longleftrightarrow> wantedBy (kobj k ob) = WThread t"
    and "t_waitsFor (kthr k t) = Some ob \<Longrightarrow> ownedBy (kobj k ob) \<noteq> None"
    and "ownedBy (kobj k ob) = Some t' \<Longrightarrow> thread_id t'"
    and "acyclic (waits k)" and "thread_id (current k)" and "t_waitsFor (kthr k (current k)) = None"
  using assms unfolding locks_inv_def by blast+

lemma locks_inv_cong:
  assumes "kthr k' = kthr k" "kobj k' = kobj k" "current k' = current k"
  shows "locks_inv k' = locks_inv k"
  using assms by (simp add: locks_inv_def waits_def)

lemma waits_functional: "(t, a) \<in> waits k \<Longrightarrow> (t, b) \<in> waits k \<Longrightarrow> a = b"
  by (auto simp: waits_def)

lemma waits_thread_id: "locks_inv k \<Longrightarrow> (t, t') \<in> (waits k)\<^sup>+ \<Longrightarrow> thread_id t'"
  by (erule tranclE) (auto simp: waits_def dest: locks_invD(4))

lemma waits_rtrancl_thread_id:
  "locks_inv k \<Longrightarrow> thread_id t \<Longrightarrow> (t, t') \<in> (waits k)\<^sup>* \<Longrightarrow> thread_id t'"
  using waits_thread_id [of k t t'] by (auto dest: rtranclD)

subsection \<open>The walk along the owners ends\<close>

text \<open>How many threads can still be met from \<open>t\<close> on: strictly fewer with every step.\<close>

definition ahead :: "kstate \<Rightarrow> nat \<Rightarrow> nat set" where
  "ahead k t = {t'. (t, t') \<in> (waits k)\<^sup>+}"

lemma ahead_step:
  assumes "locks_inv k" and "(t, t') \<in> waits k"
  shows "card (ahead k t') < card (ahead k t)" and "finite (ahead k t)"
proof -
  have "ahead k t \<subseteq> {..THREAD0}" using waits_thread_id [OF assms(1)] by (auto simp: ahead_def)
  then show fin: "finite (ahead k t)" by (rule finite_subset) simp
  have "t' \<notin> ahead k t'" using locks_invD(5) [OF assms(1)] by (simp add: ahead_def acyclic_def)
  moreover have "t' \<in> ahead k t" using assms(2) by (simp add: ahead_def)
  moreover have "ahead k t' \<subseteq> ahead k t"
    using assms(2) by (auto simp: ahead_def intro: trancl_into_trancl2)
  ultimately have "ahead k t' \<subset> ahead k t" by blast
  with fin show "card (ahead k t') < card (ahead k t)" by (rule psubset_card_mono)
qed

lemma card_ahead: "locks_inv k \<Longrightarrow> card (ahead k t) \<le> Suc NTHREADS"
proof -
  assume "locks_inv k"
  then have "ahead k t \<subseteq> {..THREAD0}" using waits_thread_id by (auto simp: ahead_def)
  then have "card (ahead k t) \<le> card {..THREAD0}" by (intro card_mono) auto
  then show ?thesis by (simp add: THREAD0_def NTHREADS_def)
qed

lemma chase_reaches:
  assumes "locks_inv k" and "card (ahead k t) < fuel"
  shows "\<exists>t'. chase fuel k t = Inr t' \<and> (t, t') \<in> (waits k)\<^sup>* \<and> t_waitsFor (kthr k t') = None"
  using assms(2)
proof (induction fuel arbitrary: t)
  case 0
  then show ?case by simp
next
  case (Suc fuel)
  show ?case
  proof (cases "t_waitsFor (kthr k t)")
    case None
    then show ?thesis by (intro exI [of _ t]) simp
  next
    case (Some ob)
    with locks_invD(3) [OF assms(1)] obtain o1 where o1: "ownedBy (kobj k ob) = Some o1" by blast
    with Some have w: "(t, o1) \<in> waits k" by (auto simp: waits_def)
    with ahead_step [OF assms(1)] Suc.prems have "card (ahead k o1) < fuel" by fastforce
    from Suc.IH [OF this] w Some o1 show ?thesis by (auto intro: converse_rtrancl_into_rtrancl)
  qed
qed

lemma chase_total:
  assumes "locks_inv k"
  obtains t' where "chase CHASE_FUEL k t = Inr t'" and "(t, t') \<in> (waits k)\<^sup>*"
    and "t_waitsFor (kthr k t') = None"
proof -
  have "card (ahead k t) < CHASE_FUEL" using card_ahead [OF assms, of t] by simp
  from chase_reaches [OF assms this] that show thesis by blast
qed

text \<open>The end of the walk is the only non-waiting thread on it.\<close>

lemma waits_end_unique:
  assumes "(t, a) \<in> (waits k)\<^sup>*" "t_waitsFor (kthr k a) = None"
    and "(t, b) \<in> (waits k)\<^sup>*" "t_waitsFor (kthr k b) = None"
  shows "a = b"
  using assms
proof (induction rule: converse_rtrancl_induct)
  case base
  then show ?case by (auto elim: converse_rtranclE simp: waits_def)
next
  case (step x y)
  have "x \<noteq> b" using step.hyps(1) step.prems(3) by (auto simp: waits_def)
  with step.prems(2) obtain z where "(x, z) \<in> waits k" "(z, b) \<in> (waits k)\<^sup>*"
    by (auto elim: converse_rtranclE)
  with waits_functional [OF step.hyps(1)] step show ?case by blast
qed

subsection \<open>Synchronous calls\<close>

text \<open>
  \<open>sync\<close> on a locked object, called with interrupts enabled, is refused exactly when the owner
  already waits, directly or along a chain of owners, for the caller.
\<close>

lemma sync_enter_deadlock:
  assumes "locks_inv k" and "ENABLED k" and ob: "ownedBy (kobj k ob) = Some t0"
  shows "(\<exists>k'. sync_enter ob k = Inr (SyncDeadlock, k')) \<longleftrightarrow> (t0, current k) \<in> (waits k)\<^sup>*"
proof -
  have inv: "locks_inv (DISABLE k)" using assms(1) locks_inv_cong [of "DISABLE k" k] by simp
  have w: "waits (DISABLE k) = waits k" by (simp add: waits_def)
  obtain t where t: "chase CHASE_FUEL (DISABLE k) t0 = Inr t" "(t0, t) \<in> (waits k)\<^sup>*"
      "t_waitsFor (kthr k t) = None"
    using chase_total [OF inv, of t0] w by auto
  have "t = current k \<longleftrightarrow> (t0, current k) \<in> (waits k)\<^sup>*"
    using waits_end_unique [OF t(2,3)] locks_invD(7) [OF assms(1)] t(2) by blast
  with t(1) ob assms(2) show ?thesis
    by (auto simp: sync_enter_def Let_def res_simps simp del: chase.simps split: if_splits)
qed

lemma sync_enter_free:
  assumes "ownedBy (kobj k ob) = None"
  shows "\<exists>k'. sync_enter ob k = Inr (SyncAcquired (ENABLED k), k') \<and> ownedBy (kobj k' ob) = Some (current k)
    \<and> current k' = current k"
  using assms by (simp add: sync_enter_def sync_lock_def Let_def)

text \<open>Adding the one edge that \<open>sync\<close> adds keeps the graph acyclic.\<close>

lemma acyclic_insert_end:
  assumes "acyclic r" and "(b, a) \<notin> r\<^sup>*"
  shows "acyclic (insert (a, b) r)"
  using assms by (simp add: acyclic_insert)

lemma waits_mono_clear:
  "waits (upd_thr w (\<lambda>x. x\<lparr>t_waitsFor := None\<rparr>) k) \<subseteq> waits k"
  by (auto simp: waits_def split: if_splits)

lemma sync_want_eq:
  assumes "sync_want ob k = Inr k'"
  shows "k' = upd_thr (current k) (\<lambda>x. x\<lparr>t_waitsFor := Some ob\<rparr>)
      (upd_obj ob (\<lambda>x. x\<lparr>wantedBy := WThread (current k)\<rparr>)
        (case wantedBy (kobj k ob) of WThread w \<Rightarrow> upd_thr w (\<lambda>x. x\<lparr>t_waitsFor := None\<rparr>) k | _ \<Rightarrow> k))"
  using assms by (auto simp: sync_want_def res_simps split: wanted.splits)

text \<open>The fields that matter after \<open>sync_want\<close>: only the caller and a displaced waiter change.\<close>

lemma sync_want_view:
  assumes inv: "locks_inv k" and r: "sync_want ob k = Inr k'"
  shows "t_waitsFor (kthr k' t) = (if t = current k then Some ob
           else if t_waitsFor (kthr k t) = Some ob then None else t_waitsFor (kthr k t))"
    and "t_next (kthr k' t) = t_next (kthr k t)" and "t_msg (kthr k' t) = t_msg (kthr k t)"
    and "wantedBy (kobj k' x) = (if x = ob then WThread (current k) else wantedBy (kobj k x))"
    and "ownedBy (kobj k' x) = ownedBy (kobj k x)" and "current k' = current k"
    and "khandler k' = khandler k" and "threadPool k' = threadPool k" "activeStack k' = activeStack k"
    and "kmem k' = kmem k" "msgPool k' = msgPool k" "msgQ k' = msgQ k" "timerQ k' = timerQ k"
  using locks_invD(2) [OF inv, of t ob]
  by (auto simp: sync_want_eq [OF r] split: wanted.split)

lemma sync_want_locks:
  assumes inv: "locks_inv k" and ob: "ownedBy (kobj k ob) = Some t0"
    and nr: "(t0, current k) \<notin> (waits k)\<^sup>*" and r: "sync_want ob k = Inr k'"
  shows "t_waitsFor (kthr k' t) = Some x \<longleftrightarrow> wantedBy (kobj k' x) = WThread t"
    and "t_waitsFor (kthr k' t) = Some x \<Longrightarrow> thread_id t \<and> ownedBy (kobj k' x) \<noteq> None"
    and "acyclic (waits k')"
proof -
  note v = sync_want_view [OF inv r]
  have "t_waitsFor (kthr k (current k)) = None" by (rule locks_invD(7) [OF inv])
  then have nc: "wantedBy (kobj k x) \<noteq> WThread (current k)"
    using locks_invD(2) [OF inv, of "current k" x] by simp
  show "t_waitsFor (kthr k' t) = Some x \<longleftrightarrow> wantedBy (kobj k' x) = WThread t"
    using locks_invD(2) [OF inv, of t x] nc by (auto simp: v(1,4))
  show "thread_id t \<and> ownedBy (kobj k' x) \<noteq> None" if "t_waitsFor (kthr k' t) = Some x"
    using that locks_invD(1,3) [OF inv, of t x] locks_invD(6) [OF inv] ob
    by (auto simp: v(1,5) split: if_splits)
  have "waits k' \<subseteq> insert (current k, t0) (waits k)"
    using ob by (auto simp: waits_def v(1,5) split: if_splits)
  moreover have "acyclic (insert (current k, t0) (waits k))"
    using locks_invD(5) [OF inv] nr by (rule acyclic_insert_end)
  ultimately show "acyclic (waits k')" by (rule acyclic_subset [rotated])
qed

lemma waits_unwanted:
  assumes "\<And>t. t_waitsFor (kthr k t) \<noteq> Some ob" and "kthr k' = kthr k"
    and "\<And>x. x \<noteq> ob \<Longrightarrow> ownedBy (kobj k' x) = ownedBy (kobj k x)"
  shows "waits k' = waits k"
proof -
  have "t_waitsFor (kthr k t) = Some x \<Longrightarrow> ownedBy (kobj k' x) = ownedBy (kobj k x)" for t x
    using assms(1) [of t] assms(3) [of x] by auto
  then show ?thesis by (auto simp: waits_def assms(2))
qed

text \<open>Edges into a thread that does not wait close no cycle.\<close>

lemma acyclic_into_sink:
  assumes "acyclic r" and "c \<notin> Domain s" and "s \<subseteq> r \<union> UNIV \<times> {c}"
  shows "acyclic s"
proof -
  have "(a, b) \<in> r\<^sup>+ \<or> b = c" if "(a, b) \<in> s\<^sup>+" for a b
    using that
  proof (induction rule: trancl.induct)
    case (r_into_trancl a b)
    then show ?case using assms(3) by auto
  next
    case (trancl_into_trancl a b d)
    then have "b \<noteq> c" using assms(2) by auto
    with trancl_into_trancl have ab: "(a, b) \<in> r\<^sup>+" by blast
    show ?case
    proof (cases "d = c")
      case False
      then have "(b, d) \<in> r" using trancl_into_trancl(2) assms(3) by auto
      with ab show ?thesis by (auto intro: trancl.trancl_into_trancl)
    qed simp
  qed
  then have "a = c \<or> (a, a) \<in> r\<^sup>+" if "(a, a) \<in> s\<^sup>+" for a using that by blast
  moreover have "a \<noteq> c" if "(a, a) \<in> s\<^sup>+" for a
    using tranclD [OF that] assms(2) by auto
  ultimately show ?thesis using assms(1) by (auto simp: acyclic_def)
qed

lemma sync_lock_locks:
  assumes inv: "locks_inv k"
  shows "locks_inv (sync_lock ob w k)"
proof -
  let ?k = "sync_lock ob w k"
  have v: "kthr ?k = kthr k" "current ?k = current k" "wantedBy (kobj ?k x) = wantedBy (kobj k x)"
    "ownedBy (kobj ?k x) = (if x = ob then Some (current k) else ownedBy (kobj k x))" for x
    by (simp_all add: sync_lock_def Let_def)
  have "current k \<notin> Domain (waits ?k)" using locks_invD(7) [OF inv] by (auto simp: waits_def v)
  moreover have "waits ?k \<subseteq> waits k \<union> UNIV \<times> {current k}"
    by (auto simp: waits_def v split: if_splits)
  ultimately have "acyclic (waits ?k)" by (rule acyclic_into_sink [OF locks_invD(5) [OF inv]])
  then show ?thesis
    using inv unfolding locks_inv_def v by auto
qed

lemma sync_exit_locks:
  assumes inv: "locks_inv k" and h: "\<not> khandler k"
  shows "locks_inv (sync_exit ob w k)"
proof (cases "wantedBy (kobj k ob)")
  case (WThread t)
  then have t: "t_waitsFor (kthr k t) = Some ob" using locks_invD(2) [OF inv] by simp
  let ?k = "sync_exit ob w k"
  have wf: "t_waitsFor (kthr ?k a) = (if a = t then None else t_waitsFor (kthr k a))" for a
    by (simp add: sync_exit_def Let_def WThread)
  have ow: "ownedBy (kobj ?k x) = (if x = ob then None else ownedBy (kobj k x))" for x
    by (simp add: sync_exit_def Let_def WThread)
  have wb: "wantedBy (kobj ?k x) = (if x = ob then WNull else wantedBy (kobj k x))" for x
    by (simp add: sync_exit_def Let_def WThread)
  have cur: "current ?k = t" using h by (simp add: sync_exit_def Let_def WThread)
  have only: "t_waitsFor (kthr k a) = Some ob \<Longrightarrow> a = t" for a
    using locks_invD(2) [OF inv, of a ob] WThread by simp
  have "waits ?k \<subseteq> waits k" by (auto simp: waits_def wf ow split: if_splits)
  then have ac: "acyclic (waits ?k)" using locks_invD(5) [OF inv] by (rule acyclic_subset [rotated])
  have iff: "t_waitsFor (kthr ?k a) = Some x \<longleftrightarrow> wantedBy (kobj ?k x) = WThread a" for a x
  proof (cases "a = t")
    case True
    with t WThread locks_invD(2) [OF inv, of t x] show ?thesis by (auto simp: wf wb)
  next
    case False
    with only [of a] WThread locks_invD(2) [OF inv, of a x] show ?thesis by (simp add: wf wb)
  qed
  have rng: "thread_id a \<and> ownedBy (kobj ?k x) \<noteq> None" if "t_waitsFor (kthr ?k a) = Some x" for a x
  proof -
    from that have a: "a \<noteq> t" "t_waitsFor (kthr k a) = Some x" by (simp_all add: wf split: if_splits)
    with only [of a] have "x \<noteq> ob" by auto
    with locks_invD(1,3) [OF inv a(2)] show ?thesis by (simp add: ow)
  qed
  have own: "ownedBy (kobj ?k x) = Some a \<Longrightarrow> thread_id a" for a x
    using locks_invD(4) [OF inv, of x a] by (simp add: ow split: if_splits)
  have "thread_id t" "t_waitsFor (kthr ?k t) = None" using locks_invD(1) [OF inv t] by (simp_all add: wf)
  with iff rng own ac cur show ?thesis unfolding locks_inv_def by blast
next
  case unwanted: WNull
  then have nw: "t_waitsFor (kthr k t) \<noteq> Some ob" for t using locks_invD(2) [OF inv, of t ob] by simp
  then have "waits (sync_exit ob w k) = waits k"
    by (rule waits_unwanted) (simp_all add: sync_exit_def Let_def unwanted)
  with inv nw show ?thesis by (auto simp: locks_inv_def sync_exit_def Let_def unwanted)
next
  case unwanted: Installed
  then have nw: "t_waitsFor (kthr k t) \<noteq> Some ob" for t using locks_invD(2) [OF inv, of t ob] by simp
  then have "waits (sync_exit ob w k) = waits k"
    by (rule waits_unwanted) (simp_all add: sync_exit_def Let_def unwanted)
  with inv nw show ?thesis by (auto simp: locks_inv_def sync_exit_def Let_def unwanted)
qed

lemma sync_enter_locks:
  assumes inv: "locks_inv k" and "\<not> khandler k" and r: "sync_enter ob k = Inr (s, k')"
  shows "locks_inv k'"
proof (cases "ownedBy (kobj k ob)")
  case None
  then have k': "k' = sync_lock ob (ENABLED k) (DISABLE k)"
    using r by (simp add: sync_enter_def Let_def)
  have "locks_inv (DISABLE k)" using inv locks_inv_cong [of "DISABLE k" k] by simp
  with None show ?thesis by (simp add: k' sync_lock_locks)
next
  case (Some t0)
  have inv': "locks_inv (DISABLE k)" using inv locks_inv_cong [of "DISABLE k" k] by simp
  obtain t where t: "chase CHASE_FUEL (DISABLE k) t0 = Inr t" "(t0, t) \<in> (waits (DISABLE k))\<^sup>*"
      "t_waitsFor (kthr (DISABLE k) t) = None"
    using chase_total [OF inv', of t0] by blast
  show ?thesis
  proof (cases "t = current k \<or> \<not> ENABLED k")
    case True
    with r t(1) Some have "k' = ENABLE (ENABLED k) (DISABLE k)"
      by (auto simp: sync_enter_def Let_def simp del: chase.simps split: if_splits)
    with inv locks_inv_cong [of k' k] show ?thesis by simp
  next
    case False
    with r t(1) Some obtain k1 where k1: "sync_want ob (DISABLE k) = Inr k1" "k' = dispatch t k1"
      by (auto simp: sync_enter_def Let_def res_simps simp del: chase.simps split: if_splits)
    have nr: "(t0, current (DISABLE k)) \<notin> (waits (DISABLE k))\<^sup>*"
      using waits_end_unique [OF t(2,3)] locks_invD(7) [OF inv'] False by auto
    have ow: "ownedBy (kobj (DISABLE k) ob) = Some t0" using Some by simp
    note sw = sync_want_locks [OF inv' ow nr k1(1)] and v = sync_want_view [OF inv' k1(1)]
    have "thread_id t"
      using waits_rtrancl_thread_id [OF inv' _ t(2)] locks_invD(4) [OF inv Some] by simp
    moreover have "t_waitsFor (kthr k1 t) = None" using v(1) [of t] t(3) False by simp
    moreover have "waits k' = waits k1" by (simp add: k1(2) waits_def)
    moreover have "ownedBy (kobj k1 x) = Some y \<Longrightarrow> thread_id y" for x y
      using locks_invD(4) [OF inv'] v(5) by simp
    ultimately show ?thesis
      using sw assms(2) v(7) unfolding locks_inv_def by (simp add: k1(2))
  qed
qed


text \<open>
  Handing over: when the owner leaves an object that another thread waits for, that thread runs
  next and, having resumed, owns the object; nobody waits for it any more.
\<close>

lemma sync_handover:
  assumes "locks_inv k" and "\<not> khandler k" and "wantedBy (kobj k ob) = WThread t"
    and "t_msg (kthr k t) \<noteq> None" and "sync_resume ob w' (sync_exit ob w k) = (ok, k')"
  shows "ok" and "current k' = t" and "ownedBy (kobj k' ob) = Some t" and "wantedBy (kobj k' ob) = WNull"
    and "t_waitsFor (kthr k' t) = None" and "locks_inv k'"
proof -
  have l: "locks_inv (sync_exit ob w k)" using assms(1,2) by (rule sync_exit_locks)
  have o: "ownedBy (kobj (sync_exit ob w k) ob) = None"
    using assms(3) by (simp add: sync_exit_def Let_def)
  have c: "current (sync_exit ob w k) = t" "t_msg (kthr (sync_exit ob w k) t) = t_msg (kthr k t)"
    using assms(2,3) by (simp_all add: sync_exit_def Let_def)
  with assms(4,5) have k': "ok" "k' = sync_lock ob w' (sync_exit ob w k)"
    by (auto simp: sync_resume_def)
  show "ok" by (rule k'(1))
  show "locks_inv k'" unfolding k'(2) using l by (rule sync_lock_locks)
  show "current k' = t" "ownedBy (kobj k' ob) = Some t" using c by (simp_all add: k'(2) sync_lock_def Let_def)
  show "wantedBy (kobj k' ob) = WNull" "t_waitsFor (kthr k' t) = None"
    using assms(2,3) by (simp_all add: k'(2) sync_lock_def sync_exit_def Let_def)
qed

end
