(* ===== verification/TT_System.thy ===== *)
theory TT_System
  imports TT_Locks
begin

section \<open>TinyTimber: executions of the kernel\<close>

text \<open>
  A system state is the kernel's variables together with what every thread still has to do: the
  frames on its stack, innermost first. A step is one of the critical sections of the kernel, made
  by the current thread (\<open>THREAD0\<close> is the idle loop), or an interrupt. What a method does is left open: it may send messages,
  abort queued ones and return, and, when \<open>nested\<close> is true, call \<open>SYNC\<close> itself.

  \<^item> \<open>FDeq m\<close>: \<open>run\<close> has dequeued \<open>m\<close> and is about to call \<open>SYNC\<close> for it;
  \<^item> \<open>FRun m\<close>: \<open>run\<close> is inside that call;
  \<^item> \<open>FDone m\<close>: the call has returned, the rest of the loop body is to come;
  \<^item> \<open>FSync ob w\<close>: \<open>sync\<close> holds \<open>ob\<close> and runs its method (\<open>w\<close> is \<open>wasEnabled\<close>);
  \<^item> \<open>FWait ob w\<close>: \<open>sync\<close> has handed the processor over and waits for \<open>ob\<close>.
\<close>

datatype frame = FDeq nat | FRun nat | FDone nat | FSync nat bool | FWait nat bool

type_synonym frames = "nat \<Rightarrow> frame list"

fun frame_msg :: "frame \<Rightarrow> nat list" where
  "frame_msg (FDeq m) = [m]"
| "frame_msg (FRun m) = [m]"
| "frame_msg (FDone m) = [m]"
| "frame_msg _ = []"

definition held_by :: "frame list \<Rightarrow> nat list" where
  "held_by fs = concat (map frame_msg fs)"

definition held :: "frames \<Rightarrow> nat list" where
  "held F = concat (map (\<lambda>t. held_by (F t)) [0..<NTHREADS])"

text \<open>Where a call of \<open>sync\<close> leaves the stack, and where its return does.\<close>

definition called :: "nat \<Rightarrow> sync_step \<Rightarrow> frame list \<Rightarrow> frame list" where
  "called ob r fs = (case r of SyncDeadlock \<Rightarrow> fs | SyncAcquired w \<Rightarrow> FSync ob w # fs
                             | SyncBlocked w \<Rightarrow> FWait ob w # fs)"

fun returned :: "frame list \<Rightarrow> frame list" where
  "returned [FRun m] = [FDone m]"
| "returned fs = fs"

text \<open>The messages a device interrupt's method sends; the drivers' methods request scheduling.\<close>

fun isr_sends :: "(i32 \<times> i32 \<times> i32 \<times> nat \<times> nat \<times> i32) list \<Rightarrow> kstate \<Rightarrow> kstate res" where
  "isr_sends [] k = Inr k"
| "isr_sends ((now, bl, dl, ob, me, ar) # ms) k =
     bnd (async now bl dl ob me ar k) (\<lambda>(_, k'). isr_sends ms (k'\<lparr>doIRQSchedule := True\<rparr>))"

inductive sys_step :: "bool \<Rightarrow> kstate \<times> frames \<Rightarrow> kstate \<times> frames \<Rightarrow> bool" for nested where
  take: "F (current k) = [] \<Longrightarrow> current k < NTHREADS \<Longrightarrow> run_begin k = Inr (m, k') \<Longrightarrow>
     sys_step nested (k, F) (k', F(current k := [FDeq m]))"
| run_sync: "F (current k) = [FDeq m] \<Longrightarrow> sync_enter (m_to (kmem k m)) k = Inr (r, k') \<Longrightarrow>
     sys_step nested (k, F)
       (k', F(current k := returned (called (m_to (kmem k m)) r [FRun m])))"
| meth_sync: "nested \<Longrightarrow> F (current k) = FSync ob w # fs \<Longrightarrow> sync_enter ob' k = Inr (r, k') \<Longrightarrow>
     sys_step nested (k, F) (k', F(current k := called ob' r (FSync ob w # fs)))"
| meth_async: "F (current k) = FSync ob w # fs \<Longrightarrow> async now bl dl ob' me ar k = Inr (m, k') \<Longrightarrow>
     sys_step nested (k, F) (k', F)"
| meth_abort: "F (current k) = FSync ob w # fs \<Longrightarrow> kqueues k pool mq tq \<Longrightarrow> m \<in> set (mq @ tq) \<Longrightarrow>
     ABORT m k = Inr k' \<Longrightarrow> sys_step nested (k, F) (k', F)"
| meth_return: "F (current k) = FSync ob w # fs \<Longrightarrow>
     sys_step nested (k, F) (sync_exit ob w k, F(current k := returned fs))"
| resume: "F (current k) = FWait ob w # fs \<Longrightarrow> sync_resume ob w k = (ok, k') \<Longrightarrow>
     sys_step nested (k, F) (k', F(current k := (if ok then FSync ob w # fs else returned fs)))"
| finish: "F (current k) = [FDone m] \<Longrightarrow> run_end m k = Inr k' \<Longrightarrow>
     sys_step nested (k, F) (k', F(current k := []))"
| idle: "current k = THREAD0 \<Longrightarrow> idle k = Inr k' \<Longrightarrow> sys_step nested (k, F) (k', F)"
| timer: "ENABLED k \<Longrightarrow> interrupt (vect_TIM5 now timcount) k = Inr k' \<Longrightarrow>
     sys_step nested (k, F) (k', F)"
| device: "ENABLED k \<Longrightarrow> interrupt (IRQ n now (isr_sends ms)) k = Inr k' \<Longrightarrow>
     sys_step nested (k, F) (k', F)"

text \<open>The program's \<open>INSTALL\<close> calls, made before \<open>TINYTIMBER\<close>.\<close>

fun installs :: "(nat \<times> nat \<times> int) list \<Rightarrow> kstate \<Rightarrow> kstate" where
  "installs [] k = k"
| "installs ((ob, m, i) # ins) k = installs ins (install ob m i k)"

inductive sys_reach :: "bool \<Rightarrow> kstate \<times> frames \<Rightarrow> bool" for nested where
  start: "tinytimber t0 now ob me ar (installs ins boot) = Inr k \<Longrightarrow> sys_reach nested (k, \<lambda>_. [])"
| step: "sys_reach nested s \<Longrightarrow> sys_step nested s s' \<Longrightarrow> sys_reach nested s'"

subsection \<open>The messages in flight\<close>

lemma held_by_simps [simp]:
  "held_by [] = []" "held_by (f # fs) = frame_msg f @ held_by fs"
  by (simp_all add: held_by_def)

lemma held_by_returned [simp]: "held_by (returned fs) = held_by fs"
  by (induction fs rule: returned.induct) simp_all

lemma held_by_called [simp]: "held_by (called ob r fs) = held_by fs"
  by (simp add: called_def split: sync_step.split)

lemma held_upd:
  assumes "c < NTHREADS"
  shows "mset (held (F(c := fs))) + mset (held_by (F c)) = mset (held F) + mset (held_by fs)"
proof -
  have s: "[0..<NTHREADS] = [0..<c] @ c # [Suc c..<NTHREADS]"
    using assms by (metis less_or_eq_imp_le upt_add_eq_append upt_conv_Cons le_add_diff_inverse zero_le)
  have e: "map (\<lambda>t. held_by ((F(c := fs)) t)) [0..<c] = map (\<lambda>t. held_by (F t)) [0..<c]"
    "map (\<lambda>t. held_by ((F(c := fs)) t)) [Suc c..<NTHREADS] = map (\<lambda>t. held_by (F t)) [Suc c..<NTHREADS]"
    by auto
  show ?thesis
    unfolding held_def s by (simp only: map_append list.map concat_append concat.simps e fun_upd_same
        mset_append) (simp add: ac_simps)
qed

lemma held_upd_same: "held_by fs = held_by (F c) \<Longrightarrow> held (F(c := fs)) = held F"
  by (auto simp: held_def intro!: arg_cong [where f = concat])

lemma msgs_inv_mset: "mset xs = mset ys \<Longrightarrow> msgs_inv xs k = msgs_inv ys k"
  by (simp add: msgs_inv_def)

lemma partition_set: "mset xs = ALL_MSGS \<Longrightarrow> set xs = {0..<NMSGS}"
  by (metis ALL_MSGS_def set_mset_mset set_upt)

text \<open>What the interrupts and the calls of \<open>sync\<close> do to the message blocks.\<close>

lemma isr_sends_msgs: "msgs_inv xs k \<Longrightarrow> isr_sends ms k = Inr k' \<Longrightarrow> msgs_inv xs k'"
proof (induction ms k arbitrary: k' rule: isr_sends.induct)
  case (2 now bl dl ob me ar ms k)
  from 2(3) obtain m k1 where a: "async now bl dl ob me ar k = Inr (m, k1)"
      "isr_sends ms (k1\<lparr>doIRQSchedule := True\<rparr>) = Inr k'" by auto
  have "msgs_inv xs (k1\<lparr>doIRQSchedule := True\<rparr>)"
    using async_msgs [OF 2(2) a(1)] msgs_inv_cong [of "k1\<lparr>doIRQSchedule := True\<rparr>" k1] by simp
  from 2(1) [OF this a(2)] show ?case .
qed simp

lemma IRQ_msgs:
  assumes "msgs_inv xs k" and "IRQ n now (isr_sends ms) k = Inr k'"
  shows "msgs_inv xs k'"
proof -
  let ?k1 = "k\<lparr>timestamp := now, runAsHardware := True, doIRQSchedule := False\<rparr>"
  from assms(2) obtain k2 k4 where s: "(if mtable k n \<noteq> None then isr_sends ms ?k1 else Inr ?k1) = Inr k2"
    "(if doIRQSchedule k2 then schedule (k2\<lparr>runAsHardware := False\<rparr>) else Inr (k2\<lparr>runAsHardware := False\<rparr>)) = Inr k4"
    "k' = k4\<lparr>doIRQSchedule := False\<rparr>"
    by (auto simp: IRQ_def Let_def simp del: isr_sends.simps)
  have "msgs_inv xs ?k1" using assms(1) msgs_inv_cong [of ?k1 k] by simp
  with s(1) have "msgs_inv xs k2" by (auto split: if_splits intro: isr_sends_msgs)
  then have k3: "msgs_inv xs (k2\<lparr>runAsHardware := False\<rparr>)"
    using msgs_inv_cong [of "k2\<lparr>runAsHardware := False\<rparr>" k2] by simp
  with s(2) have "msgs_inv xs k4" by (auto split: if_splits simp: schedule_msgs_inv)
  then show ?thesis using s(3) msgs_inv_cong [of k' k4] by simp
qed

lemma isr_exit_frame:
  assumes "isr_exit k = Inr k'"
  shows "kmem k' = kmem k" "msgPool k' = msgPool k" "msgQ k' = msgQ k" "timerQ k' = timerQ k"
    "kthr k' = kthr k" "kobj k' = kobj k" "threadPool k' = threadPool k" "activeStack k' = activeStack k"
    "khandler k' = False" "kprot k' = kprot k"
  using assms by (auto simp: isr_exit_def split: if_splits)

lemma interrupt_msgs:
  assumes "msgs_inv xs k" and "interrupt h k = Inr k'"
    and "\<And>k1 k2. msgs_inv xs k1 \<Longrightarrow> h k1 = Inr k2 \<Longrightarrow> msgs_inv xs k2"
  shows "msgs_inv xs k'"
proof -
  from assms(2) obtain k1 where k1: "h (k\<lparr>khandler := True\<rparr>) = Inr k1" "isr_exit k1 = Inr k'"
    by (auto simp: interrupt_def)
  have "msgs_inv xs (k\<lparr>khandler := True\<rparr>)"
    using assms(1) msgs_inv_cong [of "k\<lparr>khandler := True\<rparr>" k] by simp
  from assms(3) [OF this k1(1)] show ?thesis
    using msgs_inv_cong [of k' k1] isr_exit_frame [OF k1(2)] by simp
qed

lemma sync_want_frame:
  assumes "sync_want ob k = Inr k'"
  shows "kmem k' = kmem k" "msgPool k' = msgPool k" "msgQ k' = msgQ k" "timerQ k' = timerQ k"
  by (simp_all add: sync_want_eq [OF assms] split: wanted.split)

lemma sync_lock_frame [simp]:
  "kmem (sync_lock ob w k) = kmem k" "msgPool (sync_lock ob w k) = msgPool k"
  "msgQ (sync_lock ob w k) = msgQ k" "timerQ (sync_lock ob w k) = timerQ k"
  "kthr (sync_lock ob w k) = kthr k" "current (sync_lock ob w k) = current k"
  "activeStack (sync_lock ob w k) = activeStack k" "threadPool (sync_lock ob w k) = threadPool k"
  "khandler (sync_lock ob w k) = khandler k"
  by (simp_all add: sync_lock_def Let_def)

lemma sync_enter_frame:
  assumes "sync_enter ob k = Inr (r, k')"
  shows "kmem k' = kmem k" "msgPool k' = msgPool k" "msgQ k' = msgQ k" "timerQ k' = timerQ k"
  using assms
  by (auto simp: sync_enter_def Let_def sync_want_frame simp del: chase.simps split: option.splits if_splits)

lemma sync_exit_frame [simp]:
  "kmem (sync_exit ob w k) = kmem k" "msgPool (sync_exit ob w k) = msgPool k"
  "msgQ (sync_exit ob w k) = msgQ k" "timerQ (sync_exit ob w k) = timerQ k"
  "activeStack (sync_exit ob w k) = activeStack k" "threadPool (sync_exit ob w k) = threadPool k"
  by (simp_all add: sync_exit_def Let_def split: wanted.split)

lemma sync_resume_frame:
  assumes "sync_resume ob w k = (ok, k')"
  shows "kmem k' = kmem k" "msgPool k' = msgPool k" "msgQ k' = msgQ k" "timerQ k' = timerQ k"
    "kthr k' = kthr k" "current k' = current k" "activeStack k' = activeStack k" "threadPool k' = threadPool k"
    "khandler k' = khandler k"
  using assms by (auto simp: sync_resume_def split: if_splits)

subsection \<open>Conservation of message blocks in every execution\<close>

lemma chain_counting:
  assumes "\<And>j. j < n - 1 \<Longrightarrow> nx j = Some (j + 1)" and "nx (n - 1) = None" and "i \<le> n"
  shows "chain nx (if i < n then Some i else None) [i..<n]"
  using assms(3)
proof (induction "n - i" arbitrary: i)
  case 0
  then show ?case by simp
next
  case (Suc d)
  then have "i < n" by simp
  moreover have "nx i = (if Suc i < n then Some (Suc i) else None)"
    using assms(1) [of i] assms(2) \<open>i < n\<close> by (cases "n = Suc i") auto
  moreover have "chain nx (if Suc i < n then Some (Suc i) else None) [Suc i..<n]"
    using Suc.hyps(2) \<open>i < n\<close> by (intro Suc.hyps(1)) simp_all
  ultimately show ?case by (simp add: upt_conv_Cons)
qed

lemma initialize_msgs:
  assumes "msgPool k = Some 0" and "msgQ k = None" and "timerQ k = None"
  shows "msgs_inv [] (initialize k)"
proof -
  have "mlist (init_messages h) (if 0 < NMSGS then Some 0 else None) [0..<NMSGS]" for h
    by (rule chain_counting) (simp_all add: init_messages_def NMSGS_def)
  then have "mlist (kmem (initialize k)) (msgPool (initialize k)) [0..<NMSGS]"
    using assms by (simp add: initialize_def NMSGS_def)
  then show ?thesis
    using assms by (intro msgs_invI [of _ "[0..<NMSGS]" "[]" "[]"]) (simp_all add: initialize_def ALL_MSGS_def)
qed

lemma install_frame [simp]:
  "kmem (install ob m i k) = kmem k" "msgPool (install ob m i k) = msgPool k"
  "msgQ (install ob m i k) = msgQ k" "timerQ (install ob m i k) = timerQ k" "kthr (install ob m i k) = kthr k"
  "threadPool (install ob m i k) = threadPool k" "activeStack (install ob m i k) = activeStack k"
  "current (install ob m i k) = current k" "khandler (install ob m i k) = khandler k"
  "kpendsv (install ob m i k) = kpendsv k"
  "ownedBy (kobj (install ob m i k) x) = ownedBy (kobj k x)"
  by (simp_all add: install_def Let_def ENABLE_def DISABLE_def upd_obj_def)

lemma installs_frame [simp]:
  "kmem (installs ins k) = kmem k" "msgPool (installs ins k) = msgPool k"
  "msgQ (installs ins k) = msgQ k" "timerQ (installs ins k) = timerQ k" "kthr (installs ins k) = kthr k"
  "threadPool (installs ins k) = threadPool k" "activeStack (installs ins k) = activeStack k"
  "current (installs ins k) = current k" "khandler (installs ins k) = khandler k"
  "kpendsv (installs ins k) = kpendsv k"
  "ownedBy (kobj (installs ins k) x) = ownedBy (kobj k x)"
  by (induction ins k rule: installs.induct) simp_all

lemma tinytimber_msgs:
  assumes "tinytimber t0 now ob me ar (installs ins boot) = Inr k"
  shows "msgs_inv [] k"
proof -
  let ?k1 = "initialize (DISABLE (installs ins boot))"
  let ?k2 = "?k1\<lparr>timestamp := t0, runAsHardware := True\<rparr>"
  have i: "msgs_inv [] ?k1" by (rule initialize_msgs) (simp_all add: boot_def)
  then have i2: "msgs_inv [] ?k2" using msgs_inv_cong [of ?k2 ?k1] by simp
  show ?thesis
  proof (cases me)
    case None
    with assms i show ?thesis by (simp add: tinytimber_def)
  next
    case (Some m)
    with assms obtain r k3 where k3: "async now 0 0 ob m ar ?k2 = Inr (r, k3)"
      "schedule (k3\<lparr>runAsHardware := False\<rparr>) = Inr k" by (auto simp: tinytimber_def Let_def)
    have "msgs_inv [] (k3\<lparr>runAsHardware := False\<rparr>)"
      using async_msgs [OF i2 k3(1)] msgs_inv_cong [of "k3\<lparr>runAsHardware := False\<rparr>" k3] by simp
    with k3(2) show ?thesis by (simp add: schedule_msgs_inv)
  qed
qed

definition sys_msgs :: "kstate \<times> frames \<Rightarrow> bool" where
  "sys_msgs s \<longleftrightarrow> msgs_inv (held (snd s)) (fst s) \<and> (\<forall>t \<ge> NTHREADS. snd s t = [])"

lemma sys_msgsI:
  "msgs_inv (held F) k \<Longrightarrow> (\<And>t. NTHREADS \<le> t \<Longrightarrow> F t = []) \<Longrightarrow> sys_msgs (k, F)"
  by (simp add: sys_msgs_def)

text \<open>A step that only moves frames without messages, and leaves the queues alone.\<close>

lemma sys_msgs_quiet:
  assumes "sys_msgs (k, F)" and "kmem k' = kmem k" "msgPool k' = msgPool k" "msgQ k' = msgQ k" "timerQ k' = timerQ k"
    and "held_by fs = held_by (F (current k))" and "F (current k) \<noteq> []"
  shows "sys_msgs (k', F(current k := fs))"
  using assms msgs_inv_cong [of k' k] by (auto simp: sys_msgs_def held_upd_same)

lemma sys_step_msgs:
  assumes "sys_step nested s s'" and "sys_msgs s"
  shows "sys_msgs s'"
  using assms
proof (induction rule: sys_step.induct)
  case (take F k m k')
  have i: "msgs_inv (m # held F) k'"
    using run_begin_msgs(1) [OF _ take(3)] take(4) by (simp add: sys_msgs_def)
  have "mset (held (F(current k := [FDeq m]))) = mset (m # held F)"
    using held_upd [OF take(2), of F "[FDeq m]"] take(1) by simp
  then have "msgs_inv (held (F(current k := [FDeq m]))) k'" using i msgs_inv_mset by blast
  with take(2,4) show ?case by (intro sys_msgsI) (auto simp: sys_msgs_def)
next
  case (run_sync F k m r k')
  show ?case by (rule sys_msgs_quiet [OF run_sync(3) sync_enter_frame [OF run_sync(2)]])
      (simp_all add: run_sync(1))
next
  case (meth_sync F k ob w fs ob' r k')
  show ?case by (rule sys_msgs_quiet [OF meth_sync(4) sync_enter_frame [OF meth_sync(3)]])
      (simp_all add: meth_sync(2))
next
  case (meth_async F k ob w fs now bl dl ob' me ar m k')
  then show ?case using async_msgs by (fastforce simp: sys_msgs_def)
next
  case (meth_abort F k ob w fs pool mq tq m k')
  have i: "msgs_inv (held F) k" using meth_abort(5) by (simp add: sys_msgs_def)
  then obtain pl mq' tq' where q: "kqueues k pl mq' tq'" "mset (pl @ mq' @ tq' @ held F) = ALL_MSGS"
    by (auto simp: msgs_inv_def)
  then have "mq' = mq" "tq' = tq" using meth_abort(2) by (auto simp: kqueues_def dest: chain_unique)
  then have "m < NMSGS" using partition_set [OF q(2)] meth_abort(3) by auto
  moreover have "\<exists>pool mq tq. kqueues k pool mq tq \<and> m \<in> set (mq @ tq)" using meth_abort(2,3) by blast
  ultimately have "msgs_inv (held F) k'" using ABORT_msgs [OF i, of m] meth_abort(4) by auto
  then show ?case using meth_abort(5) by (simp add: sys_msgs_def)
next
  case (meth_return F k ob w fs)
  show ?case by (rule sys_msgs_quiet [OF meth_return(2)]) (simp_all add: meth_return(1))
next
  case (resume F k ob w fs ok k')
  show ?case by (rule sys_msgs_quiet [OF resume(3) sync_resume_frame(1-4) [OF resume(2)]])
      (simp_all add: resume(1))
next
  case (finish F k m k')
  have c: "current k < NTHREADS" using finish(1,3) by (cases "NTHREADS \<le> current k") (auto simp: sys_msgs_def)
  have h: "mset (held F) = add_mset m (mset (held (F(current k := []))))"
    using held_upd [OF c, of F "[]"] finish(1) by simp
  then have m: "m \<in> set (held F)" by (metis set_mset_mset union_single_eq_member)
  have "msgs_inv (remove1 m (held F)) k'"
    using run_end_msgs [OF _ m finish(2)] finish(3) by (simp add: sys_msgs_def)
  moreover have "mset (held (F(current k := []))) = mset (remove1 m (held F))" using h by simp
  ultimately have "msgs_inv (held (F(current k := []))) k'" using msgs_inv_mset by blast
  with finish(3) c show ?case by (intro sys_msgsI) (auto simp: sys_msgs_def)
next
  case (idle k k' F)
  from idle(2) obtain k1 where k1: "schedule k = Inr k1" "k' = ENABLE True k1" by (auto simp: idle_def)
  have "msgs_inv (held F) k1" using schedule_msgs_inv [OF k1(1)] idle(3) by (simp add: sys_msgs_def)
  then have "msgs_inv (held F) k'" using msgs_inv_cong [of k' k1] k1(2) by simp
  with idle(3) show ?case by (simp add: sys_msgs_def)
next
  case (timer k now timcount k' F)
  have "msgs_inv (held F) k'"
    by (rule interrupt_msgs [OF _ timer(2)]) (use timer(3) in \<open>simp add: sys_msgs_def\<close>, rule vect_TIM5_msgs)
  with timer(3) show ?case by (simp add: sys_msgs_def)
next
  case (device k n now ms k' F)
  have "msgs_inv (held F) k'"
    by (rule interrupt_msgs [OF _ device(2)]) (use device(3) in \<open>simp add: sys_msgs_def\<close>, rule IRQ_msgs)
  with device(3) show ?case by (simp add: sys_msgs_def)
qed

lemma sys_reach_msgs: "sys_reach nested s \<Longrightarrow> sys_msgs s"
proof (induction rule: sys_reach.induct)
  case (start t0 now ob me ar ins k)
  have "held (\<lambda>_. []) = []" by (auto simp: held_def concat_eq_Nil_conv)
  with tinytimber_msgs [OF start] show ?case by (simp add: sys_msgs_def)
next
  case (step s s')
  then show ?case by (blast intro: sys_step_msgs)
qed

end
