(* ===== verification/TT_Exclusion.thy ===== *)
theory TT_Exclusion
  imports TT_System
begin

section \<open>TinyTimber: mutual exclusion when synchronous calls are not nested\<close>

text \<open>
  Programs whose methods do not call \<open>SYNC\<close> themselves (every method runs because \<open>run\<close> calls
  \<open>SYNC\<close> for its message) keep a strong invariant: an object is owned exactly by the thread that
  executes one of its methods, a waiting thread lies above the owner on the active stack, a waiter
  whose place was taken by a newer one finds the object free when it is switched to, and the
  running thread is the top of the stack or the owner of what the top waits for. It is stated over
  the plain functions that the lock fields of the kernel are, and carried to the kernel's steps at
  the end.
\<close>

subsection \<open>The order of the active stack\<close>

fun above :: "nat list \<Rightarrow> nat \<Rightarrow> nat \<Rightarrow> bool" where
  "above [] x y = False"
| "above (s # ss) x y = ((x = s \<and> y \<in> set ss) \<or> above ss x y)"

definition stack_top :: "nat list \<Rightarrow> nat" where "stack_top st = hd (st @ [THREAD0])"

lemma top_simps [simp]: "stack_top [] = THREAD0" "stack_top (s # ss) = s"
  by (simp_all add: stack_top_def)

lemma above_mem: "above st x y \<Longrightarrow> x \<in> set st \<and> y \<in> set st"
  by (induction st) auto

lemma above_neq: "distinct st \<Longrightarrow> above st x y \<Longrightarrow> x \<noteq> y"
  by (induction st) (auto dest: above_mem)

lemma above_top: "distinct st \<Longrightarrow> \<not> above st x (stack_top st)"
  by (cases st) (auto dest: above_mem)

lemma top_above: "y \<in> set st \<Longrightarrow> y \<noteq> stack_top st \<Longrightarrow> above st (stack_top st) y"
  by (cases st) auto

subsection \<open>The invariant\<close>

fun plain_frames :: "frame list \<Rightarrow> bool" where
  "plain_frames [] = True"
| "plain_frames [FDeq m] = True"
| "plain_frames [FDone m] = True"
| "plain_frames [FSync ob w, FRun m] = True"
| "plain_frames [FWait ob w, FRun m] = True"
| "plain_frames _ = False"

definition user :: "frames \<Rightarrow> nat \<Rightarrow> nat \<Rightarrow> bool" where
  "user F t ob \<longleftrightarrow> (\<exists>w m. F t = [FSync ob w, FRun m])"

definition waiter :: "frames \<Rightarrow> nat \<Rightarrow> nat \<Rightarrow> bool" where
  "waiter F t ob \<longleftrightarrow> (\<exists>w m. F t = [FWait ob w, FRun m])"

definition locks_ok :: "frames \<Rightarrow> nat list \<Rightarrow> nat \<Rightarrow> (nat \<Rightarrow> nat option) \<Rightarrow> (nat \<Rightarrow> nat option)
    \<Rightarrow> (nat \<Rightarrow> wanted) \<Rightarrow> bool" where
  "locks_ok F st c wt own want \<longleftrightarrow>
     distinct st \<and> THREAD0 \<notin> set st
   \<and> (\<forall>t. t \<notin> set st \<longrightarrow> F t = []) \<and> (\<forall>t. plain_frames (F t))
   \<and> (\<forall>t ob. wt t = Some ob \<longleftrightarrow> want ob = WThread t)
   \<and> (\<forall>t ob. own ob = Some t \<longleftrightarrow> user F t ob)
   \<and> (\<forall>t ob. wt t = Some ob \<longrightarrow> waiter F t ob \<and> (\<exists>u. own ob = Some u \<and> above st t u))
   \<and> (\<forall>p ob. waiter F p ob \<and> wt p = None \<longrightarrow> own ob = None
        \<or> (\<exists>u. own ob = Some u \<and> (above st u p \<or> (\<exists>q. wt q = Some ob \<and> above st q p))))
   \<and> (c = stack_top st \<and> wt c = None \<or> (\<exists>ob. wt (stack_top st) = Some ob \<and> own ob = Some c))"

lemma locks_okD:
  assumes "locks_ok F st c wt own want"
  shows "distinct st" "THREAD0 \<notin> set st" "t \<notin> set st \<Longrightarrow> F t = []" "plain_frames (F t)"
    "wt t = Some ob \<longleftrightarrow> want ob = WThread t" "own ob = Some t \<longleftrightarrow> user F t ob"
    "wt t = Some ob \<Longrightarrow> waiter F t ob" "wt t = Some ob \<Longrightarrow> \<exists>u. own ob = Some u \<and> above st t u"
    "waiter F t ob \<Longrightarrow> wt t = None \<Longrightarrow> own ob = None
        \<or> (\<exists>u. own ob = Some u \<and> (above st u t \<or> (\<exists>q. wt q = Some ob \<and> above st q t)))"
    "c = stack_top st \<and> wt c = None \<or> (\<exists>ob. wt (stack_top st) = Some ob \<and> own ob = Some c)"
  using assms unfolding locks_ok_def by blast+

lemma locks_okI:
  assumes "distinct st" "THREAD0 \<notin> set st" "\<And>t. t \<notin> set st \<Longrightarrow> F t = []" "\<And>t. plain_frames (F t)"
    "\<And>t ob. wt t = Some ob \<longleftrightarrow> want ob = WThread t" "\<And>t ob. own ob = Some t \<longleftrightarrow> user F t ob"
    "\<And>t ob. wt t = Some ob \<Longrightarrow> waiter F t ob \<and> (\<exists>u. own ob = Some u \<and> above st t u)"
    "\<And>t ob. waiter F t ob \<Longrightarrow> wt t = None \<Longrightarrow> own ob = None
        \<or> (\<exists>u. own ob = Some u \<and> (above st u t \<or> (\<exists>q. wt q = Some ob \<and> above st q t)))"
    "c = stack_top st \<and> wt c = None \<or> (\<exists>ob. wt (stack_top st) = Some ob \<and> own ob = Some c)"
  shows "locks_ok F st c wt own want"
  using assms unfolding locks_ok_def by blast

lemma in_stack: "locks_ok F st c wt own want \<Longrightarrow> F t \<noteq> [] \<Longrightarrow> t \<in> set st"
  using locks_okD(3) by blast

lemma user_upd: "user (F(c := fs)) t ob \<longleftrightarrow> (if t = c then (\<exists>w m. fs = [FSync ob w, FRun m]) else user F t ob)"
  by (simp add: user_def)

lemma waiter_upd: "waiter (F(c := fs)) t ob \<longleftrightarrow> (if t = c then (\<exists>w m. fs = [FWait ob w, FRun m]) else waiter F t ob)"
  by (simp add: waiter_def)

lemma user_waiter: "user F t ob \<Longrightarrow> \<not> waiter F t ob'"
  by (auto simp: user_def waiter_def)

lemma user_unique: "user F t ob \<Longrightarrow> user F t ob' \<Longrightarrow> ob = ob'"
  by (auto simp: user_def)

lemma user_leave:
  assumes own: "\<And>x t. own x = Some t \<longleftrightarrow> user F t x" and u: "user F c ob"
    and fs: "\<And>x w m. fs \<noteq> [FSync x w, FRun m]"
  shows "(own(ob := None)) x = Some t \<longleftrightarrow> user (F(c := fs)) t x"
proof (cases "t = c")
  case True
  have "own x = Some c \<Longrightarrow> x = ob" using own u user_unique by blast
  with True fs show ?thesis by (cases "x = ob") (auto simp: user_upd)
next
  case False
  have "\<not> user F t ob" using own [of ob c] own [of ob t] u False by simp
  with False own [of x t] show ?thesis by (cases "x = ob") (simp_all add: user_upd)
qed

text \<open>The running thread does not wait; outside a method it is the top of the stack.\<close>

lemma running_not_waiting:
  assumes "locks_ok F st c wt own want"
  shows "wt c = None"
proof (rule ccontr)
  assume "wt c \<noteq> None"
  then obtain ob where w: "wt c = Some ob" by blast
  with locks_okD(10) [OF assms] obtain ob' where "own ob' = Some c" by auto
  with locks_okD(6,7) [OF assms] w user_waiter show False by blast
qed

lemma running_top:
  assumes "locks_ok F st c wt own want" and "\<And>ob. \<not> user F c ob"
  shows "c = stack_top st"
  using locks_okD(6,10) [OF assms(1)] assms(2) by blast

lemma running_mem:
  assumes "locks_ok F st c wt own want" and "c \<noteq> THREAD0"
  shows "c \<in> set st"
proof (cases "\<exists>ob. user F c ob")
  case True
  then show ?thesis using in_stack [OF assms(1), of c] by (auto simp: user_def)
next
  case False
  with running_top [OF assms(1)] assms(2) show ?thesis by (cases st) auto
qed

subsection \<open>What each kind of step does to it\<close>

text \<open>A thread on top of the stack, outside every method, that moves between frames without locks.\<close>

lemma lk_quiet:
  assumes inv: "locks_ok F st c wt own want" and c: "c \<noteq> THREAD0" and nu: "\<And>ob. \<not> user F c ob"
    and fs: "plain_frames fs" "\<And>ob w m. fs \<noteq> [FSync ob w, FRun m]" "\<And>ob w m. fs \<noteq> [FWait ob w, FRun m]"
  shows "locks_ok (F(c := fs)) st c wt own want"
proof -
  note D = locks_okD [OF inv]
  have nw: "wt c = None" by (rule running_not_waiting [OF inv])
  have u: "user (F(c := fs)) t ob = user F t ob" for t ob using fs(2) nu by (simp add: user_upd)
  show ?thesis
  proof (rule locks_okI)
    show "distinct st" "THREAD0 \<notin> set st" by (rule D)+
    show "(F(c := fs)) t = []" if "t \<notin> set st" for t
      using that D(3) running_mem [OF inv c] by auto
    show "plain_frames ((F(c := fs)) t)" for t using D(4) fs(1) by simp
    show "wt t = Some ob \<longleftrightarrow> want ob = WThread t" for t ob by (rule D)
    show "own ob = Some t \<longleftrightarrow> user (F(c := fs)) t ob" for t ob unfolding u by (rule D)
    show "waiter (F(c := fs)) t ob \<and> (\<exists>u. own ob = Some u \<and> above st t u)" if "wt t = Some ob" for t ob
      using D(7,8) [OF that] that nw by (auto simp: waiter_upd)
    show "own ob = None \<or> (\<exists>u. own ob = Some u \<and> (above st u t \<or> (\<exists>q. wt q = Some ob \<and> above st q t)))"
      if "waiter (F(c := fs)) t ob" "wt t = None" for t ob
      using that D(9) [of t ob] fs(3) by (simp add: waiter_upd split: if_splits)
    show "c = stack_top st \<and> wt c = None \<or> (\<exists>ob. wt (stack_top st) = Some ob \<and> own ob = Some c)" by (rule D)
  qed
qed

lemma lk_acquire:
  assumes inv: "locks_ok F st c wt own want" and c: "c \<noteq> THREAD0" and nu: "\<And>ob. \<not> user F c ob"
    and free: "own ob = None"
  shows "locks_ok (F(c := [FSync ob w, FRun m])) st c wt (own(ob := Some c)) want"
proof -
  note D = locks_okD [OF inv]
  have nw: "wt c = None" by (rule running_not_waiting [OF inv])
  have top: "c = stack_top st" by (rule running_top [OF inv nu])
  have nowait: "wt t \<noteq> Some ob" for t using D(8) [of t ob] free by auto
  show ?thesis
  proof (rule locks_okI)
    show "distinct st" "THREAD0 \<notin> set st" by (rule D)+
    show "(F(c := [FSync ob w, FRun m])) t = []" if "t \<notin> set st" for t
      using that D(3) running_mem [OF inv c] by auto
    show "plain_frames ((F(c := [FSync ob w, FRun m])) t)" for t using D(4) by simp
    show "wt t = Some x \<longleftrightarrow> want x = WThread t" for t x by (rule D)
    show "(own(ob := Some c)) x = Some t \<longleftrightarrow> user (F(c := [FSync ob w, FRun m])) t x" for t x
      using D(6) [of x t] nu [of x] free by (auto simp: user_upd)
    show "waiter (F(c := [FSync ob w, FRun m])) t x \<and> (\<exists>u. (own(ob := Some c)) x = Some u \<and> above st t u)"
      if "wt t = Some x" for t x
      using D(7,8) [OF that] that nw nowait by (auto simp: waiter_upd)
    show "(own(ob := Some c)) x = None \<or> (\<exists>u. (own(ob := Some c)) x = Some u
        \<and> (above st u t \<or> (\<exists>q. wt q = Some x \<and> above st q t)))"
      if "waiter (F(c := [FSync ob w, FRun m])) t x" "wt t = None" for t x
    proof -
      have t: "waiter F t x" "t \<noteq> c" using that by (auto simp: waiter_upd split: if_splits)
      then have "t \<in> set st" using in_stack [OF inv, of t] by (auto simp: waiter_def)
      then have "above st c t" using t(2) top top_above by metis
      then show ?thesis using D(9) [OF t(1) that(2)] by auto
    qed
    show "c = stack_top st \<and> wt c = None \<or> (\<exists>x. wt (stack_top st) = Some x \<and> (own(ob := Some c)) x = Some c)"
      using top nw by simp
  qed
qed

lemma lk_block:
  assumes inv: "locks_ok F st c wt own want" and c: "c \<noteq> THREAD0" and nu: "\<And>ob. \<not> user F c ob"
    and taken: "own ob = Some u" and wt': "\<And>t. wt' t = (if t = c then Some ob else if wt t = Some ob then None else wt t)"
  shows "locks_ok (F(c := [FWait ob w, FRun m])) st u wt' own (want(ob := WThread c))"
proof -
  note D = locks_okD [OF inv]
  have nw: "wt c = None" by (rule running_not_waiting [OF inv])
  have top: "c = stack_top st" by (rule running_top [OF inv nu])
  have wc: "want x \<noteq> WThread c" for x using D(5) [of c x] nw by simp
  have uc: "user F u ob" "u \<noteq> c" using D(6) taken nu by auto
  then have u: "u \<in> set st" using in_stack [OF inv, of u] by (auto simp: user_def)
  have cu: "above st c u" using u uc(2) top top_above by metis
  show ?thesis
  proof (rule locks_okI)
    show "distinct st" "THREAD0 \<notin> set st" by (rule D)+
    show "(F(c := [FWait ob w, FRun m])) t = []" if "t \<notin> set st" for t
      using that D(3) running_mem [OF inv c] by auto
    show "plain_frames ((F(c := [FWait ob w, FRun m])) t)" for t using D(4) by simp
    show "wt' t = Some x \<longleftrightarrow> (want(ob := WThread c)) x = WThread t" for t x
      using D(5) [of t x] wc [of x] by (auto simp: wt')
    show "own x = Some t \<longleftrightarrow> user (F(c := [FWait ob w, FRun m])) t x" for t x
      using D(6) [of x t] nu [of x] by (auto simp: user_upd)
    show "waiter (F(c := [FWait ob w, FRun m])) t x \<and> (\<exists>u. own x = Some u \<and> above st t u)"
      if "wt' t = Some x" for t x
      using that D(7,8) [of t x] taken cu by (auto simp: waiter_upd wt' split: if_splits)
    show "own x = None \<or> (\<exists>u. own x = Some u \<and> (above st u t \<or> (\<exists>q. wt' q = Some x \<and> above st q t)))"
      if "waiter (F(c := [FWait ob w, FRun m])) t x" "wt' t = None" for t x
    proof -
      have t: "waiter F t x" "t \<noteq> c" using that by (auto simp: waiter_upd wt' split: if_splits)
      then have "t \<in> set st" using in_stack [OF inv, of t] by (auto simp: waiter_def)
      then have ct: "above st c t" using t(2) top top_above by metis
      show ?thesis
      proof (cases "x = ob")
        case True
        with ct taken show ?thesis by (auto simp: wt')
      next
        case False
        then have "wt t = None" using that(2) t D(7) [of t ob]
          by (auto simp: wt' waiter_def split: if_splits)
        moreover have "wt' q = Some x" if "wt q = Some x" for q using that False nw by (auto simp: wt')
        ultimately show ?thesis using D(9) [OF t(1)] by blast
      qed
    qed
    show "u = stack_top st \<and> wt' u = None \<or> (\<exists>x. wt' (stack_top st) = Some x \<and> own x = Some u)"
      using top taken by (simp add: wt')
  qed
qed

text \<open>Leaving a method that nobody waits for, and handing the object over.\<close>

lemma lk_exit_quiet:
  assumes inv: "locks_ok F st c wt own want" and u: "user F c ob" and nw: "\<And>t. want ob \<noteq> WThread t"
  shows "locks_ok (F(c := [FDone m])) st c wt (own(ob := None)) want"
proof -
  note D = locks_okD [OF inv]
  have nowait: "wt t \<noteq> Some ob" for t using D(5) [of t ob] nw by simp
  have own: "own ob = Some c" using D(6) u by simp
  have wc: "wt c = None" by (rule running_not_waiting [OF inv])
  have only: "own x = Some c \<Longrightarrow> x = ob" for x using D(6) u user_unique by blast
  show ?thesis
  proof (rule locks_okI)
    show "distinct st" "THREAD0 \<notin> set st" by (rule D)+
    show "(F(c := [FDone m])) t = []" if "t \<notin> set st" for t
      using that D(3) u by (auto simp: user_def)
    show "plain_frames ((F(c := [FDone m])) t)" for t using D(4) by simp
    show "wt t = Some x \<longleftrightarrow> want x = WThread t" for t x by (rule D)
    show "(own(ob := None)) x = Some t \<longleftrightarrow> user (F(c := [FDone m])) t x" for t x
      by (rule user_leave [OF D(6) u]) simp
    show "waiter (F(c := [FDone m])) t x \<and> (\<exists>u. (own(ob := None)) x = Some u \<and> above st t u)"
      if "wt t = Some x" for t x
      using D(7,8) [OF that] that wc nowait by (auto simp: waiter_upd)
    show "(own(ob := None)) x = None \<or> (\<exists>u. (own(ob := None)) x = Some u
        \<and> (above st u t \<or> (\<exists>q. wt q = Some x \<and> above st q t)))"
      if "waiter (F(c := [FDone m])) t x" "wt t = None" for t x
      using that D(9) [of t x] by (auto simp: waiter_upd split: if_splits)
    show "c = stack_top st \<and> wt c = None \<or> (\<exists>x. wt (stack_top st) = Some x \<and> (own(ob := None)) x = Some c)"
      using D(10) only nowait wc by auto
  qed
qed

lemma lk_exit_handover:
  assumes inv: "locks_ok F st c wt own want" and u: "user F c ob" and want: "want ob = WThread t0"
    and wt': "\<And>t. wt' t = (if t = t0 then None else wt t)"
  shows "locks_ok (F(c := [FDone m])) st t0 wt' (own(ob := None)) (want(ob := WNull))"
proof -
  note D = locks_okD [OF inv]
  have w0: "wt t0 = Some ob" using D(5) want by simp
  have own: "own ob = Some c" using D(6) u by simp
  have above: "above st t0 c" using D(8) [OF w0] own by simp
  have only: "own x = Some c \<Longrightarrow> x = ob" for x using D(6) u user_unique by blast
  have "c \<noteq> stack_top st" using above above_top [OF D(1)] by metis
  then obtain x where "wt (stack_top st) = Some x" "own x = Some c" using D(10) by blast
  then have top: "t0 = stack_top st" using only D(5) [of "stack_top st" ob] want by auto
  show ?thesis
  proof (rule locks_okI)
    show "distinct st" "THREAD0 \<notin> set st" by (rule D)+
    show "(F(c := [FDone m])) t = []" if "t \<notin> set st" for t
      using that D(3) u by (auto simp: user_def)
    show "plain_frames ((F(c := [FDone m])) t)" for t using D(4) by simp
    show "wt' t = Some x \<longleftrightarrow> (want(ob := WNull)) x = WThread t" for t x
      using D(5) [of t x] D(5) [of t0 x] w0 want by (auto simp: wt')
    show "(own(ob := None)) x = Some t \<longleftrightarrow> user (F(c := [FDone m])) t x" for t x
      by (rule user_leave [OF D(6) u]) simp
    show "waiter (F(c := [FDone m])) t x \<and> (\<exists>u. (own(ob := None)) x = Some u \<and> above st t u)"
      if "wt' t = Some x" for t x
    proof -
      have t: "wt t = Some x" "t \<noteq> t0" using that by (simp_all add: wt' split: if_splits)
      then have "x \<noteq> ob" using D(5) [of t ob] want by auto
      moreover have "t \<noteq> c" using running_not_waiting [OF inv] t(1) by auto
      ultimately show ?thesis using D(7,8) [OF t(1)] by (auto simp: waiter_upd)
    qed
    show "(own(ob := None)) x = None \<or> (\<exists>u. (own(ob := None)) x = Some u
        \<and> (above st u t \<or> (\<exists>q. wt' q = Some x \<and> above st q t)))"
      if "waiter (F(c := [FDone m])) t x" "wt' t = None" for t x
    proof (cases "x = ob")
      case False
      have t: "waiter F t x" using that(1) by (simp add: waiter_upd split: if_splits)
      moreover have "t \<noteq> t0" using t D(7) [OF w0] False by (auto simp: waiter_def)
      ultimately have "wt t = None" using that(2) by (simp add: wt')
      moreover have "wt' q = Some x" if "wt q = Some x" for q using that False w0 by (auto simp: wt')
      ultimately show ?thesis using D(9) [OF t] False by (simp only: fun_upd_apply if_False) blast
    qed simp
    show "t0 = stack_top st \<and> wt' t0 = None \<or> (\<exists>x. wt' (stack_top st) = Some x \<and> (own(ob := None)) x = Some t0)"
      using top by (simp add: wt')
  qed
qed

text \<open>A waiter that is switched to finds its object free.\<close>

lemma lk_resume_free:
  assumes inv: "locks_ok F st c wt own want" and w: "waiter F c ob"
  shows "own ob = None" and "\<not> user F c x"
proof -
  show nu: "\<not> user F c x" for x using w user_waiter by blast
  have top: "c = stack_top st" by (rule running_top [OF inv nu])
  show "own ob = None"
    using locks_okD(9) [OF inv w running_not_waiting [OF inv]] above_top [OF locks_okD(1) [OF inv]] top
    by auto
qed

lemma lk_push:
  assumes inv: "locks_ok F st c wt own want" and n: "n \<notin> set st" "n \<noteq> THREAD0"
  shows "locks_ok F (n # st) n wt own want"
proof -
  note D = locks_okD [OF inv]
  have "wt n = None"
    using D(3) [OF n(1)] D(7) [of n] by (cases "wt n") (auto simp: waiter_def)
  show ?thesis
  proof (rule locks_okI)
    show "distinct (n # st)" "THREAD0 \<notin> set (n # st)" using D(1,2) n by simp_all
    show "F t = []" if "t \<notin> set (n # st)" for t using that D(3) by simp
    show "waiter F t x \<and> (\<exists>u. own x = Some u \<and> above (n # st) t u)" if "wt t = Some x" for t x
      using D(7,8) [OF that] by auto
    show "own x = None \<or> (\<exists>u. own x = Some u \<and> (above (n # st) u t \<or> (\<exists>q. wt q = Some x \<and> above (n # st) q t)))"
      if "waiter F t x" "wt t = None" for t x
      using D(9) [OF that] by auto
    show "n = stack_top (n # st) \<and> wt n = None \<or> (\<exists>ob. wt (stack_top (n # st)) = Some ob \<and> own ob = Some n)"
      using \<open>wt n = None\<close> by simp
  qed (use D(4-6) in blast)+
qed

lemma lk_pop:
  assumes inv: "locks_ok F (s # ss) c wt own want" and f: "F c = [FDone m]"
    and c': "c' = stack_top ss \<and> wt c' = None \<or> (\<exists>ob. wt (stack_top ss) = Some ob \<and> own ob = Some c')"
  shows "c = s" and "locks_ok (F(c := [])) ss c' wt own want"
proof -
  note D = locks_okD [OF inv]
  have nu: "\<not> user F c ob" for ob using f by (simp add: user_def)
  show c: "c = s" using running_top [OF inv nu] by simp
  have wc: "wt c = None" by (rule running_not_waiting [OF inv])
  have s: "s \<notin> set ss" "distinct ss" using D(1) by simp_all
  show "locks_ok (F(c := [])) ss c' wt own want"
  proof (rule locks_okI)
    show "distinct ss" "THREAD0 \<notin> set ss" using D(1,2) by simp_all
    show "(F(c := [])) t = []" if "t \<notin> set ss" for t using that D(3) c by simp
    show "plain_frames ((F(c := [])) t)" for t using D(4) by simp
    show "wt t = Some x \<longleftrightarrow> want x = WThread t" for t x by (rule D)
    show "own x = Some t \<longleftrightarrow> user (F(c := [])) t x" for t x using D(6) nu by (simp add: user_upd)
    show "waiter (F(c := [])) t x \<and> (\<exists>u. own x = Some u \<and> above ss t u)" if "wt t = Some x" for t x
      using D(7,8) [OF that] that wc c by (auto simp: waiter_upd)
    show "own x = None \<or> (\<exists>u. own x = Some u \<and> (above ss u t \<or> (\<exists>q. wt q = Some x \<and> above ss q t)))"
      if "waiter (F(c := [])) t x" "wt t = None" for t x
    proof -
      have t: "waiter F t x" "t \<noteq> c" using that by (simp_all add: waiter_upd split: if_splits)
      have "own x \<noteq> Some s" using D(6) nu c by simp
      then show ?thesis using D(9) [OF t(1) that(2)] wc c by auto
    qed
    show "c' = stack_top ss \<and> wt c' = None \<or> (\<exists>ob. wt (stack_top ss) = Some ob \<and> own ob = Some c')" by (rule c')
  qed
qed

subsection \<open>The kernel's states\<close>

definition ALL_THREADS :: "nat multiset" where "ALL_THREADS = mset [0..<NTHREADS]"

abbreviation tnx :: "kstate \<Rightarrow> nat \<Rightarrow> nat option" where "tnx k \<equiv> \<lambda>t. t_next (kthr k t)"
abbreviation waits_for :: "kstate \<Rightarrow> nat \<Rightarrow> nat option" where "waits_for k \<equiv> \<lambda>t. t_waitsFor (kthr k t)"
abbreviation owner :: "kstate \<Rightarrow> nat \<Rightarrow> nat option" where "owner k \<equiv> \<lambda>ob. ownedBy (kobj k ob)"
abbreviation wanter :: "kstate \<Rightarrow> nat \<Rightarrow> wanted" where "wanter k \<equiv> \<lambda>ob. wantedBy (kobj k ob)"

text \<open>The thread that runs as soon as the current handler, if any, has returned.\<close>

definition running :: "kstate \<Rightarrow> nat" where
  "running k = (if kpendsv k then (case upcoming k of Some t \<Rightarrow> t | None \<Rightarrow> current k) else current k)"

definition stacks_ok :: "kstate \<Rightarrow> nat list \<Rightarrow> nat list \<Rightarrow> bool" where
  "stacks_ok k tp st \<longleftrightarrow> chain (tnx k) (threadPool k) tp \<and> chain (tnx k) (activeStack k) (st @ [THREAD0])
     \<and> mset (tp @ st) = ALL_THREADS"

definition klocks :: "frames \<Rightarrow> kstate \<Rightarrow> bool" where
  "klocks F k \<longleftrightarrow> (\<exists>tp st. stacks_ok k tp st
     \<and> locks_ok F st (running k) (waits_for k) (owner k) (wanter k)) \<and> (kpendsv k \<longrightarrow> khandler k)"

lemma klocksE:
  assumes "klocks F k"
  obtains tp st where "stacks_ok k tp st" "locks_ok F st (running k) (waits_for k) (owner k) (wanter k)"
    "kpendsv k \<longrightarrow> khandler k"
  using assms by (auto simp: klocks_def)

lemma klocksI:
  "stacks_ok k tp st \<Longrightarrow> locks_ok F st (running k) (waits_for k) (owner k) (wanter k) \<Longrightarrow>
     (kpendsv k \<longrightarrow> khandler k) \<Longrightarrow> klocks F k"
  by (auto simp: klocks_def)

text \<open>What a routine that neither locks nor schedules leaves alone.\<close>

definition same_threads :: "kstate \<Rightarrow> kstate \<Rightarrow> bool" where
  "same_threads k k' \<longleftrightarrow> tnx k' = tnx k \<and> waits_for k' = waits_for k \<and> kobj k' = kobj k
     \<and> threadPool k' = threadPool k \<and> activeStack k' = activeStack k \<and> current k' = current k
     \<and> upcoming k' = upcoming k \<and> kpendsv k' = kpendsv k \<and> khandler k' = khandler k"

lemma klocks_same:
  assumes "same_threads k k'"
  shows "klocks F k' = klocks F k"
proof -
  have "running k' = running k" using assms by (simp add: same_threads_def running_def split: option.split)
  with assms show ?thesis by (simp add: klocks_def same_threads_def stacks_ok_def)
qed

lemma same_klocks:
  "same_threads k k' \<Longrightarrow> klocks F k \<Longrightarrow> klocks F k' \<and> khandler k' = khandler k"
  using klocks_same [of k k' F] by (simp add: same_threads_def)

lemma same_threads_trans: "same_threads k k' \<Longrightarrow> same_threads k' k'' \<Longrightarrow> same_threads k k''"
  by (simp add: same_threads_def)

lemma same_threads_refl [simp]: "same_threads k k"
  by (simp add: same_threads_def)

lemma same_threads_mask [simp]:
  "same_threads k (ENABLE s k') = same_threads k k'" "same_threads k (DISABLE k') = same_threads k k'"
  "same_threads k (RED_ALERT k') = same_threads k k'" "same_threads k (TIMERSET x k') = same_threads k k'"
  "same_threads k (fill_msg m b d ob me ar k') = same_threads k k'"
  "same_threads k (k'\<lparr>kmem := h\<rparr>) = same_threads k k'" "same_threads k (k'\<lparr>msgPool := q\<rparr>) = same_threads k k'"
  "same_threads k (k'\<lparr>msgQ := q\<rparr>) = same_threads k k'" "same_threads k (k'\<lparr>timerQ := q\<rparr>) = same_threads k k'"
  "same_threads k (k'\<lparr>timestamp := z\<rparr>) = same_threads k k'"
  "same_threads k (k'\<lparr>runAsHardware := s\<rparr>) = same_threads k k'"
  "same_threads k (k'\<lparr>doIRQSchedule := s\<rparr>) = same_threads k k'"
  by (simp_all add: same_threads_def ENABLE_def DISABLE_def RED_ALERT_def TIMERSET_def fill_msg_def)

lemma same_threads_msg [simp]: "same_threads k (upd_thr t (\<lambda>x. x\<lparr>t_msg := v\<rparr>) k') = same_threads k k'"
  by (auto simp: same_threads_def upd_thr_def fun_eq_iff)

lemma dispatch_running:
  assumes "kpendsv k \<longrightarrow> khandler k"
  shows "running (dispatch t k) = t" "kpendsv (dispatch t k) \<longrightarrow> khandler (dispatch t k)"
    "khandler (dispatch t k) = khandler k"
  using assms by (auto simp: running_def dispatch_def ENABLE_def)

subsection \<open>Scheduling, sending and interrupts keep it\<close>

lemma activate_klocks:
  assumes inv: "klocks F k" and r: "activate k = Inr k'"
  shows "klocks F k'"
proof -
  obtain tp st where i: "stacks_ok k tp st" "locks_ok F st (running k) (waits_for k) (owner k) (wanter k)"
      "kpendsv k \<longrightarrow> khandler k" by (rule klocksE [OF inv])
  from r obtain t where t: "threadPool k = Some t" by (cases "threadPool k") (simp_all add: activate_def pop_def)
  with i(1) obtain tp' where tp: "tp = t # tp'" by (cases tp) (auto simp: stacks_ok_def)
  let ?k = "k\<lparr>kthr := (kthr k)(t := (kthr k t)\<lparr>t_next := activeStack k\<rparr>), threadPool := t_next (kthr k t),
      activeStack := Some t\<rparr>"
  have k': "k' = dispatch t ?k" using r t by (simp add: activate_def pop_def push_def)
  have part: "mset (tp @ st) = ALL_THREADS" using i(1) by (simp add: stacks_ok_def)
  have d: "distinct (tp @ st)" "set (tp @ st) = {0..<NTHREADS}"
    using part by (metis ALL_THREADS_def distinct_upt mset_eq_imp_distinct_iff,
        metis ALL_THREADS_def part set_mset_mset set_upt)
  have fr: "t \<notin> set tp'" "t \<notin> set st" "t \<noteq> THREAD0" using d tp by (auto simp: THREAD0_def NTHREADS_def)
  have tnx: "tnx k' = (tnx k)(t := activeStack k)" by (auto simp: k')
  have "stacks_ok k' tp' (t # st)"
    using i(1) tp fr part by (simp add: stacks_ok_def tnx) (simp add: k')
  moreover have "waits_for k' = waits_for k" "owner k' = owner k" "wanter k' = wanter k"
    by (auto simp: k')
  moreover have "running k' = t" "kpendsv k' \<longrightarrow> khandler k'"
    using dispatch_running [of ?k t] i(3) by (simp_all add: k')
  ultimately show ?thesis using lk_push [OF i(2) fr(2,3)] by (intro klocksI) simp_all
qed

lemma schedule_klocks:
  assumes "klocks F k" and "schedule k = Inr k'"
  shows "klocks F k'"
  using assms activate_klocks [of F k k'] by (auto simp: schedule_def split: option.splits if_splits)

lemma khandler_frame [simp]:
  "khandler (dispatch t k) = khandler k" "khandler (fill_msg m b d ob me ar k) = khandler k"
  by (simp_all add: dispatch_def ENABLE_def fill_msg_def)

lemma activate_khandler: "activate k = Inr k' \<Longrightarrow> khandler k' = khandler k"
  by (auto simp: activate_def push_def)

lemma schedule_khandler: "schedule k = Inr k' \<Longrightarrow> khandler k' = khandler k"
  using activate_khandler [of k k'] by (auto simp: schedule_def split: option.splits if_splits)

lemma async_timed_same: "async_timed now m w k = Inr k' \<Longrightarrow> same_threads k k'"
  by (auto simp: async_timed_def Let_def split: if_splits)

lemma async_ready_cases:
  assumes "async_ready m w k = Inr k'"
  shows "same_threads k k' \<or> (\<exists>k1. same_threads k k1 \<and> activate k1 = Inr k')"
proof -
  from assms obtain h mq where e: "enqueueByDeadline m (kmem k) (msgQ k) = Inr (h, mq)"
    by (auto simp: async_ready_def)
  let ?k1 = "k\<lparr>kmem := h, msgQ := mq\<rparr>"
  have "activate ?k1 = Inr k' \<or> k' = ENABLE w ?k1"
    using assms e by (auto simp: async_ready_def Let_def split: if_splits)
  moreover have "same_threads k ?k1" "same_threads k (ENABLE w ?k1)" by simp_all
  ultimately show ?thesis by blast
qed

lemma async_klocks:
  assumes inv: "klocks F k" and r: "async now bl dl ob me ar k = Inr (m, k')"
  shows "klocks F k'" and "khandler k' = khandler k"
proof -
  let ?d = "if 0 < sint dl then dl else INFINITY"
  let ?kf = "\<lambda>p b. fill_msg m (b + bl) (b + bl + ?d) ob me ar (DISABLE k\<lparr>msgPool := p\<rparr>)"
  from r obtain p base where dq: "dequeue_pool (kmem k) (msgPool k) = Inr (m, p)" "base_of k = Inr base"
    by (auto simp: async_def Let_def)
  then have kf: "async_timed now m (ENABLED k) (?kf p base) = Inr k'
      \<or> async_ready m (ENABLED k) (?kf p base) = Inr k'"
    using r by (cases "0 < sint (base + bl - now)") (simp_all add: async_def Let_def res_simps)
  have "same_threads k (?kf p base)" by simp
  then have "same_threads k k' \<or> (\<exists>k1. same_threads k k1 \<and> activate k1 = Inr k')"
    using kf
  proof (elim disjE)
    assume st: "same_threads k (?kf p base)" and "async_timed now m (ENABLED k) (?kf p base) = Inr k'"
    from same_threads_trans [OF st async_timed_same [OF this(2)]] show ?thesis by (rule disjI1)
  next
    assume st: "same_threads k (?kf p base)" and "async_ready m (ENABLED k) (?kf p base) = Inr k'"
    from async_ready_cases [OF this(2)] same_threads_trans [OF st] show ?thesis by blast
  qed
  then have "klocks F k' \<and> khandler k' = khandler k"
  proof
    assume "same_threads k k'"
    from same_klocks [OF this inv] show ?thesis .
  next
    assume "\<exists>k1. same_threads k k1 \<and> activate k1 = Inr k'"
    then obtain k1 where k1: "same_threads k k1" "activate k1 = Inr k'" by blast
    from same_klocks [OF k1(1) inv] activate_klocks [OF _ k1(2), of F] activate_khandler [OF k1(2)]
    show ?thesis by simp
  qed
  then show "klocks F k'" "khandler k' = khandler k" by blast+
qed

lemma vect_TIM5_klocks:
  assumes inv: "klocks F k" and r: "vect_TIM5 now timcount k = Inr k'"
  shows "klocks F k' \<and> khandler k' = khandler k"
proof -
  let ?k2 = "\<lambda>h tq mq. (let k1 = k\<lparr>kmem := h, timerQ := tq, msgQ := mq\<rparr> in case tq of None \<Rightarrow> k1
    | Some q \<Rightarrow> TIMERSET q (if sint (m_baseline (h q)) < sint timcount then RED_ALERT k1 else k1))"
  from r obtain h tq mq where "schedule (?k2 h tq mq) = Inr k'"
    by (auto simp: vect_TIM5_def Let_def simp del: expire.simps)
  moreover have "same_threads k (?k2 h tq mq)" by (simp add: Let_def split: option.split)
  ultimately obtain k2 where k2: "same_threads k k2" "schedule k2 = Inr k'" by blast
  from same_klocks [OF k2(1) inv] schedule_klocks [OF _ k2(2), of F] schedule_khandler [OF k2(2)]
  show ?thesis by simp
qed

lemma isr_sends_klocks:
  "klocks F k \<Longrightarrow> isr_sends ms k = Inr k' \<Longrightarrow> klocks F k' \<and> khandler k' = khandler k"
proof (induction ms k arbitrary: k' rule: isr_sends.induct)
  case (2 now bl dl ob me ar ms k)
  from 2(3) obtain m k1 where a: "async now bl dl ob me ar k = Inr (m, k1)"
      "isr_sends ms (k1\<lparr>doIRQSchedule := True\<rparr>) = Inr k'" by auto
  note ak = async_klocks [OF 2(2) a(1)]
  have "same_threads k1 (k1\<lparr>doIRQSchedule := True\<rparr>)" by simp
  with ak same_klocks have "klocks F (k1\<lparr>doIRQSchedule := True\<rparr>)" by blast
  from 2(1) [OF this a(2)] ak show ?case by simp
qed simp

lemma IRQ_klocks:
  assumes inv: "klocks F k" and r: "IRQ n now (isr_sends ms) k = Inr k'"
  shows "klocks F k' \<and> khandler k' = khandler k"
proof -
  let ?k1 = "k\<lparr>timestamp := now, runAsHardware := True, doIRQSchedule := False\<rparr>"
  from r obtain k2 k4 where s: "(if mtable k n \<noteq> None then isr_sends ms ?k1 else Inr ?k1) = Inr k2"
    "(if doIRQSchedule k2 then schedule (k2\<lparr>runAsHardware := False\<rparr>) else Inr (k2\<lparr>runAsHardware := False\<rparr>)) = Inr k4"
    "k' = k4\<lparr>doIRQSchedule := False\<rparr>"
    by (auto simp: IRQ_def Let_def simp del: isr_sends.simps)
  have "same_threads k ?k1" by simp
  with inv same_klocks have k1: "klocks F ?k1" by blast
  have k2: "klocks F k2 \<and> khandler k2 = khandler k"
    using s(1) isr_sends_klocks [OF k1] k1 by (auto simp del: isr_sends.simps split: if_splits)
  have "same_threads k2 (k2\<lparr>runAsHardware := False\<rparr>)" by simp
  with k2 same_klocks have "klocks F (k2\<lparr>runAsHardware := False\<rparr>)" by blast
  with s(2) k2 have k4: "klocks F k4 \<and> khandler k4 = khandler k"
    using schedule_klocks [of F "k2\<lparr>runAsHardware := False\<rparr>" k4]
      schedule_khandler [of "k2\<lparr>runAsHardware := False\<rparr>" k4] by (auto split: if_splits)
  have "same_threads k4 k'" using s(3) by simp
  from same_klocks [OF this, of F] k4 show ?thesis by simp
qed

lemma interrupt_klocks:
  assumes inv: "klocks F k" and nh: "\<not> khandler k" and r: "interrupt h k = Inr k'"
    and h: "\<And>k1 k2. klocks F k1 \<Longrightarrow> h k1 = Inr k2 \<Longrightarrow> klocks F k2 \<and> khandler k2 = khandler k1"
  shows "klocks F k'" and "\<not> khandler k'"
proof -
  from r obtain k1 where k1: "h (k\<lparr>khandler := True\<rparr>) = Inr k1" "isr_exit k1 = Inr k'"
    by (auto simp: interrupt_def)
  have "klocks F (k\<lparr>khandler := True\<rparr>)"
  proof -
    have np: "\<not> kpendsv k" using inv nh by (simp add: klocks_def)
    then have "running (k\<lparr>khandler := True\<rparr>) = running k" by (simp add: running_def)
    with inv np show ?thesis by (simp add: klocks_def stacks_ok_def)
  qed
  from h [OF this k1(1)] have l: "klocks F k1" by simp
  have run: "running k' = running k1" "\<not> kpendsv k'"
    using k1(2) by (auto simp: isr_exit_def running_def split: if_splits option.splits)
  with l isr_exit_frame [OF k1(2)] show "klocks F k'" "\<not> khandler k'"
    by (simp_all add: klocks_def stacks_ok_def)
qed

subsection \<open>The message loop and synchronous calls keep it\<close>

lemma stacks_ok_cong:
  "tnx k' = tnx k \<Longrightarrow> threadPool k' = threadPool k \<Longrightarrow> activeStack k' = activeStack k \<Longrightarrow>
     stacks_ok k' tp st = stacks_ok k tp st"
  by (simp add: stacks_ok_def)

text \<open>A step that changes the frames only.\<close>

lemma klocks_frames:
  assumes "klocks F k" and "same_threads k k'"
    and "\<And>st. locks_ok F st (running k) (waits_for k) (owner k) (wanter k) \<Longrightarrow>
           locks_ok F' st (running k) (waits_for k) (owner k) (wanter k)"
  shows "klocks F' k'"
proof -
  from assms(1,3) have "klocks F' k" unfolding klocks_def by blast
  with same_klocks [OF assms(2)] show ?thesis by blast
qed

lemma sync_enter_cases:
  assumes "sync_enter ob k = Inr (r, k')"
  obtains (free) "ownedBy (kobj k ob) = None" "r = SyncAcquired (ENABLED k)" "k' = sync_lock ob (ENABLED k) (DISABLE k)"
  | (refused) t0 where "ownedBy (kobj k ob) = Some t0" "r = SyncDeadlock" "k' = ENABLE (ENABLED k) (DISABLE k)"
  | (blocked) t0 t k1 where "ownedBy (kobj k ob) = Some t0" "chase CHASE_FUEL (DISABLE k) t0 = Inr t"
      "r = SyncBlocked (ENABLED k)" "sync_want ob (DISABLE k) = Inr k1" "k' = dispatch t k1"
proof (cases "ownedBy (kobj k ob)")
  case None
  with assms free show thesis by (simp add: sync_enter_def Let_def)
next
  case (Some t0)
  with assms obtain t where t: "chase CHASE_FUEL (DISABLE k) t0 = Inr t"
    by (auto simp: sync_enter_def Let_def simp del: chase.simps)
  show thesis
  proof (cases "t = current k \<or> \<not> ENABLED k")
    case True
    with assms Some t refused show thesis by (auto simp: sync_enter_def Let_def simp del: chase.simps)
  next
    case False
    with assms Some t obtain k1 where "sync_want ob (DISABLE k) = Inr k1" "r = SyncBlocked (ENABLED k)"
      "k' = dispatch t k1" by (auto simp: sync_enter_def Let_def res_simps simp del: chase.simps)
    with Some t blocked show thesis by blast
  qed
qed

text \<open>Without nesting the walk along the owners has at most one step.\<close>

lemma owner_not_waiting:
  assumes "locks_ok F st c wt own want" and "own ob = Some u"
  shows "wt u = None"
  using locks_okD(6,7) [OF assms(1)] assms(2) user_waiter by (cases "wt u") blast+

lemma chase_owner: "waits_for k t = None \<Longrightarrow> chase CHASE_FUEL k t = Inr t"
  by simp

lemma sync_want_klocks_view:
  assumes r: "sync_want ob k = Inr k'" and iff: "\<And>t x. waits_for k t = Some x \<longleftrightarrow> wanter k x = WThread t"
  shows "waits_for k' t = (if t = current k then Some ob else if waits_for k t = Some ob then None else waits_for k t)"
    and "tnx k' = tnx k" and "wanter k' = (wanter k)(ob := WThread (current k))" and "owner k' = owner k"
    and "threadPool k' = threadPool k" and "activeStack k' = activeStack k"
    and "kpendsv k' = kpendsv k" and "khandler k' = khandler k"
proof -
  note eq = sync_want_eq [OF r]
  show "waits_for k' t = (if t = current k then Some ob else if waits_for k t = Some ob then None else waits_for k t)"
    using iff [of t ob] by (auto simp: eq split: wanted.split)
  show "tnx k' = tnx k" "wanter k' = (wanter k)(ob := WThread (current k))" "owner k' = owner k"
    "threadPool k' = threadPool k" "activeStack k' = activeStack k"
    by (auto simp: eq fun_eq_iff split: wanted.split)
  show "kpendsv k' = kpendsv k" "khandler k' = khandler k"
    by (simp_all add: eq upd_thr_def upd_obj_def split: wanted.split)
qed

lemma sync_lock_view:
  "waits_for (sync_lock ob w k) = waits_for k" "tnx (sync_lock ob w k) = tnx k"
  "owner (sync_lock ob w k) = (owner k)(ob := Some (current k))" "wanter (sync_lock ob w k) = wanter k"
  "running (sync_lock ob w k) = running k" "kpendsv (sync_lock ob w k) = kpendsv k"
  by (auto simp: sync_lock_def Let_def fun_eq_iff running_def ENABLE_def upd_obj_def split: option.split)

lemma sync_lock_klocks:
  assumes inv: "klocks F k" and np: "\<not> kpendsv k" and c: "F (current k) \<noteq> []"
    and nu: "\<And>ob. \<not> user F (current k) ob" and free: "ownedBy (kobj k ob) = None"
  shows "klocks (F(current k := [FSync ob w', FRun m])) (sync_lock ob w k)"
proof -
  obtain tp st where i: "stacks_ok k tp st" "locks_ok F st (running k) (waits_for k) (owner k) (wanter k)"
    by (rule klocksE [OF inv])
  have run: "running k = current k" using np by (simp add: running_def)
  have "current k \<noteq> THREAD0" using in_stack [OF i(2) c] locks_okD(2) [OF i(2)] by metis
  from lk_acquire [OF i(2), of ob] this nu free run
  have "locks_ok (F(current k := [FSync ob w', FRun m])) st (running k) (waits_for k)
      ((owner k)(ob := Some (current k))) (wanter k)" by simp
  moreover have "stacks_ok (sync_lock ob w k) tp st"
    using i(1) stacks_ok_cong [of "sync_lock ob w k" k] by (simp add: sync_lock_view)
  ultimately show ?thesis using np by (intro klocksI) (simp_all add: sync_lock_view)
qed

lemma sync_enter_klocks:
  assumes inv: "klocks F k" and nh: "\<not> khandler k" and f: "F (current k) = [FDeq m]"
    and r: "sync_enter ob k = Inr (r, k')"
  shows "klocks (F(current k := returned (called ob r [FRun m]))) k' \<and> \<not> khandler k'"
proof -
  obtain tp st where i: "stacks_ok k tp st" "locks_ok F st (running k) (waits_for k) (owner k) (wanter k)"
      "kpendsv k \<longrightarrow> khandler k" by (rule klocksE [OF inv])
  have np: "\<not> kpendsv k" using i(3) nh by simp
  have run: "running k = current k" using np by (simp add: running_def)
  have nu: "\<not> user F (current k) x" for x using f by (simp add: user_def)
  have "current k \<in> set st" using in_stack [OF i(2), of "current k"] f by simp
  then have c0: "running k \<noteq> THREAD0" using locks_okD(2) [OF i(2)] run by metis
  have invD: "klocks F (DISABLE k)" using same_klocks [OF _ inv, of "DISABLE k"] by simp
  from r show ?thesis
  proof (cases rule: sync_enter_cases)
    case free
    have "klocks (F(current (DISABLE k) := [FSync ob (ENABLED k), FRun m])) (sync_lock ob (ENABLED k) (DISABLE k))"
      by (rule sync_lock_klocks [OF invD]) (use np f nu free in \<open>simp_all add: DISABLE_def\<close>)
    with free nh show ?thesis by (simp add: called_def)
  next
    case (refused t0)
    have "klocks (F(running k := [FDone m])) k'"
      by (rule klocks_frames [OF inv])
        (use refused lk_quiet [OF _ c0, of F _ _ _ _ "[FDone m]"] nu run in auto)
    with refused run nh show ?thesis by (simp add: called_def)
  next
    case (blocked t0 t k1)
    have iff: "waits_for (DISABLE k) t = Some x \<longleftrightarrow> wanter (DISABLE k) x = WThread t" for t x
      using locks_okD(5) [OF i(2)] by simp
    note v = sync_want_klocks_view [OF blocked(4) iff]
    have "waits_for (DISABLE k) t0 = None" using owner_not_waiting [OF i(2), of ob t0] blocked(1) by simp
    with blocked(2) have t: "t = t0" using chase_owner by (metis sum.inject(2))
    have "locks_ok (F(running k := [FWait ob (ENABLED k), FRun m])) st t0 (waits_for k1) (owner k)
        ((wanter k)(ob := WThread (running k)))"
      by (rule lk_block [OF i(2) c0]) (use nu run blocked(1) v(1) in simp_all)
    moreover have "running k' = t0" "\<not> khandler k'" "\<not> kpendsv k'"
      using dispatch_running [of k1 t0] blocked(5) t v(7,8) nh np by (simp_all add: DISABLE_def)
    moreover have "stacks_ok k' tp st"
      using i(1) stacks_ok_cong [of k' k] by (simp add: blocked(5) v)
    ultimately show ?thesis
      using run blocked(3) by (auto simp: called_def blocked(5) v intro!: klocksI)
  qed
qed

lemma sync_exit_klocks:
  assumes inv: "klocks F k" and nh: "\<not> khandler k" and f: "F (current k) = [FSync ob w, FRun m]"
  shows "klocks (F(current k := [FDone m])) (sync_exit ob w k) \<and> \<not> khandler (sync_exit ob w k)"
proof -
  obtain tp st where i: "stacks_ok k tp st" "locks_ok F st (running k) (waits_for k) (owner k) (wanter k)"
      "kpendsv k \<longrightarrow> khandler k" by (rule klocksE [OF inv])
  have run: "running k = current k" using i(3) nh by (simp add: running_def)
  have u: "user F (running k) ob" using f run by (simp add: user_def)
  let ?k = "sync_exit ob w k"
  have tnx: "tnx ?k = tnx k" by (auto simp: sync_exit_def Let_def fun_eq_iff split: wanted.split)
  have st: "stacks_ok ?k tp st" using i(1) stacks_ok_cong [OF tnx] by simp
  have own: "owner ?k = (owner k)(ob := None)"
    by (auto simp: sync_exit_def Let_def fun_eq_iff split: wanted.split)
  have np: "\<not> khandler ?k" "\<not> kpendsv ?k"
    using i(3) nh by (auto simp: sync_exit_def Let_def dispatch_def ENABLE_def DISABLE_def upd_obj_def upd_thr_def
        split: wanted.split)
  show ?thesis
  proof (cases "\<exists>t. wantedBy (kobj k ob) = WThread t")
    case True
    then obtain t where t: "wantedBy (kobj k ob) = WThread t" by blast
    have v: "wanter ?k = (wanter k)(ob := WNull)" "waits_for ?k x = (if x = t then None else waits_for k x)"
        "current ?k = t" for x
      using nh by (auto simp: sync_exit_def Let_def t fun_eq_iff)
    have "locks_ok (F(running k := [FDone m])) st t (waits_for ?k) ((owner k)(ob := None)) ((wanter k)(ob := WNull))"
      by (rule lk_exit_handover [OF i(2) u]) (use t v(2) in simp_all)
    then show ?thesis using st np run v(3)
      by (intro conjI klocksI [of _ tp st]) (simp_all add: own v(1) running_def)
  next
    case False
    then have v: "wanter ?k = wanter k" "waits_for ?k = waits_for k" "current ?k = current k"
      by (auto simp: sync_exit_def Let_def fun_eq_iff split: wanted.split)
    have "locks_ok (F(running k := [FDone m])) st (running k) (waits_for k) ((owner k)(ob := None)) (wanter k)"
      by (rule lk_exit_quiet [OF i(2) u]) (use False in simp)
    then show ?thesis using st np run v(3)
      by (intro conjI klocksI [of _ tp st]) (simp_all add: own v(1,2) running_def)
  qed
qed

lemma sync_resume_klocks:
  assumes inv: "klocks F k" and nh: "\<not> khandler k" and f: "F (current k) = [FWait ob w, FRun m]"
    and r: "sync_resume ob w k = (ok, k')"
  shows "klocks (F(current k := (if ok then [FSync ob w, FRun m] else [FDone m]))) k' \<and> \<not> khandler k'"
proof -
  obtain tp st where i: "stacks_ok k tp st" "locks_ok F st (running k) (waits_for k) (owner k) (wanter k)"
      "kpendsv k \<longrightarrow> khandler k" by (rule klocksE [OF inv])
  have np: "\<not> kpendsv k" using i(3) nh by simp
  then have run: "running k = current k" by (simp add: running_def)
  have "waiter F (running k) ob" using f run by (simp add: waiter_def)
  note free = lk_resume_free [OF i(2) this]
  have "current k \<in> set st" using in_stack [OF i(2), of "current k"] f by simp
  then have c0: "running k \<noteq> THREAD0" using locks_okD(2) [OF i(2)] run by metis
  show ?thesis
  proof (cases "t_msg (kthr k (current k)) = None")
    case True
    with r have k': "\<not> ok" "k' = ENABLE w k" by (auto simp: sync_resume_def)
    have "klocks (F(running k := [FDone m])) k'"
      by (rule klocks_frames [OF inv]) (use k' lk_quiet [OF _ c0, of F _ _ _ _ "[FDone m]"] free(2) in auto)
    with k' run nh show ?thesis by simp
  next
    case False
    with r have k': "ok" "k' = sync_lock ob w k" by (auto simp: sync_resume_def)
    have "klocks (F(current k := [FSync ob w, FRun m])) (sync_lock ob w k)"
      by (rule sync_lock_klocks [OF inv np]) (use f free run in simp_all)
    with k' nh show ?thesis by simp
  qed
qed

lemma run_begin_klocks:
  assumes inv: "klocks F k" and nh: "\<not> khandler k" and f: "F (current k) = []" "current k < NTHREADS"
    and r: "run_begin k = Inr (m, k')"
  shows "klocks (F(current k := [FDeq m])) k' \<and> \<not> khandler k'"
proof -
  obtain tp st where i: "locks_ok F st (running k) (waits_for k) (owner k) (wanter k)" "kpendsv k \<longrightarrow> khandler k"
    by (rule klocksE [OF inv])
  have run: "running k = current k" using i(2) nh by (simp add: running_def)
  have same: "same_threads k k'" using r by (auto simp: run_begin_def)
  have "klocks (F(running k := [FDeq m])) k'"
    by (rule klocks_frames [OF inv same], rule lk_quiet)
      (use f run in \<open>auto simp: user_def THREAD0_def NTHREADS_def\<close>)
  with run nh same show ?thesis by (simp add: same_threads_def)
qed

text \<open>The two ways out of the loop body: stay, or leave the stack and run the next thread.\<close>

lemma run_end_cases:
  assumes "run_end m k = Inr k'"
  shows "same_threads k k' \<or> (\<exists>k1 a st t0 t1 th.
     same_threads k k1 \<and> activeStack k = Some a \<and> st = t_next (kthr k1 a)
     \<and> th = (kthr k1)(a := (kthr k1 a)\<lparr>t_next := threadPool k1\<rparr>)
     \<and> deref st = Inr t0
     \<and> chase CHASE_FUEL (k1\<lparr>kthr := th, activeStack := st, threadPool := Some a\<rparr>) t0 = Inr t1
     \<and> k' = dispatch t1 (k1\<lparr>kthr := th, activeStack := st, threadPool := Some a\<rparr>))"
proof -
  obtain h p where i: "insert_msg m (kmem k) (msgPool k) = (h, p)" by fastforce
  let ?k1 = "DISABLE k\<lparr>kmem := h, msgPool := p\<rparr>"
  have same: "same_threads k ?k1" by simp
  from assms i obtain a where a: "activeStack k = Some a"
    by (cases "activeStack k") (auto simp: run_end_def Let_def)
  from assms i a obtain b where b: "t_next (kthr k a) = Some b"
    by (cases "t_next (kthr k a)") (auto simp: run_end_def Let_def)
  show ?thesis
  proof (cases "case msgQ ?k1 of None \<Rightarrow> True
      | Some q \<Rightarrow> (case t_msg (kthr ?k1 b) of None \<Rightarrow> False | Some old \<Rightarrow> 0 < dl_diff ?k1 q old)")
    case True
    let ?k2 = "?k1\<lparr>kthr := (kthr ?k1)(a := (kthr ?k1 a)\<lparr>t_next := threadPool ?k1\<rparr>), activeStack := Some b,
      threadPool := Some a\<rparr>"
    from assms i a b True obtain t1 where "chase CHASE_FUEL ?k2 b = Inr t1" "k' = dispatch t1 ?k2"
      by (auto simp: run_end_def Let_def pop_def push_def simp del: chase.simps)
    with same a b show ?thesis
      by (intro disjI2 exI [of _ ?k1] exI [of _ a] exI [of _ "Some b"] exI [of _ b] exI [of _ t1] exI conjI)
        (simp_all del: chase.simps)
  next
    case False
    with assms i a b have "k' = ?k1" by (auto simp: run_end_def Let_def simp del: chase.simps)
    with same show ?thesis by simp
  qed
qed

lemma run_end_klocks:
  assumes inv: "klocks F k" and nh: "\<not> khandler k" and f: "F (current k) = [FDone m]"
    and r: "run_end m k = Inr k'"
  shows "klocks (F(current k := [])) k' \<and> \<not> khandler k'"
proof -
  obtain tp st where i: "stacks_ok k tp st" "locks_ok F st (running k) (waits_for k) (owner k) (wanter k)"
      "kpendsv k \<longrightarrow> khandler k" by (rule klocksE [OF inv])
  have np: "\<not> kpendsv k" using i(3) nh by simp
  then have run: "running k = current k" by (simp add: running_def)
  have nu: "\<not> user F (running k) x" for x using f run by (simp add: user_def)
  have "current k \<in> set st" using in_stack [OF i(2), of "current k"] f by simp
  then have c0: "running k \<noteq> THREAD0" and "st \<noteq> []" using locks_okD(2) [OF i(2)] run by (metis, auto)
  then obtain s ss where st: "st = s # ss" by (cases st) auto
  from run_end_cases [OF r] show ?thesis
  proof
    assume same: "same_threads k k'"
    have "klocks (F(running k := [])) k'"
      by (rule klocks_frames [OF inv same], rule lk_quiet) (use c0 nu in auto)
    with run nh same show ?thesis by (simp add: same_threads_def)
  next
    assume "\<exists>k1 a st t0 t1 th.
     same_threads k k1 \<and> activeStack k = Some a \<and> st = t_next (kthr k1 a)
     \<and> th = (kthr k1)(a := (kthr k1 a)\<lparr>t_next := threadPool k1\<rparr>)
     \<and> deref st = Inr t0
     \<and> chase CHASE_FUEL (k1\<lparr>kthr := th, activeStack := st, threadPool := Some a\<rparr>) t0 = Inr t1
     \<and> k' = dispatch t1 (k1\<lparr>kthr := th, activeStack := st, threadPool := Some a\<rparr>)"
    then obtain k1 a t0 t1 k2 where p: "same_threads k k1" "activeStack k = Some a"
      "deref (t_next (kthr k1 a)) = Inr t0" "chase CHASE_FUEL k2 t0 = Inr t1" "k' = dispatch t1 k2"
      and k2: "k2 = k1\<lparr>kthr := (kthr k1)(a := (kthr k1 a)\<lparr>t_next := threadPool k1\<rparr>),
        activeStack := t_next (kthr k1 a), threadPool := Some a\<rparr>" by blast
    have same: "tnx k1 = tnx k" "waits_for k1 = waits_for k" "kobj k1 = kobj k" "threadPool k1 = threadPool k"
      "kpendsv k1 = kpendsv k" "khandler k1 = khandler k" using p(1) by (simp_all add: same_threads_def)
    have ch: "chain (tnx k) (threadPool k) tp" "chain (tnx k) (activeStack k) (st @ [THREAD0])"
      and part: "mset (tp @ st) = ALL_THREADS" using i(1) by (simp_all add: stacks_ok_def)
    have as: "a = s" "chain (tnx k) (tnx k s) (ss @ [THREAD0])" using ch(2) p(2) st by simp_all
    have t0: "t0 = stack_top ss"
      using p(3) as same(1) by (cases ss) (auto simp: deref_def fun_eq_iff split: option.splits)
    have d: "distinct (tp @ st)"
      using part by (metis ALL_THREADS_def distinct_upt mset_eq_imp_distinct_iff)
    have v: "tnx k2 = (tnx k)(s := threadPool k)" "waits_for k2 = waits_for k" "owner k2 = owner k"
      "wanter k2 = wanter k" "threadPool k2 = Some s" "activeStack k2 = tnx k s"
      using as(1) same by (auto simp: k2 fun_eq_iff)
    have "stacks_ok k2 (s # tp) ss"
      using ch(1) as(2) d st part locks_okD(2) [OF i(2)] by (simp add: stacks_ok_def v)
    then have stk: "stacks_ok k' (s # tp) ss" using stacks_ok_cong [of k' k2] p(5) by simp
    have t1: "t1 = stack_top ss \<and> waits_for k t1 = None
        \<or> (\<exists>ob. waits_for k (stack_top ss) = Some ob \<and> owner k ob = Some t1)"
    proof (cases "waits_for k (stack_top ss)")
      case None
      with p(4) t0 chase_owner [of k2 t0] v(2) show ?thesis by (simp add: fun_eq_iff)
    next
      case (Some ob)
      then obtain u where u: "owner k ob = Some u" using locks_okD(8) [OF i(2)] by blast
      have "waits_for k u = None" using owner_not_waiting [OF i(2) u] .
      then have "chase CHASE_FUEL k2 t0 = Inr u"
        using Some u t0 v(2,3) by (simp add: fun_eq_iff)
      with p(4) Some u show ?thesis by simp
    qed
    have l: "locks_ok (F(running k := [])) ss t1 (waits_for k) (owner k) (wanter k)"
      by (rule lk_pop(2) [OF i(2) [unfolded st] _ t1]) (use f run in simp)
    have "running k' = t1" "\<not> khandler k'" "\<not> kpendsv k'"
      using dispatch_running [of k2 t1] same nh np p(5) by (simp_all add: k2)
    with stk l run show ?thesis by (intro conjI klocksI [of _ "s # tp" ss]) (simp_all add: p(5) v)
  qed
qed

subsection \<open>Every execution\<close>

definition sys_excl :: "kstate \<times> frames \<Rightarrow> bool" where
  "sys_excl s \<longleftrightarrow> klocks (snd s) (fst s) \<and> \<not> khandler (fst s)"

lemma sys_exclI: "klocks F k \<and> \<not> khandler k \<Longrightarrow> sys_excl (k, F)"
  by (simp add: sys_excl_def)

lemma plain_current:
  assumes "klocks F k"
  shows "plain_frames (F t)"
  using assms locks_okD(4) by (auto simp: klocks_def)

lemma ABORT_klocks:
  assumes "klocks F k" and "msgs_inv hs k" and "kqueues k pool mq tq" and m: "m \<in> set (mq @ tq)"
    and r: "ABORT m k = Inr k'"
  shows "klocks F k' \<and> khandler k' = khandler k"
proof -
  have "same_threads k k'"
  proof -
    from assms(2) obtain pl mq' tq' where q: "kqueues k pl mq' tq'" "mset (pl @ mq' @ tq' @ hs) = ALL_MSGS"
      by (auto simp: msgs_inv_def)
    have eq: "mq' = mq" "tq' = tq" using q(1) assms(3) by (auto simp: kqueues_def dest: chain_unique)
    have len: "length mq \<le> NMSGS" "length tq \<le> NMSGS" using partition_length [OF q(2)] eq by auto
    have l: "mlist (kmem k) (msgQ k) mq" "mlist (kmem k) (timerQ k) tq" using assms(3) by (simp_all add: kqueues_def)
    show ?thesis
    proof (cases "m \<in> set tq")
      case True
      from remove_msg_present [OF l(2) len(2) True] obtain h1 t1 where
        "remove_msg m (kmem k) (timerQ k) = Inr (True, h1, t1)" by blast
      with r show ?thesis by (auto simp: ABORT_def Let_def split: prod.splits)
    next
      case False
      with m have mm: "m \<in> set mq" by simp
      from remove_msg_present [OF l(1) len(1) mm] obtain h1 t1 where
        "remove_msg m (kmem k) (msgQ k) = Inr (True, h1, t1)" by blast
      with r remove_msg_absent [OF l(2) len(2) False] show ?thesis
        by (auto simp: ABORT_def Let_def split: prod.splits)
    qed
  qed
  from same_klocks [OF this assms(1)] show ?thesis .
qed

lemma sys_step_excl:
  assumes "sys_step False s s'" and "sys_excl s" and "sys_msgs s"
  shows "sys_excl s'"
  using assms
proof (induction rule: sys_step.induct)
  case (take F k m k')
  from run_begin_klocks [of F k m k'] take show ?case by (simp add: sys_excl_def)
next
  case (run_sync F k m r k')
  from sync_enter_klocks [of F k m "m_to (kmem k m)" r k'] run_sync show ?case by (simp add: sys_excl_def)
next
  case (meth_async F k ob w fs now bl dl ob' me ar m k')
  from async_klocks [OF _ meth_async(2), of F] meth_async(3) show ?case by (simp add: sys_excl_def)
next
  case (meth_abort F k ob w fs pool mq tq m k')
  from ABORT_klocks [OF _ _ meth_abort(2-4)] meth_abort(5,6) show ?case
    by (auto simp: sys_excl_def sys_msgs_def)
next
  case (meth_return F k ob w fs)
  have inv: "klocks F k" "\<not> khandler k" using meth_return(2) by (simp_all add: sys_excl_def)
  obtain m where fs: "fs = [FRun m]"
    using plain_current [OF inv(1), of "current k"] meth_return(1)
    by (cases "FSync ob w # fs" rule: plain_frames.cases) auto
  with sync_exit_klocks [OF inv, of ob w m] meth_return(1) show ?case by (simp add: sys_excl_def)
next
  case (resume F k ob w fs ok k')
  have inv: "klocks F k" "\<not> khandler k" using resume(3) by (simp_all add: sys_excl_def)
  obtain m where fs: "fs = [FRun m]"
    using plain_current [OF inv(1), of "current k"] resume(1)
    by (cases "FWait ob w # fs" rule: plain_frames.cases) auto
  with sync_resume_klocks [OF inv, of ob w m ok k'] resume(1,2) fs show ?case
    by (cases ok) (simp_all add: sys_excl_def)
next
  case (finish F k m k')
  from run_end_klocks [of F k m k'] finish show ?case by (simp add: sys_excl_def)
next
  case (idle k k' F)
  from idle(2) obtain k1 where k1: "schedule k = Inr k1" "k' = ENABLE True k1" by (auto simp: idle_def)
  have "klocks F k1" "\<not> khandler k1"
    using schedule_klocks [OF _ k1(1), of F] schedule_khandler [OF k1(1)] idle(3) by (simp_all add: sys_excl_def)
  then show ?case using same_klocks [of k1 k' F] k1(2) by (simp add: sys_excl_def)
next
  case (timer k now timcount k' F)
  have inv: "klocks F k" "\<not> khandler k" using timer(3) by (simp_all add: sys_excl_def)
  from interrupt_klocks [OF inv timer(2) vect_TIM5_klocks] show ?case by (simp add: sys_excl_def)
next
  case (device k n now ms k' F)
  have inv: "klocks F k" "\<not> khandler k" using device(3) by (simp_all add: sys_excl_def)
  from interrupt_klocks [OF inv device(2) IRQ_klocks] show ?case by (simp add: sys_excl_def)
qed simp

lemma wanted_installs: "wantedBy (kobj (installs ins k) x) = WThread t \<Longrightarrow> wantedBy (kobj k x) = WThread t"
proof (induction ins k rule: installs.induct)
  case (2 ob m i ins k)
  then show ?case by (auto simp: install_def Let_def ENABLE_def DISABLE_def upd_obj_def split: if_splits)
qed simp

lemma initialize_klocks: "klocks (\<lambda>_. []) (initialize (DISABLE (installs ins boot)))"
proof -
  let ?k = "initialize (DISABLE (installs ins boot))"
  have thr: "kthr ?k = init_threads (kthr boot)" "threadPool ?k = Some 0" "activeStack ?k = Some THREAD0"
      "kpendsv ?k = False" "current ?k = THREAD0" "kobj ?k = kobj (installs ins boot)"
    by (simp_all add: initialize_def DISABLE_def) (simp_all add: boot_def)
  have "chain (tnx ?k) (if 0 < NTHREADS then Some 0 else None) [0..<NTHREADS]"
    unfolding thr by (rule chain_counting) (simp_all add: init_threads_def NTHREADS_def)
  then have "stacks_ok ?k [0..<NTHREADS] []"
    by (simp add: stacks_ok_def thr ALL_THREADS_def) (simp add: init_threads_def NTHREADS_def THREAD0_def)
  moreover have "waits_for ?k t = None" for t
    unfolding thr by (simp add: init_threads_def boot_def)
  moreover have "owner ?k x = None" "wanter ?k x \<noteq> WThread t" for x t
  proof -
    have "ownedBy (kobj boot x) = None" "wantedBy (kobj boot x) \<noteq> WThread t" by (simp_all add: boot_def)
    with wanted_installs [of ins boot x t] show "owner ?k x = None" "wanter ?k x \<noteq> WThread t"
      unfolding thr by auto
  qed
  ultimately show ?thesis
    by (intro klocksI [of _ "[0..<NTHREADS]" "[]"] locks_okI) (simp_all add: user_def waiter_def running_def thr)
qed

lemma tinytimber_klocks:
  assumes "tinytimber t0 now ob me ar (installs ins boot) = Inr k"
  shows "klocks (\<lambda>_. []) k \<and> \<not> khandler k"
proof -
  let ?k1 = "initialize (DISABLE (installs ins boot))"
  let ?k2 = "?k1\<lparr>timestamp := t0, runAsHardware := True\<rparr>"
  have h: "\<not> khandler ?k1" by (simp add: initialize_def) (simp add: boot_def)
  have i: "klocks (\<lambda>_. []) ?k1" by (rule initialize_klocks)
  have i2: "klocks (\<lambda>_. []) ?k2" using same_klocks [OF _ i, of ?k2] by simp
  show ?thesis
  proof (cases me)
    case None
    with assms i h show ?thesis by (simp add: tinytimber_def)
  next
    case (Some m)
    with assms obtain r k3 where k3: "async now 0 0 ob m ar ?k2 = Inr (r, k3)"
      "schedule (k3\<lparr>runAsHardware := False\<rparr>) = Inr k" by (auto simp: tinytimber_def Let_def)
    note a = async_klocks [OF i2 k3(1)]
    have s: "klocks (\<lambda>_. []) (k3\<lparr>runAsHardware := False\<rparr>)"
      using same_klocks [OF _ a(1), of "k3\<lparr>runAsHardware := False\<rparr>"] by simp
    show ?thesis
      using schedule_klocks [OF s k3(2)] schedule_khandler [OF k3(2)] a(2) h by simp
  qed
qed

lemma sys_reach_excl: "sys_reach False s \<Longrightarrow> sys_excl s"
proof (induction rule: sys_reach.induct)
  case (start t0 now ob me ar ins k)
  then show ?case using tinytimber_klocks by (simp add: sys_excl_def)
next
  case (step s s')
  then show ?case using sys_step_excl sys_reach_msgs by blast
qed

end
