(* ===== verification/TT_Traces.thy ===== *)
theory TT_Traces
  imports TT_Exclusion
begin

section \<open>TinyTimber: executions one can run\<close>

text \<open>
  A scheduler of concrete steps: each action names the step the current thread, or the timer, makes,
  and the result is the next system state when the kernel returns one. Every run of it is an
  execution of the kernel, so a trace that evaluates is a witness of reachability.
\<close>

datatype act = ATake | ARun | ASync nat | ASend i32 i32 i32 nat | AReturn | AResume | AFinish | ATimer i32 i32

definition of_res :: "'a res \<Rightarrow> 'a option" where
  "of_res r = (case r of Inl _ \<Rightarrow> None | Inr x \<Rightarrow> Some x)"

lemma of_res_Some [simp]: "of_res r = Some x \<longleftrightarrow> r = Inr x"
  by (simp add: of_res_def split: sum.split)

fun do_act :: "bool \<Rightarrow> act \<Rightarrow> kstate \<times> frames \<Rightarrow> (kstate \<times> frames) option" where
  "do_act nested ATake (k, F) =
     (if F (current k) = [] \<and> current k < NTHREADS
      then map_option (\<lambda>(m, k'). (k', F(current k := [FDeq m]))) (of_res (run_begin k)) else None)"
| "do_act nested ARun (k, F) =
     (case F (current k) of
        [FDeq m] \<Rightarrow> map_option (\<lambda>(r, k'). (k', F(current k := returned (called (m_to (kmem k m)) r [FRun m]))))
                      (of_res (sync_enter (m_to (kmem k m)) k))
      | _ \<Rightarrow> None)"
| "do_act nested (ASync ob') (k, F) =
     (case F (current k) of
        FSync ob w # fs \<Rightarrow> if nested
          then map_option (\<lambda>(r, k'). (k', F(current k := called ob' r (FSync ob w # fs)))) (of_res (sync_enter ob' k))
          else None
      | _ \<Rightarrow> None)"
| "do_act nested (ASend now bl dl ob') (k, F) =
     (case F (current k) of
        FSync ob w # fs \<Rightarrow> map_option (\<lambda>(m, k'). (k', F)) (of_res (async now bl dl ob' 0 0 k))
      | _ \<Rightarrow> None)"
| "do_act nested AReturn (k, F) =
     (case F (current k) of
        FSync ob w # fs \<Rightarrow> Some (sync_exit ob w k, F(current k := returned fs))
      | _ \<Rightarrow> None)"
| "do_act nested AResume (k, F) =
     (case F (current k) of
        FWait ob w # fs \<Rightarrow> (case sync_resume ob w k of
            (ok, k') \<Rightarrow> Some (k', F(current k := (if ok then FSync ob w # fs else returned fs))))
      | _ \<Rightarrow> None)"
| "do_act nested AFinish (k, F) =
     (case F (current k) of
        [FDone m] \<Rightarrow> map_option (\<lambda>k'. (k', F(current k := []))) (of_res (run_end m k))
      | _ \<Rightarrow> None)"
| "do_act nested (ATimer now cnt) (k, F) =
     (if ENABLED k then map_option (\<lambda>k'. (k', F)) (of_res (interrupt (vect_TIM5 now cnt) k)) else None)"

text \<open>
  Between two actions the finite maps of the state are tabulated; the function stays the same, its
  evaluation does not repeat the updates of earlier actions.
\<close>

definition settle :: "(nat \<Rightarrow> 'a) \<Rightarrow> nat \<Rightarrow> 'a" where
  "settle f = (let xs = map (\<lambda>i. (i, f i)) [0..<6] in (\<lambda>i. case map_of xs i of Some v \<Rightarrow> v | None \<Rightarrow> f i))"

lemma settle_id [simp]: "settle f = f"
proof (rule ext)
  fix i
  have "map_of (map (\<lambda>i. (i, f i)) xs) i = (if i \<in> set xs then Some (f i) else None)" for xs
    by (induction xs) auto
  then show "settle f i = f i" by (simp add: settle_def Let_def)
qed

fun settle_state :: "kstate \<times> frames \<Rightarrow> kstate \<times> frames" where
  "settle_state (k, F) =
     (k\<lparr>kmem := settle (kmem k), kthr := settle (kthr k), kobj := settle (kobj k)\<rparr>, settle F)"

lemma settle_state_id [simp]: "settle_state s = s"
  by (cases s) simp

fun do_acts :: "bool \<Rightarrow> act list \<Rightarrow> kstate \<times> frames \<Rightarrow> (kstate \<times> frames) option" where
  "do_acts nested [] s = Some s"
| "do_acts nested (a # as) s = (case do_act nested a s of None \<Rightarrow> None | Some s' \<Rightarrow> do_acts nested as (settle_state s'))"

definition trace :: "bool \<Rightarrow> nat \<Rightarrow> act list \<Rightarrow> (kstate \<times> frames) option" where
  "trace nested ob as =
     (case tinytimber 0 0 ob (Some 0) 0 boot of Inl _ \<Rightarrow> None | Inr k \<Rightarrow> do_acts nested as (k, \<lambda>_. []))"

lemma do_act_step: "do_act nested a s = Some s' \<Longrightarrow> sys_step nested s s'"
proof (cases s)
  case (Pair k F)
  assume r: "do_act nested a s = Some s'"
  show ?thesis
  proof (cases a)
    case AResume
    from r Pair AResume obtain ob w fs where f: "F (current k) = FWait ob w # fs"
      by (auto split: list.splits frame.splits)
    obtain ok k' where k': "sync_resume ob w k = (ok, k')" by fastforce
    with r Pair AResume f sys_step.resume [of F k ob w fs ok k' nested] show ?thesis by simp
  qed (use r Pair in \<open>auto intro: sys_step.intros split: if_splits list.splits frame.splits prod.splits\<close>)
qed

lemma do_acts_reach: "sys_reach nested s \<Longrightarrow> do_acts nested as s = Some s' \<Longrightarrow> sys_reach nested s'"
proof (induction as arbitrary: s)
  case (Cons a as)
  from Cons.prems(2) obtain s1 where "do_act nested a s = Some s1" "do_acts nested as s1 = Some s'"
    by (auto split: option.splits)
  with Cons.IH [of s1] Cons.prems(1) do_act_step [of nested a s s1] show ?case
    by (blast intro: sys_reach.step)
qed simp

lemma trace_reach: "trace nested ob as = Some s \<Longrightarrow> sys_reach nested s"
  using sys_reach.start [of 0 0 ob "Some 0" 0 "[]" _ nested] do_acts_reach
  by (auto simp: trace_def split: sum.splits)

text \<open>A trace that evaluates to some state reaches one.\<close>

lemma trace_someE:
  assumes "case trace nested ob as of None \<Rightarrow> False | Some (k, F) \<Rightarrow> P k F"
  obtains k F where "trace nested ob as = Some (k, F)" and "P k F" and "sys_reach nested (k, F)"
  using assms trace_reach by (cases "trace nested ob as") auto

end
