(* ===== verification/TT_Properties.thy ===== *)
theory TT_Properties
  imports TT_Traces
begin

section \<open>TinyTimber: what the kernel guarantees, and where it does not\<close>

text \<open>
  The properties of the kernel, stated over its steps and over whole executions. Hypotheses are
  discharged at concrete executions by the witness that follows each property.
\<close>

abbreviation busy_trace :: "act list" where
  "busy_trace \<equiv> [ATake, ARun, ASend 0 10 20 2, ASend 0 0 50 2, ATake, ARun, ATimer 10 0, ATake, ARun]"

lemma busy_trace_ok:
  "case trace False 1 busy_trace of None \<Rightarrow> False
     | Some (k, F) \<Rightarrow> held F = [0, 2, 1] \<and> current k = 1 \<and> F 2 = [FWait 2 True, FRun 1]
         \<and> F 1 = [FSync 2 True, FRun 2]"
  by code_simp

text \<open>
  A state during start-up at time 7, interrupts still masked, with one ready message (0) and one
  timed message (1), and one in which thread 1 owns object 2 and waits for object 1, owned by thread 0.
\<close>

abbreviation demo :: kstate where
  "demo \<equiv> (initialize boot)\<lparr>msgPool := Some 2, msgQ := Some 0, timerQ := Some 1, runAsHardware := True,
     timestamp := 7, kprot := True,
     kmem := (kmem (initialize boot))
       (0 := \<lparr>m_next = None, m_baseline = 5, m_deadline = 100, m_to = 1, m_method = 0, m_arg = 0\<rparr>,
        1 := \<lparr>m_next = None, m_baseline = 10, m_deadline = 50, m_to = 1, m_method = 0, m_arg = 0\<rparr>)\<rparr>"

lemma demo_queues: "kqueues demo (2 # [3..<NMSGS]) [0] [1]"
  by code_simp

lemma demo_part: "mset ((2 # [3..<NMSGS]) @ [0] @ [1] @ []) = ALL_MSGS"
proof -
  have "[0..<NMSGS] = 0 # 1 # 2 # [3..<NMSGS]" by (simp add: NMSGS_def upt_conv_Cons)
  then show ?thesis by (simp only: ALL_MSGS_def) (simp add: ac_simps)
qed






text \<open>
  C2. In every execution of a program whose methods do not call SYNC, at most one thread is inside
  a method of an object, and \<open>ownedBy\<close> names it, whatever interrupts, timer expiries
  and sends happen in between.
\<close>

theorem tt_mutual_exclusion:
  assumes "sys_reach False (k, F)" and "FSync ob w \<in> set (F t)" and "FSync ob w' \<in> set (F t')"
  shows "t = t' \<and> ownedBy (kobj k ob) = Some t"
proof -
  from sys_reach_excl [OF assms(1)] obtain tp st where
    i: "locks_ok F st (running k) (waits_for k) (owner k) (wanter k)"
    by (auto simp: sys_excl_def klocks_def)
  have "user F a ob" if "FSync ob w \<in> set (F a)" for a w
    using that locks_okD(4) [OF i, of a] by (cases "F a" rule: plain_frames.cases) (auto simp: user_def)
  with assms(2,3) locks_okD(6) [OF i] show ?thesis by (metis option.inject)
qed

theorem tt_mutual_exclusion_witness:
  "\<exists>k F w. trace False 1 busy_trace = Some (k, F) \<and> FSync 2 w \<in> set (F 1) \<and> ownedBy (kobj k 2) = Some 1"
proof -
  obtain k F where s: "trace False 1 busy_trace = Some (k, F)" "F 1 = [FSync 2 True, FRun 2]" "sys_reach False (k, F)"
    by (rule trace_someE [OF busy_trace_ok]) simp
  then have "FSync 2 True \<in> set (F 1)" by simp
  with tt_mutual_exclusion [OF s(3) this this] s(1) show ?thesis by blast
qed

text \<open>
  C11. When methods call SYNC themselves, mutual exclusion can fail: there is an execution in
  which threads 0 and 1 are both inside a method of object 1, because a displaced waiter no longer
  counts as waiting and is switched to as the end of another chain.
\<close>

theorem tt_nested_exclusion_broken:
  "\<exists>k F. sys_reach True (k, F) \<and> F 0 = [FSync 1 True, FRun 0]
     \<and> F 1 = [FSync 1 True, FSync 2 True, FRun 1] \<and> current k = 1"
proof -
  have "case trace True 1 [ATake, ARun, ASend 0 0 900 2, ATake, ARun, ASync 1, ASend 0 0 800 1, ATake, ARun,
      ASend 0 0 700 2, ATake, ARun, AResume] of None \<Rightarrow> False
    | Some (k, F) \<Rightarrow> F 0 = [FSync 1 True, FRun 0] \<and> F 1 = [FSync 1 True, FSync 2 True, FRun 1] \<and> current k = 1"
    by code_simp
  then show ?thesis by (rule trace_someE) blast
qed


text \<open>
  C3. In every such execution, leaving a method of an object that is wanted by a thread runs
  exactly that thread next; it was waiting for this object, the object is free for it and nobody
  waits for it any more.
\<close>

theorem tt_handover:
  assumes "sys_reach False (k, F)" and "F (current k) = FSync ob w # fs"
    and "wantedBy (kobj k ob) = WThread t"
  shows "current (sync_exit ob w k) = t \<and> (\<exists>w' m. F t = [FWait ob w', FRun m])
    \<and> ownedBy (kobj (sync_exit ob w k) ob) = None
    \<and> (\<forall>t'. t_waitsFor (kthr (sync_exit ob w k) t') \<noteq> Some ob)"
proof (intro conjI allI)
  obtain tp st where i: "locks_ok F st (running k) (waits_for k) (owner k) (wanter k)" "\<not> khandler k"
    using sys_reach_excl [OF assms(1)] by (auto simp: sys_excl_def klocks_def)
  have w: "waits_for k t' = Some ob \<longleftrightarrow> t' = t" for t' using locks_okD(5) [OF i(1)] assms(3) by auto
  show "current (sync_exit ob w k) = t" "ownedBy (kobj (sync_exit ob w k) ob) = None"
    using assms(3) i(2) by (simp_all add: sync_exit_def Let_def)
  show "\<exists>w' m. F t = [FWait ob w', FRun m]"
    using locks_okD(7) [OF i(1)] w by (simp add: waiter_def)
  show "t_waitsFor (kthr (sync_exit ob w k) t') \<noteq> Some ob" for t'
    using assms(3) w [of t'] by (auto simp: sync_exit_def Let_def)
qed

theorem tt_handover_witness:
  "\<exists>k F. trace False 1 busy_trace = Some (k, F) \<and> F (current k) = [FSync 2 True, FRun 2]
     \<and> current (sync_exit 2 True k) = 2"
proof -
  have "case trace False 1 busy_trace of None \<Rightarrow> False
     | Some (k, F) \<Rightarrow> F (current k) = [FSync 2 True, FRun 2] \<and> wantedBy (kobj k 2) = WThread 2"
    by code_simp
  then show ?thesis by (rule trace_someE) (use tt_handover in blast)
qed

text \<open>
  C4. The timer interrupt always returns and moves exactly the expired prefix of the timer queue,
  in order, into the ready queue by deadline; the rest stays, no message changes.
\<close>

theorem tt_timer_release:
  assumes "kqueues k pool mq tq" and "mset (pool @ mq @ tq @ hs) = ALL_MSGS" and "activeStack k \<noteq> None"
  shows "\<exists>k'. vect_TIM5 now cnt k = Inr k' \<and> same_data (kmem k) (kmem k')
    \<and> kqueues k' pool
        (fold (enq_list (by_deadline (kmem k))) (takeWhile (expired now (kmem k)) tq) mq)
        (dropWhile (expired now (kmem k)) tq)"
proof -
  have q: "mlist (kmem k) (msgQ k) mq" "mlist (kmem k) (timerQ k) tq"
    using assms(1) by (simp_all add: kqueues_def)
  have d: "distinct (tq @ mq)" "length tq + length mq \<le> NMSGS" "length tq < Suc NMSGS"
    using partition_distinct [OF assms(2)] partition_length [OF assms(2)] by auto
  have sched: "\<exists>k''. schedule k' = Inr k''" if "activeStack k' \<noteq> None" for k'
    using that by (auto simp: schedule_def activate_def pop_def push_def split: option.splits)
  from expire_spec [OF q(2,1) d, of now] have "\<exists>k'. vect_TIM5 now cnt k = Inr k'"
    using assms(3) sched by (auto simp: vect_TIM5_def Let_def simp del: expire.simps split: option.split)
  then show ?thesis using vect_TIM5_queues [OF assms(1,2)] by blast
qed

theorem tt_timer_release_witness:
  "\<exists>k'. vect_TIM5 20 0 demo = Inr k' \<and> kqueues k' (2 # [3..<NMSGS]) [1, 0] []"
proof -
  have "fold (enq_list (by_deadline (kmem demo))) (takeWhile (expired 20 (kmem demo)) [1]) [0] = [1, 0]"
    "dropWhile (expired 20 (kmem demo)) [1] = []" "activeStack demo \<noteq> None"
    by (code_simp, code_simp, simp add: initialize_def boot_def)
  with tt_timer_release [OF demo_queues demo_part, of 20 0] show ?thesis by metis
qed

text \<open>
  C5. A call of \<open>async\<close> that returns has taken the first pool block, filled in the
  message with baseline and deadline as the code computes them, and put it into the timer queue or
  the ready queue at its place, depending on whether its baseline has passed.
\<close>

theorem tt_async:
  assumes "kqueues k (m # pool) mq tq" and "mset ((m # pool) @ mq @ tq @ hs) = ALL_MSGS"
    and "async now bl dl ob me ar k = Inr (m', k')"
  shows "m' = m \<and> (\<exists>base h. base_of k = Inr base
    \<and> h = sent_mem m (base + bl) dl ob me ar (kmem k) \<and> same_data h (kmem k')
    \<and> (if 0 < sint (base + bl - now)
       then kqueues k' pool mq (enq_list (by_baseline h) m tq)
       else kqueues k' pool (enq_list (by_deadline h) m mq) tq))"
  by (rule async_queues [OF assms]) auto

theorem tt_async_witness:
  "\<exists>k'. async 7 0 20 3 4 5 demo = Inr (2, k') \<and> base_of demo = Inr 7
     \<and> kqueues k' [3..<NMSGS] [2, 0] [1]"
proof -
  have "case async 7 0 20 3 4 5 demo of Inl _ \<Rightarrow> False | Inr _ \<Rightarrow> True" by code_simp
  then obtain m k' where r: "async 7 0 20 3 4 5 demo = Inr (m, k')" by (auto split: sum.splits)
  have b: "base_of demo = Inr 7" by (simp add: base_of_def)
  have "enq_list (by_deadline (sent_mem 2 7 20 3 4 5 (kmem demo))) 2 [0] = [2, 0]" by code_simp
  with tt_async [OF demo_queues demo_part r] r b show ?thesis by auto
qed

text \<open>
  C6. Entering any distinct messages one after the other into an empty ready queue leaves the
  linked list that a stable sort by deadline gives, and every loop ends.
\<close>

theorem tt_enqueue_sorts:
  assumes "distinct ps" and "length ps \<le> NMSGS"
  shows "\<exists>h' q'. enq_all enqueueByDeadline ps h None = Inr (h', q')
    \<and> mlist h' q' (sort_key (by_deadline h) ps) \<and> same_data h h'"
  using assms by (rule dlq.enq_all_sorts)

theorem tt_enqueue_sorts_witness:
  "\<exists>h' q'. enq_all enqueueByDeadline [0, 1] (kmem demo) None = Inr (h', q') \<and> mlist h' q' [1, 0]"
proof -
  have "sort_key (by_deadline (kmem demo)) [0, 1] = [1, 0]" by code_simp
  moreover have "distinct [0, 1 :: nat]" "length [0, 1 :: nat] \<le> NMSGS" by (simp_all add: NMSGS_def)
  ultimately show ?thesis using tt_enqueue_sorts [of "[0, 1]" "kmem demo"] by auto
qed



text \<open>
  C8. Aborting a message that is still queued always returns, removes it from its queue and puts
  its block back into the pool, with the order of the rest unchanged.
\<close>

theorem tt_abort_queued:
  assumes "kqueues k pool mq tq" and "mset (pool @ mq @ tq @ hs) = ALL_MSGS" and "m \<in> set (mq @ tq)"
  shows "\<exists>k'. ABORT m k = Inr k' \<and> kqueues k' (m # pool) (remove1 m mq) (remove1 m tq)
    \<and> same_data (kmem k) (kmem k')"
proof -
  have d: "set mq \<inter> set tq = {}" using partition_distinct [OF assms(2)] by auto
  show ?thesis
  proof (cases "m \<in> set tq")
    case True
    with d have "remove1 m mq = mq" by (intro remove1_idem) auto
    with ABORT_timer [OF assms(1,2) True] show ?thesis by simp
  next
    case False
    with ABORT_ready [OF assms(1,2)] assms(3) show ?thesis by (simp add: remove1_idem)
  qed
qed

theorem tt_abort_queued_witness:
  "\<exists>k'. ABORT 1 demo = Inr k' \<and> kqueues k' (1 # 2 # [3..<NMSGS]) [0] []"
  using tt_abort_queued [OF demo_queues demo_part, of 1] by auto

text \<open>
  C13. Aborting the message of a thread that waits for an object puts its block into the pool
  twice: after the thread has resumed and left, the pool is the block linked to itself.
\<close>

theorem tt_abort_waiting_frees_twice:
  "\<exists>k F k1 k3 k4. sys_reach False (k, F) \<and> F (current k) = [FSync 2 True, FRun 2]
     \<and> ABORT 1 k = Inr k1 \<and> sync_resume 2 True (sync_exit 2 True k1) = (False, k3)
     \<and> run_end 1 k3 = Inr k4 \<and> msgPool k4 = Some 1 \<and> m_next (kmem k4 1) = Some 1"
proof -
  have "case trace False 1 busy_trace of None \<Rightarrow> False
     | Some (k, F) \<Rightarrow> F (current k) = [FSync 2 True, FRun 2] \<and>
        (case ABORT 1 k of Inl _ \<Rightarrow> False | Inr k1 \<Rightarrow>
          (case sync_resume 2 True (sync_exit 2 True k1) of (ok, k3) \<Rightarrow> \<not> ok \<and>
             (case run_end 1 k3 of Inl _ \<Rightarrow> False
              | Inr k4 \<Rightarrow> msgPool k4 = Some 1 \<and> m_next (kmem k4 1) = Some 1)))"
    by code_simp
  then obtain k F where s: "sys_reach False (k, F)" "F (current k) = [FSync 2 True, FRun 2]"
      "case ABORT 1 k of Inl _ \<Rightarrow> False | Inr k1 \<Rightarrow>
          (case sync_resume 2 True (sync_exit 2 True k1) of (ok, k3) \<Rightarrow> \<not> ok \<and>
             (case run_end 1 k3 of Inl _ \<Rightarrow> False
              | Inr k4 \<Rightarrow> msgPool k4 = Some 1 \<and> m_next (kmem k4 1) = Some 1))"
    by (rule trace_someE) blast
  from s(3) obtain k1 where k1: "ABORT 1 k = Inr k1" by (auto split: sum.splits)
  obtain ok k3 where k3: "sync_resume 2 True (sync_exit 2 True k1) = (ok, k3)" by fastforce
  with s(3) k1 obtain k4 where "\<not> ok" "run_end 1 k3 = Inr k4" "msgPool k4 = Some 1" "m_next (kmem k4 1) = Some 1"
    by (auto split: sum.splits)
  with s(1,2) k1 k3 show ?thesis
    by (intro exI [of _ k] exI [of _ F] exI [of _ k1] exI [of _ k3] exI [of _ k4]) simp
qed

text \<open>
  C14. A message sent without a deadline at a positive baseline gets a deadline that has wrapped
  to a negative value and is entered in front of every message with a non-negative deadline.
\<close>

theorem tt_no_deadline_goes_first:
  assumes kq: "kqueues k (m # pool) mq tq" and part: "mset ((m # pool) @ mq @ tq @ hs) = ALL_MSGS"
    and base: "base_of k = Inr base" "0 < sint base" "sint (base - now) \<le> 0"
    and mq: "\<forall>a \<in> set mq. 0 \<le> sint (m_deadline (kmem k a))"
    and r: "async now 0 0 ob me ar k = Inr (m', k')"
  shows "kqueues k' pool (m # mq) tq"
proof -
  from async_queues [OF kq part r] obtain b h where e: "base_of k = Inr b"
    "h = sent_mem m (b + 0) 0 ob me ar (kmem k)"
    "kqueues k' pool (if 0 < sint (b + 0 - now) then mq else enq_list (by_deadline h) m mq)
           (if 0 < sint (b + 0 - now) then enq_list (by_baseline h) m tq else tq)" by blast
  have h: "h = sent_mem m base 0 ob me ar (kmem k)" using e(1,2) base(1) by simp
  have neg: "sint (base + INFINITY) < 0"
    using base(2) by (simp add: INFINITY_def sint32_wrap)
  have "m \<notin> set mq" using partition_distinct [OF part] by auto
  then have "enq_list (by_deadline h) m mq = m # mq"
    using mq neg by (cases mq) (auto simp: h sent_mem_def)
  with e(1,3) base show ?thesis by simp
qed
theorem tt_no_deadline_goes_first_witness:
  "\<exists>k'. async 7 0 0 3 4 5 demo = Inr (2, k') \<and> kqueues k' [3..<NMSGS] [2, 0] [1]"
proof -
  have "case async 7 0 0 3 4 5 demo of Inl _ \<Rightarrow> False | Inr (m, _) \<Rightarrow> m = 2" by code_simp
  then obtain k' where r: "async 7 0 0 3 4 5 demo = Inr (2, k')" by (auto split: sum.splits)
  have "base_of demo = Inr 7" "0 < sint (7 :: i32)" "sint (7 - 7 :: i32) \<le> 0"
    "\<forall>a \<in> set [0]. 0 \<le> sint (m_deadline (kmem demo a))"
    by (simp_all add: base_of_def)
  from tt_no_deadline_goes_first [OF demo_queues demo_part this r] r show ?thesis by blast
qed


text \<open>
  C15. A device interrupt whose method sends an immediately ready message while the system is idle
  dereferences the null message of thread0.
\<close>

theorem tt_idle_interrupt_null:
  "\<exists>k F. sys_reach False (k, F) \<and> ENABLED k \<and> mtable k 0 \<noteq> None
     \<and> interrupt (IRQ 0 10 (isr_sends [(10, 0, 0, 1, 0, 0)])) k = Inl NullDeref"
proof -
  have "case tinytimber 0 0 0 None 0 (installs [(1, 0, 0)] boot) of Inl _ \<Rightarrow> False
      | Inr k \<Rightarrow> (case idle k of Inl _ \<Rightarrow> False | Inr k' \<Rightarrow> current k = THREAD0 \<and> ENABLED k'
         \<and> mtable k' 0 = Some 0
         \<and> (case interrupt (IRQ 0 10 (isr_sends [(10, 0, 0, 1, 0, 0)])) k' of Inl e \<Rightarrow> e = NullDeref | Inr _ \<Rightarrow> False))"
    by code_simp
  then obtain k k' where k: "tinytimber 0 0 0 None 0 (installs [(1, 0, 0)] boot) = Inr k" "idle k = Inr k'"
      "current k = THREAD0" "ENABLED k'" "mtable k' 0 = Some 0"
      "interrupt (IRQ 0 10 (isr_sends [(10, 0, 0, 1, 0, 0)])) k' = Inl NullDeref"
    by (auto split: sum.splits)
  have "sys_reach False (k', \<lambda>_. [])"
    by (rule sys_reach.step [OF sys_reach.start [OF k(1)] sys_step.idle [OF k(3,2)]])
  with k(4-6) show ?thesis by blast
qed

end
