(* ===== verification/Stm_Board.thy ===== *)
theory Stm_Board
  imports Prelude
begin

section \<open>Ports, external interrupts and the interrupt controller\<close>

text \<open>
  What the drivers and the kernel use of the board besides CAN and USART: \<open>stm32f4xx_gpio.c\<close>,
  \<open>stm32f4xx_exti.c\<close>, the line selection of \<open>stm32f4xx_syscfg.c\<close> and the NVIC functions of
  \<open>core_cm4.h\<close>. Registers that act when written act in the model: the set/reset halves of \<open>BSRR\<close>
  change \<open>ODR\<close>, a one written to \<open>PR\<close> clears the pending bit, a one written to \<open>ISER\<close> enables.
\<close>

subsection \<open>General purpose ports\<close>

datatype GPIOMode_TypeDef = GPIO_Mode_IN | GPIO_Mode_OUT | GPIO_Mode_AF | GPIO_Mode_AN

fun mode_code :: "GPIOMode_TypeDef \<Rightarrow> u32" where
  "mode_code GPIO_Mode_IN = 0" | "mode_code GPIO_Mode_OUT = 1"
| "mode_code GPIO_Mode_AF = 2" | "mode_code GPIO_Mode_AN = 3"

record GPIO_TypeDef =
  MODER :: u32
  OTYPER :: u32
  OSPEEDR :: u32
  PUPDR :: u32
  IDR :: u32
  ODR :: u32
  LCKR :: u32
  AFR :: "u32 list"

text \<open>Speed, output type and pull are the codes of the enumerations.\<close>

record GPIO_InitTypeDef =
  GPIO_Pin :: u32
  GPIO_Mode :: GPIOMode_TypeDef
  GPIO_Speed :: u32
  GPIO_OType :: u32
  GPIO_PuPd :: u32

text \<open>\<open>reg &= ~(ones << sh); reg |= v << sh;\<close>\<close>

definition set_field :: "u32 \<Rightarrow> nat \<Rightarrow> u32 \<Rightarrow> u32 \<Rightarrow> u32" where
  "set_field ones sh v r = (r AND NOT (push_bit sh ones)) OR push_bit sh v"

definition GPIO_Init_pin :: "GPIO_InitTypeDef \<Rightarrow> nat \<Rightarrow> GPIO_TypeDef \<Rightarrow> GPIO_TypeDef" where
  "GPIO_Init_pin ini p g =
     (if GPIO_Pin ini AND push_bit p 1 = push_bit p 1
      then let g1 = g\<lparr>MODER := set_field 3 (2 * p) (mode_code (GPIO_Mode ini)) (MODER g)\<rparr>;
               g2 = (if GPIO_Mode ini = GPIO_Mode_OUT \<or> GPIO_Mode ini = GPIO_Mode_AF
                     then g1\<lparr>OSPEEDR := set_field 3 (2 * p) (GPIO_Speed ini) (OSPEEDR g1),
                             OTYPER := set_field 1 p (GPIO_OType ini) (OTYPER g1)\<rparr>
                     else g1)
           in g2\<lparr>PUPDR := set_field 3 (2 * p) (GPIO_PuPd ini) (PUPDR g2)\<rparr>
      else g)"

definition GPIO_Init :: "GPIO_InitTypeDef \<Rightarrow> GPIO_TypeDef \<Rightarrow> GPIO_TypeDef" where
  "GPIO_Init ini g = fold (GPIO_Init_pin ini) [0..<16] g"

definition GPIO_StructInit :: GPIO_InitTypeDef where
  "GPIO_StructInit = \<lparr>GPIO_Pin = 0xFFFF, GPIO_Mode = GPIO_Mode_IN, GPIO_Speed = 0, GPIO_OType = 0, GPIO_PuPd = 0\<rparr>"

definition GPIO_PinLockConfig :: "u16 \<Rightarrow> GPIO_TypeDef \<Rightarrow> GPIO_TypeDef" where
  "GPIO_PinLockConfig pins g = g\<lparr>LCKR := 0x00010000 OR ucast pins\<rparr>"

definition GPIO_ReadInputDataBit :: "u16 \<Rightarrow> GPIO_TypeDef \<Rightarrow> u8" where
  "GPIO_ReadInputDataBit pin g = (if IDR g AND ucast pin \<noteq> 0 then 1 else 0)"
definition GPIO_ReadInputData :: "GPIO_TypeDef \<Rightarrow> u16" where "GPIO_ReadInputData g = ucast (IDR g)"
definition GPIO_ReadOutputDataBit :: "u16 \<Rightarrow> GPIO_TypeDef \<Rightarrow> u8" where
  "GPIO_ReadOutputDataBit pin g = (if ODR g AND ucast pin \<noteq> 0 then 1 else 0)"
definition GPIO_ReadOutputData :: "GPIO_TypeDef \<Rightarrow> u16" where "GPIO_ReadOutputData g = ucast (ODR g)"
definition GPIO_SetBits :: "u16 \<Rightarrow> GPIO_TypeDef \<Rightarrow> GPIO_TypeDef" where
  "GPIO_SetBits pins g = g\<lparr>ODR := ODR g OR ucast pins\<rparr>"
definition GPIO_ResetBits :: "u16 \<Rightarrow> GPIO_TypeDef \<Rightarrow> GPIO_TypeDef" where
  "GPIO_ResetBits pins g = g\<lparr>ODR := ODR g AND NOT (ucast pins)\<rparr>"
definition GPIO_WriteBit :: "u16 \<Rightarrow> bool \<Rightarrow> GPIO_TypeDef \<Rightarrow> GPIO_TypeDef" where
  "GPIO_WriteBit pin v g = (if v then GPIO_SetBits pin g else GPIO_ResetBits pin g)"
definition GPIO_Write :: "u16 \<Rightarrow> GPIO_TypeDef \<Rightarrow> GPIO_TypeDef" where
  "GPIO_Write v g = g\<lparr>ODR := ucast v\<rparr>"
definition GPIO_ToggleBits :: "u16 \<Rightarrow> GPIO_TypeDef \<Rightarrow> GPIO_TypeDef" where
  "GPIO_ToggleBits pins g = g\<lparr>ODR := ODR g XOR ucast pins\<rparr>"

text \<open>A pin source beyond 15 writes outside the two registers.\<close>

definition GPIO_PinAFConfig :: "u16 \<Rightarrow> u8 \<Rightarrow> GPIO_TypeDef \<Rightarrow> GPIO_TypeDef res" where
  "GPIO_PinAFConfig src af g =
     (let i = unat (drop_bit 3 src); sh = 4 * unat (src AND 0x07)
      in bnd (aget (AFR g) i) (\<lambda>r. bnd (aset (AFR g) i (set_field 0xF sh (ucast af) r)) (\<lambda>rs. Inr (g\<lparr>AFR := rs\<rparr>))))"

subsection \<open>External interrupt lines\<close>

datatype EXTIMode_TypeDef = EXTI_Mode_Interrupt | EXTI_Mode_Event
datatype EXTITrigger_TypeDef = EXTI_Trigger_Rising | EXTI_Trigger_Falling | EXTI_Trigger_Rising_Falling

record EXTI_TypeDef =
  ex_IMR :: u32
  ex_EMR :: u32
  ex_RTSR :: u32
  ex_FTSR :: u32
  ex_SWIER :: u32
  ex_PR :: u32

record EXTI_InitTypeDef =
  EXTI_Line :: u32
  EXTI_Mode :: EXTIMode_TypeDef
  EXTI_Trigger :: EXTITrigger_TypeDef
  EXTI_LineCmd :: bool

definition EXTI_DeInit :: "EXTI_TypeDef \<Rightarrow> EXTI_TypeDef" where
  "EXTI_DeInit e = e\<lparr>ex_IMR := 0, ex_EMR := 0, ex_RTSR := 0, ex_FTSR := 0, ex_PR := ex_PR e AND NOT 0x007FFFFF\<rparr>"

text \<open>The mode and the trigger are offsets of the register they select.\<close>

definition EXTI_Init :: "EXTI_InitTypeDef \<Rightarrow> EXTI_TypeDef \<Rightarrow> EXTI_TypeDef" where
  "EXTI_Init ini e =
     (let l = EXTI_Line ini
      in if EXTI_LineCmd ini
         then let e1 = e\<lparr>ex_IMR := ex_IMR e AND NOT l, ex_EMR := ex_EMR e AND NOT l\<rparr>;
                  e2 = (case EXTI_Mode ini of
                          EXTI_Mode_Interrupt \<Rightarrow> e1\<lparr>ex_IMR := ex_IMR e1 OR l\<rparr>
                        | EXTI_Mode_Event \<Rightarrow> e1\<lparr>ex_EMR := ex_EMR e1 OR l\<rparr>);
                  e3 = e2\<lparr>ex_RTSR := ex_RTSR e2 AND NOT l, ex_FTSR := ex_FTSR e2 AND NOT l\<rparr>
              in (case EXTI_Trigger ini of
                    EXTI_Trigger_Rising_Falling \<Rightarrow> e3\<lparr>ex_RTSR := ex_RTSR e3 OR l, ex_FTSR := ex_FTSR e3 OR l\<rparr>
                  | EXTI_Trigger_Rising \<Rightarrow> e3\<lparr>ex_RTSR := ex_RTSR e3 OR l\<rparr>
                  | EXTI_Trigger_Falling \<Rightarrow> e3\<lparr>ex_FTSR := ex_FTSR e3 OR l\<rparr>)
         else (case EXTI_Mode ini of
                 EXTI_Mode_Interrupt \<Rightarrow> e\<lparr>ex_IMR := ex_IMR e AND NOT l\<rparr>
               | EXTI_Mode_Event \<Rightarrow> e\<lparr>ex_EMR := ex_EMR e AND NOT l\<rparr>))"

definition EXTI_StructInit :: EXTI_InitTypeDef where
  "EXTI_StructInit = \<lparr>EXTI_Line = 0, EXTI_Mode = EXTI_Mode_Interrupt, EXTI_Trigger = EXTI_Trigger_Falling,
     EXTI_LineCmd = False\<rparr>"

definition EXTI_GenerateSWInterrupt :: "u32 \<Rightarrow> EXTI_TypeDef \<Rightarrow> EXTI_TypeDef" where
  "EXTI_GenerateSWInterrupt l e = e\<lparr>ex_SWIER := ex_SWIER e OR l\<rparr>"
definition EXTI_GetFlagStatus :: "u32 \<Rightarrow> EXTI_TypeDef \<Rightarrow> bool" where
  "EXTI_GetFlagStatus l e = (ex_PR e AND l \<noteq> 0)"
definition EXTI_ClearFlag :: "u32 \<Rightarrow> EXTI_TypeDef \<Rightarrow> EXTI_TypeDef" where
  "EXTI_ClearFlag l e = e\<lparr>ex_PR := ex_PR e AND NOT l\<rparr>"
definition EXTI_GetITStatus :: "u32 \<Rightarrow> EXTI_TypeDef \<Rightarrow> bool" where
  "EXTI_GetITStatus l e = (ex_PR e AND l \<noteq> 0)"
definition EXTI_ClearITPendingBit :: "u32 \<Rightarrow> EXTI_TypeDef \<Rightarrow> EXTI_TypeDef" where
  "EXTI_ClearITPendingBit l e = e\<lparr>ex_PR := ex_PR e AND NOT l\<rparr>"

text \<open>The port that drives a line: four registers of four fields.\<close>

definition SYSCFG_EXTILineConfig :: "u8 \<Rightarrow> u8 \<Rightarrow> u32 list \<Rightarrow> u32 list res" where
  "SYSCFG_EXTILineConfig port src cr =
     (let i = unat (drop_bit 2 src); sh = 4 * unat (src AND 0x03)
      in bnd (aget cr i) (\<lambda>r. aset cr i (set_field 0xF sh (ucast port) r)))"

subsection \<open>The interrupt controller\<close>

record nvic =
  nv_ISER :: "u32 list"
  nv_IP :: "u8 list"
  nv_SHP :: "u8 list"

text \<open>An interrupt number; core exceptions are negative.\<close>

definition NVIC_EnableIRQ :: "nat \<Rightarrow> nvic \<Rightarrow> nvic res" where
  "NVIC_EnableIRQ n v =
     bnd (aget (nv_ISER v) (n div 32)) (\<lambda>r.
     bnd (aset (nv_ISER v) (n div 32) (r OR push_bit (n mod 32) 1)) (\<lambda>rs. Inr (v\<lparr>nv_ISER := rs\<rparr>)))"

definition NVIC_SetPriority :: "int \<Rightarrow> u32 \<Rightarrow> nvic \<Rightarrow> nvic res" where
  "NVIC_SetPriority n prio v =
     (let p = ucast (push_bit 4 prio AND 0xFF)
      in if n < 0
         then bnd (aset (nv_SHP v) (nat (n mod 16) - 4) p) (\<lambda>s. Inr (v\<lparr>nv_SHP := s\<rparr>))
         else bnd (aset (nv_IP v) (nat n) p) (\<lambda>s. Inr (v\<lparr>nv_IP := s\<rparr>)))"

subsection \<open>Configuring a port\<close>

lemma bit_three [reg_bits]: "bit (3 :: int) n \<longleftrightarrow> n < 2"
  using bit_mask_iff [where 'a = int, of 2 n] by (simp add: mask_eq_exp_minus_1)

lemma set_field_bit:
  "bit (set_field ones sh v r) n = (if n < 32 \<and> sh \<le> n \<and> bit ones (n - sh) then bit v (n - sh) else
     bit r n \<or> n < 32 \<and> sh \<le> n \<and> bit v (n - sh))"
  by (auto simp: set_field_def bit_simps dest: bit_imp_le_length)

text \<open>The two bits of pin \<open>p\<close> in a mode, speed or pull register.\<close>

definition pin_field :: "nat \<Rightarrow> u32 \<Rightarrow> u32" where "pin_field p r = drop_bit (2 * p) r AND 3"

lemma pin_field_set:
  assumes "q < 16" and "v AND 3 = v"
  shows "pin_field q (set_field 3 (2 * p) v r) = (if p = q then v else pin_field q r)"
proof (rule bit_word_eqI)
  fix n assume "n < LENGTH(32)"
  then have n: "n < 32" by simp
  have v: "m < 2" if "bit v m" for m
  proof -
    from that assms(2) have "bit (v AND 3) m" by simp
    then show ?thesis by (simp add: bit_simps reg_bits)
  qed
  have apart: "2 * q + n - 2 * p < 2 \<Longrightarrow> 2 * p \<le> 2 * q + n \<Longrightarrow> p = q" if "n < 2" using that by auto
  show "bit (pin_field q (set_field 3 (2 * p) v r)) n = bit (if p = q then v else pin_field q r) n"
  proof (cases "n < 2")
    case True
    with assms(1) apart show ?thesis
      by (cases "p = q") (auto simp: pin_field_def bit_simps set_field_bit reg_bits dest: v)
  next
    case False
    then show ?thesis using v [of n] by (auto simp: pin_field_def bit_simps reg_bits)
  qed
qed

lemma mode_code_small: "mode_code m AND 3 = mode_code m" by (cases m) simp_all

lemma pin_selected:
  assumes "p < 32"
  shows "(x AND push_bit p 1 = push_bit p (1 :: u32)) = bit x p"
proof
  assume "x AND push_bit p 1 = push_bit p (1 :: u32)"
  then have "bit (x AND push_bit p 1) p" using assms by (simp only:) (simp add: bit_simps)
  then show "bit x p" by (simp add: bit_simps)
next
  assume "bit x p"
  then show "x AND push_bit p 1 = push_bit p (1 :: u32)"
    by (intro bit_word_eqI) (auto simp: bit_simps)
qed

lemma GPIO_Init_pin_fields:
  assumes "p < 16"
  shows "MODER (GPIO_Init_pin ini p g)
       = (if bit (GPIO_Pin ini) p then set_field 3 (2 * p) (mode_code (GPIO_Mode ini)) (MODER g) else MODER g)"
    and "PUPDR (GPIO_Init_pin ini p g)
       = (if bit (GPIO_Pin ini) p then set_field 3 (2 * p) (GPIO_PuPd ini) (PUPDR g) else PUPDR g)"
  using pin_selected [of p "GPIO_Pin ini"] assms
  by (simp_all only: GPIO_Init_pin_def Let_def split: if_split) simp_all

lemma GPIO_Init_pins:
  assumes "q < 16" and "GPIO_PuPd ini AND 3 = GPIO_PuPd ini" and "n \<le> 16"
  shows "pin_field q (MODER (fold (GPIO_Init_pin ini) [0..<n] g))
       = (if q < n \<and> bit (GPIO_Pin ini) q then mode_code (GPIO_Mode ini) else pin_field q (MODER g))
    \<and> pin_field q (PUPDR (fold (GPIO_Init_pin ini) [0..<n] g))
       = (if q < n \<and> bit (GPIO_Pin ini) q then GPIO_PuPd ini else pin_field q (PUPDR g))"
  using assms(3)
proof (induction n)
  case (Suc n)
  then have "n < 16" by simp
  with Suc assms(1,2) show ?case
    by (auto simp: GPIO_Init_pin_fields pin_field_set mode_code_small less_Suc_eq)
qed simp

end
