(* ===== verification/Stm_Tim.thy ===== *)
theory Stm_Tim
  imports Prelude
begin

section \<open>The timers\<close>

text \<open>
  \<open>lib/md407/src/stm32f4xx_tim.c\<close> on the registers of one timer; where the code asks which timer it has, the number in
  the timer's name is the first argument. A zero written to \<open>SR\<close> clears the flag; \<open>EGR\<close> holds the event last written.
  The reset of a timer goes through the clock controller and is in \<open>Stm_Startup\<close>.
\<close>

record TIM_TypeDef =
  tim_CR1 :: u16
  tim_CR2 :: u16
  tim_SMCR :: u16
  tim_DIER :: u16
  tim_SR :: u16
  tim_EGR :: u16
  tim_CCMR1 :: u16
  tim_CCMR2 :: u16
  tim_CCER :: u16
  tim_CNT :: u32
  tim_PSC :: u16
  tim_ARR :: u32
  tim_RCR :: u16
  tim_CCR1 :: u32
  tim_CCR2 :: u32
  tim_CCR3 :: u32
  tim_CCR4 :: u32
  tim_BDTR :: u16
  tim_DCR :: u16
  tim_DMAR :: u16
  tim_OR :: u16

subsection \<open>Time base\<close>

record TIM_TimeBaseInitTypeDef =
  TIM_Prescaler :: u16
  TIM_CounterMode :: u16
  TIM_Period :: u32
  TIM_ClockDivision :: u16
  TIM_RepetitionCounter :: u8

definition TIM_TimeBaseInit :: "nat \<Rightarrow> TIM_TimeBaseInitTypeDef \<Rightarrow> TIM_TypeDef \<Rightarrow> TIM_TypeDef" where
  "TIM_TimeBaseInit n ini t =
     (let c = tim_CR1 t;
          c = (if n = 1 \<or> n = 8 \<or> n = 2 \<or> n = 3 \<or> n = 4 \<or> n = 5
               then (c AND NOT (0x0010 OR 0x0060)) OR TIM_CounterMode ini else c);
          c = (if n \<noteq> 6 \<and> n \<noteq> 7 then (c AND NOT 0x0300) OR TIM_ClockDivision ini else c);
          t = t\<lparr>tim_CR1 := c, tim_ARR := TIM_Period ini, tim_PSC := TIM_Prescaler ini\<rparr>;
          t = (if n = 1 \<or> n = 8 then t\<lparr>tim_RCR := ucast (TIM_RepetitionCounter ini)\<rparr> else t)
      in t\<lparr>tim_EGR := 1\<rparr>)"

definition TIM_TimeBaseStructInit :: TIM_TimeBaseInitTypeDef where
  "TIM_TimeBaseStructInit =
     \<lparr>TIM_Prescaler = 0, TIM_CounterMode = 0, TIM_Period = 0xFFFFFFFF, TIM_ClockDivision = 0, TIM_RepetitionCounter = 0\<rparr>"

definition TIM_PrescalerConfig :: "u16 \<Rightarrow> u16 \<Rightarrow> TIM_TypeDef \<Rightarrow> TIM_TypeDef" where
  "TIM_PrescalerConfig p mode t = t\<lparr>tim_PSC := p, tim_EGR := mode\<rparr>"
definition TIM_CounterModeConfig :: "u16 \<Rightarrow> TIM_TypeDef \<Rightarrow> TIM_TypeDef" where
  "TIM_CounterModeConfig v t = t\<lparr>tim_CR1 := (tim_CR1 t AND NOT (0x0010 OR 0x0060)) OR v\<rparr>"
definition TIM_SetCounter :: "u32 \<Rightarrow> TIM_TypeDef \<Rightarrow> TIM_TypeDef" where "TIM_SetCounter n t = t\<lparr>tim_CNT := n\<rparr>"
definition TIM_SetAutoreload :: "u32 \<Rightarrow> TIM_TypeDef \<Rightarrow> TIM_TypeDef" where "TIM_SetAutoreload n t = t\<lparr>tim_ARR := n\<rparr>"
definition TIM_GetCounter :: "TIM_TypeDef \<Rightarrow> u32" where "TIM_GetCounter t = tim_CNT t"
definition TIM_GetPrescaler :: "TIM_TypeDef \<Rightarrow> u16" where "TIM_GetPrescaler t = tim_PSC t"
definition TIM_UpdateDisableConfig :: "bool \<Rightarrow> TIM_TypeDef \<Rightarrow> TIM_TypeDef" where
  "TIM_UpdateDisableConfig b t = t\<lparr>tim_CR1 := put_bits b 0x0002 (tim_CR1 t)\<rparr>"
definition TIM_UpdateRequestConfig :: "u16 \<Rightarrow> TIM_TypeDef \<Rightarrow> TIM_TypeDef" where
  "TIM_UpdateRequestConfig src t = t\<lparr>tim_CR1 := put_bits (src \<noteq> 0) 0x0004 (tim_CR1 t)\<rparr>"
definition TIM_ARRPreloadConfig :: "bool \<Rightarrow> TIM_TypeDef \<Rightarrow> TIM_TypeDef" where
  "TIM_ARRPreloadConfig b t = t\<lparr>tim_CR1 := put_bits b 0x0080 (tim_CR1 t)\<rparr>"
definition TIM_SelectOnePulseMode :: "u16 \<Rightarrow> TIM_TypeDef \<Rightarrow> TIM_TypeDef" where
  "TIM_SelectOnePulseMode v t = t\<lparr>tim_CR1 := (tim_CR1 t AND NOT 0x0008) OR v\<rparr>"
definition TIM_SetClockDivision :: "u16 \<Rightarrow> TIM_TypeDef \<Rightarrow> TIM_TypeDef" where
  "TIM_SetClockDivision v t = t\<lparr>tim_CR1 := (tim_CR1 t AND NOT 0x0300) OR v\<rparr>"
definition TIM_Cmd :: "bool \<Rightarrow> TIM_TypeDef \<Rightarrow> TIM_TypeDef" where
  "TIM_Cmd b t = t\<lparr>tim_CR1 := put_bits b 0x0001 (tim_CR1 t)\<rparr>"

subsection \<open>Output compare\<close>

record TIM_OCInitTypeDef =
  TIM_OCMode :: u16
  TIM_OutputState :: u16
  TIM_OutputNState :: u16
  TIM_Pulse :: u32
  TIM_OCPolarity :: u16
  TIM_OCNPolarity :: u16
  TIM_OCIdleState :: u16
  TIM_OCNIdleState :: u16

definition TIM_OC1Init :: "nat \<Rightarrow> TIM_OCInitTypeDef \<Rightarrow> TIM_TypeDef \<Rightarrow> TIM_TypeDef" where
  "TIM_OC1Init n ini t =
     (let t = t\<lparr>tim_CCER := tim_CCER t AND NOT 0x0001\<rparr>;
          ccer = tim_CCER t; cr2 = tim_CR2 t; ccmr = tim_CCMR1 t;
          ccmr = ((ccmr AND NOT 0x0070) AND NOT 0x0003) OR TIM_OCMode ini;
          ccer = ((ccer AND NOT 0x0002) OR TIM_OCPolarity ini) OR TIM_OutputState ini;
          (ccer, cr2) =
            (if n = 1 \<or> n = 8
             then ((((ccer AND NOT 0x0008) OR TIM_OCNPolarity ini) AND NOT 0x0004) OR TIM_OutputNState ini,
                   (((cr2 AND NOT 0x0100) AND NOT 0x0200) OR TIM_OCIdleState ini) OR TIM_OCNIdleState ini)
             else (ccer, cr2))
      in t\<lparr>tim_CR2 := cr2, tim_CCMR1 := ccmr, tim_CCR1 := TIM_Pulse ini, tim_CCER := ccer\<rparr>)"

definition TIM_OC2Init :: "nat \<Rightarrow> TIM_OCInitTypeDef \<Rightarrow> TIM_TypeDef \<Rightarrow> TIM_TypeDef" where
  "TIM_OC2Init n ini t =
     (let t = t\<lparr>tim_CCER := tim_CCER t AND NOT 0x0010\<rparr>;
          ccer = tim_CCER t; cr2 = tim_CR2 t; ccmr = tim_CCMR1 t;
          ccmr = ((ccmr AND NOT 0x7000) AND NOT 0x0300) OR push_bit 8 (TIM_OCMode ini);
          ccer = ((ccer AND NOT 0x0020) OR push_bit 4 (TIM_OCPolarity ini)) OR push_bit 4 (TIM_OutputState ini);
          (ccer, cr2) =
            (if n = 1 \<or> n = 8
             then ((((ccer AND NOT 0x0080) OR push_bit 4 (TIM_OCNPolarity ini)) AND NOT 0x0040) OR push_bit 4 (TIM_OutputNState ini),
                   (((cr2 AND NOT 0x0400) AND NOT 0x0800) OR push_bit 2 (TIM_OCIdleState ini)) OR push_bit 2 (TIM_OCNIdleState ini))
             else (ccer, cr2))
      in t\<lparr>tim_CR2 := cr2, tim_CCMR1 := ccmr, tim_CCR2 := TIM_Pulse ini, tim_CCER := ccer\<rparr>)"

definition TIM_OC3Init :: "nat \<Rightarrow> TIM_OCInitTypeDef \<Rightarrow> TIM_TypeDef \<Rightarrow> TIM_TypeDef" where
  "TIM_OC3Init n ini t =
     (let t = t\<lparr>tim_CCER := tim_CCER t AND NOT 0x0100\<rparr>;
          ccer = tim_CCER t; cr2 = tim_CR2 t; ccmr = tim_CCMR2 t;
          ccmr = ((ccmr AND NOT 0x0070) AND NOT 0x0003) OR TIM_OCMode ini;
          ccer = ((ccer AND NOT 0x0200) OR push_bit 8 (TIM_OCPolarity ini)) OR push_bit 8 (TIM_OutputState ini);
          (ccer, cr2) =
            (if n = 1 \<or> n = 8
             then ((((ccer AND NOT 0x0800) OR push_bit 8 (TIM_OCNPolarity ini)) AND NOT 0x0400) OR push_bit 8 (TIM_OutputNState ini),
                   (((cr2 AND NOT 0x1000) AND NOT 0x2000) OR push_bit 4 (TIM_OCIdleState ini)) OR push_bit 4 (TIM_OCNIdleState ini))
             else (ccer, cr2))
      in t\<lparr>tim_CR2 := cr2, tim_CCMR2 := ccmr, tim_CCR3 := TIM_Pulse ini, tim_CCER := ccer\<rparr>)"

definition TIM_OC4Init :: "nat \<Rightarrow> TIM_OCInitTypeDef \<Rightarrow> TIM_TypeDef \<Rightarrow> TIM_TypeDef" where
  "TIM_OC4Init n ini t =
     (let t = t\<lparr>tim_CCER := tim_CCER t AND NOT 0x1000\<rparr>;
          ccer = tim_CCER t; cr2 = tim_CR2 t; ccmr = tim_CCMR2 t;
          ccmr = ((ccmr AND NOT 0x7000) AND NOT 0x0300) OR push_bit 8 (TIM_OCMode ini);
          ccer = ((ccer AND NOT 0x2000) OR push_bit 12 (TIM_OCPolarity ini)) OR push_bit 12 (TIM_OutputState ini);
          cr2 = (if n = 1 \<or> n = 8 then (cr2 AND NOT 0x4000) OR push_bit 6 (TIM_OCIdleState ini) else cr2)
      in t\<lparr>tim_CR2 := cr2, tim_CCMR2 := ccmr, tim_CCR4 := TIM_Pulse ini, tim_CCER := ccer\<rparr>)"

definition TIM_OCStructInit :: TIM_OCInitTypeDef where
  "TIM_OCStructInit =
     \<lparr>TIM_OCMode = 0, TIM_OutputState = 0, TIM_OutputNState = 0, TIM_Pulse = 0, TIM_OCPolarity = 0, TIM_OCNPolarity = 0,
      TIM_OCIdleState = 0, TIM_OCNIdleState = 0\<rparr>"

text \<open>
  The mode register is reached by its address: at distance 0 from \<open>CCMR1\<close> is \<open>CCMR1\<close>, at distance 4 \<open>CCMR2\<close>; a
  store elsewhere, which no channel of the header gives, is a fault.
\<close>

definition TIM_SelectOCxM :: "u16 \<Rightarrow> u16 \<Rightarrow> TIM_TypeDef \<Rightarrow> TIM_TypeDef res" where
  "TIM_SelectOCxM ch mode t =
     (let t = t\<lparr>tim_CCER := tim_CCER t AND NOT (push_bit (unat ch) 1)\<rparr>;
          odd_channel = (ch = 0x0000 \<or> ch = 0x0008);
          off = (if odd_channel then drop_bit 1 ch else drop_bit 1 (ch - 4));
          upd = (\<lambda>r. if odd_channel then (r AND 0xFF8F) OR mode else (r AND 0x8FFF) OR push_bit 8 mode)
      in if off = 0 then Inr (t\<lparr>tim_CCMR1 := upd (tim_CCMR1 t)\<rparr>)
         else if off = 4 then Inr (t\<lparr>tim_CCMR2 := upd (tim_CCMR2 t)\<rparr>)
         else Inl BadPointer)"

definition TIM_SetCompare1 :: "u32 \<Rightarrow> TIM_TypeDef \<Rightarrow> TIM_TypeDef" where
  "TIM_SetCompare1 n t = t\<lparr>tim_CCR1 := n\<rparr>"
definition TIM_SetCompare2 :: "u32 \<Rightarrow> TIM_TypeDef \<Rightarrow> TIM_TypeDef" where
  "TIM_SetCompare2 n t = t\<lparr>tim_CCR2 := n\<rparr>"
definition TIM_SetCompare3 :: "u32 \<Rightarrow> TIM_TypeDef \<Rightarrow> TIM_TypeDef" where
  "TIM_SetCompare3 n t = t\<lparr>tim_CCR3 := n\<rparr>"
definition TIM_SetCompare4 :: "u32 \<Rightarrow> TIM_TypeDef \<Rightarrow> TIM_TypeDef" where
  "TIM_SetCompare4 n t = t\<lparr>tim_CCR4 := n\<rparr>"
definition TIM_ForcedOC1Config :: "u16 \<Rightarrow> TIM_TypeDef \<Rightarrow> TIM_TypeDef" where
  "TIM_ForcedOC1Config v t = t\<lparr>tim_CCMR1 := (tim_CCMR1 t AND NOT 0x0070) OR v\<rparr>"
definition TIM_ForcedOC2Config :: "u16 \<Rightarrow> TIM_TypeDef \<Rightarrow> TIM_TypeDef" where
  "TIM_ForcedOC2Config v t = t\<lparr>tim_CCMR1 := (tim_CCMR1 t AND NOT 0x7000) OR push_bit 8 v\<rparr>"
definition TIM_ForcedOC3Config :: "u16 \<Rightarrow> TIM_TypeDef \<Rightarrow> TIM_TypeDef" where
  "TIM_ForcedOC3Config v t = t\<lparr>tim_CCMR2 := (tim_CCMR2 t AND NOT 0x0070) OR v\<rparr>"
definition TIM_ForcedOC4Config :: "u16 \<Rightarrow> TIM_TypeDef \<Rightarrow> TIM_TypeDef" where
  "TIM_ForcedOC4Config v t = t\<lparr>tim_CCMR2 := (tim_CCMR2 t AND NOT 0x7000) OR push_bit 8 v\<rparr>"
definition TIM_OC1PreloadConfig :: "u16 \<Rightarrow> TIM_TypeDef \<Rightarrow> TIM_TypeDef" where
  "TIM_OC1PreloadConfig v t = t\<lparr>tim_CCMR1 := (tim_CCMR1 t AND NOT 0x0008) OR v\<rparr>"
definition TIM_OC2PreloadConfig :: "u16 \<Rightarrow> TIM_TypeDef \<Rightarrow> TIM_TypeDef" where
  "TIM_OC2PreloadConfig v t = t\<lparr>tim_CCMR1 := (tim_CCMR1 t AND NOT 0x0800) OR push_bit 8 v\<rparr>"
definition TIM_OC3PreloadConfig :: "u16 \<Rightarrow> TIM_TypeDef \<Rightarrow> TIM_TypeDef" where
  "TIM_OC3PreloadConfig v t = t\<lparr>tim_CCMR2 := (tim_CCMR2 t AND NOT 0x0008) OR v\<rparr>"
definition TIM_OC4PreloadConfig :: "u16 \<Rightarrow> TIM_TypeDef \<Rightarrow> TIM_TypeDef" where
  "TIM_OC4PreloadConfig v t = t\<lparr>tim_CCMR2 := (tim_CCMR2 t AND NOT 0x0800) OR push_bit 8 v\<rparr>"
definition TIM_OC1FastConfig :: "u16 \<Rightarrow> TIM_TypeDef \<Rightarrow> TIM_TypeDef" where
  "TIM_OC1FastConfig v t = t\<lparr>tim_CCMR1 := (tim_CCMR1 t AND NOT 0x0004) OR v\<rparr>"
definition TIM_OC2FastConfig :: "u16 \<Rightarrow> TIM_TypeDef \<Rightarrow> TIM_TypeDef" where
  "TIM_OC2FastConfig v t = t\<lparr>tim_CCMR1 := (tim_CCMR1 t AND NOT 0x0400) OR push_bit 8 v\<rparr>"
definition TIM_OC3FastConfig :: "u16 \<Rightarrow> TIM_TypeDef \<Rightarrow> TIM_TypeDef" where
  "TIM_OC3FastConfig v t = t\<lparr>tim_CCMR2 := (tim_CCMR2 t AND NOT 0x0004) OR v\<rparr>"
definition TIM_OC4FastConfig :: "u16 \<Rightarrow> TIM_TypeDef \<Rightarrow> TIM_TypeDef" where
  "TIM_OC4FastConfig v t = t\<lparr>tim_CCMR2 := (tim_CCMR2 t AND NOT 0x0400) OR push_bit 8 v\<rparr>"
definition TIM_ClearOC1Ref :: "u16 \<Rightarrow> TIM_TypeDef \<Rightarrow> TIM_TypeDef" where
  "TIM_ClearOC1Ref v t = t\<lparr>tim_CCMR1 := (tim_CCMR1 t AND NOT 0x0080) OR v\<rparr>"
definition TIM_ClearOC2Ref :: "u16 \<Rightarrow> TIM_TypeDef \<Rightarrow> TIM_TypeDef" where
  "TIM_ClearOC2Ref v t = t\<lparr>tim_CCMR1 := (tim_CCMR1 t AND NOT 0x8000) OR push_bit 8 v\<rparr>"
definition TIM_ClearOC3Ref :: "u16 \<Rightarrow> TIM_TypeDef \<Rightarrow> TIM_TypeDef" where
  "TIM_ClearOC3Ref v t = t\<lparr>tim_CCMR2 := (tim_CCMR2 t AND NOT 0x0080) OR v\<rparr>"
definition TIM_ClearOC4Ref :: "u16 \<Rightarrow> TIM_TypeDef \<Rightarrow> TIM_TypeDef" where
  "TIM_ClearOC4Ref v t = t\<lparr>tim_CCMR2 := (tim_CCMR2 t AND NOT 0x8000) OR push_bit 8 v\<rparr>"
definition TIM_OC1PolarityConfig :: "u16 \<Rightarrow> TIM_TypeDef \<Rightarrow> TIM_TypeDef" where
  "TIM_OC1PolarityConfig v t = t\<lparr>tim_CCER := (tim_CCER t AND NOT 0x0002) OR v\<rparr>"
definition TIM_OC1NPolarityConfig :: "u16 \<Rightarrow> TIM_TypeDef \<Rightarrow> TIM_TypeDef" where
  "TIM_OC1NPolarityConfig v t = t\<lparr>tim_CCER := (tim_CCER t AND NOT 0x0008) OR v\<rparr>"
definition TIM_OC2PolarityConfig :: "u16 \<Rightarrow> TIM_TypeDef \<Rightarrow> TIM_TypeDef" where
  "TIM_OC2PolarityConfig v t = t\<lparr>tim_CCER := (tim_CCER t AND NOT 0x0020) OR push_bit 4 v\<rparr>"
definition TIM_OC2NPolarityConfig :: "u16 \<Rightarrow> TIM_TypeDef \<Rightarrow> TIM_TypeDef" where
  "TIM_OC2NPolarityConfig v t = t\<lparr>tim_CCER := (tim_CCER t AND NOT 0x0080) OR push_bit 4 v\<rparr>"
definition TIM_OC3PolarityConfig :: "u16 \<Rightarrow> TIM_TypeDef \<Rightarrow> TIM_TypeDef" where
  "TIM_OC3PolarityConfig v t = t\<lparr>tim_CCER := (tim_CCER t AND NOT 0x0200) OR push_bit 8 v\<rparr>"
definition TIM_OC3NPolarityConfig :: "u16 \<Rightarrow> TIM_TypeDef \<Rightarrow> TIM_TypeDef" where
  "TIM_OC3NPolarityConfig v t = t\<lparr>tim_CCER := (tim_CCER t AND NOT 0x0800) OR push_bit 8 v\<rparr>"
definition TIM_OC4PolarityConfig :: "u16 \<Rightarrow> TIM_TypeDef \<Rightarrow> TIM_TypeDef" where
  "TIM_OC4PolarityConfig v t = t\<lparr>tim_CCER := (tim_CCER t AND NOT 0x2000) OR push_bit 12 v\<rparr>"
definition TIM_CCxCmd :: "u16 \<Rightarrow> u16 \<Rightarrow> TIM_TypeDef \<Rightarrow> TIM_TypeDef" where
  "TIM_CCxCmd ch v t = t\<lparr>tim_CCER := (tim_CCER t AND NOT (push_bit (unat ch) 0x0001)) OR push_bit (unat ch) v\<rparr>"
definition TIM_CCxNCmd :: "u16 \<Rightarrow> u16 \<Rightarrow> TIM_TypeDef \<Rightarrow> TIM_TypeDef" where
  "TIM_CCxNCmd ch v t = t\<lparr>tim_CCER := (tim_CCER t AND NOT (push_bit (unat ch) 0x0004)) OR push_bit (unat ch) v\<rparr>"

subsection \<open>Input capture\<close>

record TIM_ICInitTypeDef =
  TIM_Channel :: u16
  TIM_ICPolarity :: u16
  TIM_ICSelection :: u16
  TIM_ICPrescaler :: u16
  TIM_ICFilter :: u16

definition TIM_SetIC1Prescaler :: "u16 \<Rightarrow> TIM_TypeDef \<Rightarrow> TIM_TypeDef" where
  "TIM_SetIC1Prescaler v t = t\<lparr>tim_CCMR1 := (tim_CCMR1 t AND NOT 0x000C) OR v\<rparr>"
definition TIM_SetIC2Prescaler :: "u16 \<Rightarrow> TIM_TypeDef \<Rightarrow> TIM_TypeDef" where
  "TIM_SetIC2Prescaler v t = t\<lparr>tim_CCMR1 := (tim_CCMR1 t AND NOT 0x0C00) OR push_bit 8 v\<rparr>"
definition TIM_SetIC3Prescaler :: "u16 \<Rightarrow> TIM_TypeDef \<Rightarrow> TIM_TypeDef" where
  "TIM_SetIC3Prescaler v t = t\<lparr>tim_CCMR2 := (tim_CCMR2 t AND NOT 0x000C) OR v\<rparr>"
definition TIM_SetIC4Prescaler :: "u16 \<Rightarrow> TIM_TypeDef \<Rightarrow> TIM_TypeDef" where
  "TIM_SetIC4Prescaler v t = t\<lparr>tim_CCMR2 := (tim_CCMR2 t AND NOT 0x0C00) OR push_bit 8 v\<rparr>"
definition TI1_Config :: "u16 \<Rightarrow> u16 \<Rightarrow> u16 \<Rightarrow> TIM_TypeDef \<Rightarrow> TIM_TypeDef" where
  "TI1_Config pol sel flt t =
     (let t = t\<lparr>tim_CCER := tim_CCER t AND NOT 0x0001\<rparr>; ccmr = tim_CCMR1 t; ccer = tim_CCER t;
          ccmr = (ccmr AND (NOT 0x0003 AND NOT 0x00F0)) OR (sel OR push_bit 4 flt);
          ccer = (ccer AND NOT (0x0002 OR 0x0008)) OR (pol OR 0x0001)
      in t\<lparr>tim_CCMR1 := ccmr, tim_CCER := ccer\<rparr>)"

definition TI2_Config :: "u16 \<Rightarrow> u16 \<Rightarrow> u16 \<Rightarrow> TIM_TypeDef \<Rightarrow> TIM_TypeDef" where
  "TI2_Config pol sel flt t =
     (let t = t\<lparr>tim_CCER := tim_CCER t AND NOT 0x0010\<rparr>; ccmr = tim_CCMR1 t; ccer = tim_CCER t;
          ccmr = ((ccmr AND (NOT 0x0300 AND NOT 0xF000)) OR push_bit 12 flt) OR push_bit 8 sel;
          ccer = (ccer AND NOT (0x0020 OR 0x0080)) OR (push_bit 4 pol OR 0x0010)
      in t\<lparr>tim_CCMR1 := ccmr, tim_CCER := ccer\<rparr>)"

definition TI3_Config :: "u16 \<Rightarrow> u16 \<Rightarrow> u16 \<Rightarrow> TIM_TypeDef \<Rightarrow> TIM_TypeDef" where
  "TI3_Config pol sel flt t =
     (let t = t\<lparr>tim_CCER := tim_CCER t AND NOT 0x0100\<rparr>; ccmr = tim_CCMR2 t; ccer = tim_CCER t;
          ccmr = (ccmr AND (NOT 0x0003 AND NOT 0x00F0)) OR (sel OR push_bit 4 flt);
          ccer = (ccer AND NOT (0x0200 OR 0x0800)) OR (push_bit 8 pol OR 0x0100)
      in t\<lparr>tim_CCMR2 := ccmr, tim_CCER := ccer\<rparr>)"

definition TI4_Config :: "u16 \<Rightarrow> u16 \<Rightarrow> u16 \<Rightarrow> TIM_TypeDef \<Rightarrow> TIM_TypeDef" where
  "TI4_Config pol sel flt t =
     (let t = t\<lparr>tim_CCER := tim_CCER t AND NOT 0x1000\<rparr>; ccmr = tim_CCMR2 t; ccer = tim_CCER t;
          ccmr = ((ccmr AND (NOT 0x0300 AND NOT 0xF000)) OR push_bit 8 sel) OR push_bit 12 flt;
          ccer = (ccer AND NOT (0x2000 OR 0x8000)) OR (push_bit 12 pol OR 0x1000)
      in t\<lparr>tim_CCMR2 := ccmr, tim_CCER := ccer\<rparr>)"

definition TIM_ICInit :: "TIM_ICInitTypeDef \<Rightarrow> TIM_TypeDef \<Rightarrow> TIM_TypeDef" where
  "TIM_ICInit ini t =
     (if TIM_Channel ini = 0x0000
      then TIM_SetIC1Prescaler (TIM_ICPrescaler ini) (TI1_Config (TIM_ICPolarity ini) (TIM_ICSelection ini) (TIM_ICFilter ini) t)
      else if TIM_Channel ini = 0x0004
      then TIM_SetIC2Prescaler (TIM_ICPrescaler ini) (TI2_Config (TIM_ICPolarity ini) (TIM_ICSelection ini) (TIM_ICFilter ini) t)
      else if TIM_Channel ini = 0x0008
      then TIM_SetIC3Prescaler (TIM_ICPrescaler ini) (TI3_Config (TIM_ICPolarity ini) (TIM_ICSelection ini) (TIM_ICFilter ini) t)
      else TIM_SetIC4Prescaler (TIM_ICPrescaler ini) (TI4_Config (TIM_ICPolarity ini) (TIM_ICSelection ini) (TIM_ICFilter ini) t))"

definition TIM_ICStructInit :: TIM_ICInitTypeDef where
  "TIM_ICStructInit =
     \<lparr>TIM_Channel = 0x0000, TIM_ICPolarity = 0x0000, TIM_ICSelection = 0x0001, TIM_ICPrescaler = 0x0000, TIM_ICFilter = 0x00\<rparr>"

definition TIM_PWMIConfig :: "TIM_ICInitTypeDef \<Rightarrow> TIM_TypeDef \<Rightarrow> TIM_TypeDef" where
  "TIM_PWMIConfig ini t =
     (let pol = (if TIM_ICPolarity ini = 0x0000 then 0x0002 else 0x0000);
          sel = (if TIM_ICSelection ini = 0x0001 then 0x0002 else 0x0001)
      in if TIM_Channel ini = 0x0000
         then let t = TIM_SetIC1Prescaler (TIM_ICPrescaler ini)
                        (TI1_Config (TIM_ICPolarity ini) (TIM_ICSelection ini) (TIM_ICFilter ini) t)
              in TIM_SetIC2Prescaler (TIM_ICPrescaler ini) (TI2_Config pol sel (TIM_ICFilter ini) t)
         else let t = TIM_SetIC2Prescaler (TIM_ICPrescaler ini)
                        (TI2_Config (TIM_ICPolarity ini) (TIM_ICSelection ini) (TIM_ICFilter ini) t)
              in TIM_SetIC1Prescaler (TIM_ICPrescaler ini) (TI1_Config pol sel (TIM_ICFilter ini) t))"

definition TIM_GetCapture1 :: "TIM_TypeDef \<Rightarrow> u32" where "TIM_GetCapture1 t = tim_CCR1 t"
definition TIM_GetCapture2 :: "TIM_TypeDef \<Rightarrow> u32" where "TIM_GetCapture2 t = tim_CCR2 t"
definition TIM_GetCapture3 :: "TIM_TypeDef \<Rightarrow> u32" where "TIM_GetCapture3 t = tim_CCR3 t"
definition TIM_GetCapture4 :: "TIM_TypeDef \<Rightarrow> u32" where "TIM_GetCapture4 t = tim_CCR4 t"

subsection \<open>Break, dead time and complementary outputs\<close>

record TIM_BDTRInitTypeDef =
  TIM_OSSRState :: u16
  TIM_OSSIState :: u16
  TIM_LOCKLevel :: u16
  TIM_DeadTime :: u16
  TIM_Break :: u16
  TIM_BreakPolarity :: u16
  TIM_AutomaticOutput :: u16

definition TIM_BDTRConfig :: "TIM_BDTRInitTypeDef \<Rightarrow> TIM_TypeDef \<Rightarrow> TIM_TypeDef" where
  "TIM_BDTRConfig ini t =
     t\<lparr>tim_BDTR := TIM_OSSRState ini OR TIM_OSSIState ini OR TIM_LOCKLevel ini OR TIM_DeadTime ini OR TIM_Break ini OR
                   TIM_BreakPolarity ini OR TIM_AutomaticOutput ini\<rparr>"
definition TIM_BDTRStructInit :: TIM_BDTRInitTypeDef where
  "TIM_BDTRStructInit =
     \<lparr>TIM_OSSRState = 0, TIM_OSSIState = 0, TIM_LOCKLevel = 0, TIM_DeadTime = 0, TIM_Break = 0, TIM_BreakPolarity = 0,
      TIM_AutomaticOutput = 0\<rparr>"
definition TIM_CtrlPWMOutputs :: "bool \<Rightarrow> TIM_TypeDef \<Rightarrow> TIM_TypeDef" where
  "TIM_CtrlPWMOutputs b t = t\<lparr>tim_BDTR := put_bits b 0x8000 (tim_BDTR t)\<rparr>"
definition TIM_SelectCOM :: "bool \<Rightarrow> TIM_TypeDef \<Rightarrow> TIM_TypeDef" where
  "TIM_SelectCOM b t = t\<lparr>tim_CR2 := put_bits b 0x0004 (tim_CR2 t)\<rparr>"
definition TIM_CCPreloadControl :: "bool \<Rightarrow> TIM_TypeDef \<Rightarrow> TIM_TypeDef" where
  "TIM_CCPreloadControl b t = t\<lparr>tim_CR2 := put_bits b 0x0001 (tim_CR2 t)\<rparr>"

subsection \<open>Interrupts, flags and direct memory access\<close>

definition TIM_ITConfig :: "u16 \<Rightarrow> bool \<Rightarrow> TIM_TypeDef \<Rightarrow> TIM_TypeDef" where
  "TIM_ITConfig it b t = t\<lparr>tim_DIER := put_bits b it (tim_DIER t)\<rparr>"
definition TIM_GenerateEvent :: "u16 \<Rightarrow> TIM_TypeDef \<Rightarrow> TIM_TypeDef" where
  "TIM_GenerateEvent src t = t\<lparr>tim_EGR := src\<rparr>"
definition TIM_GetFlagStatus :: "u16 \<Rightarrow> TIM_TypeDef \<Rightarrow> bool" where
  "TIM_GetFlagStatus flag t = (tim_SR t AND flag \<noteq> 0)"
definition TIM_ClearFlag :: "u16 \<Rightarrow> TIM_TypeDef \<Rightarrow> TIM_TypeDef" where
  "TIM_ClearFlag flag t = t\<lparr>tim_SR := tim_SR t AND NOT flag\<rparr>"
definition TIM_GetITStatus :: "u16 \<Rightarrow> TIM_TypeDef \<Rightarrow> bool" where
  "TIM_GetITStatus it t = (tim_SR t AND it \<noteq> 0 \<and> tim_DIER t AND it \<noteq> 0)"
definition TIM_ClearITPendingBit :: "u16 \<Rightarrow> TIM_TypeDef \<Rightarrow> TIM_TypeDef" where
  "TIM_ClearITPendingBit it t = t\<lparr>tim_SR := tim_SR t AND NOT it\<rparr>"
definition TIM_DMAConfig :: "u16 \<Rightarrow> u16 \<Rightarrow> TIM_TypeDef \<Rightarrow> TIM_TypeDef" where
  "TIM_DMAConfig base len t = t\<lparr>tim_DCR := base OR len\<rparr>"
definition TIM_DMACmd :: "u16 \<Rightarrow> bool \<Rightarrow> TIM_TypeDef \<Rightarrow> TIM_TypeDef" where
  "TIM_DMACmd src b t = t\<lparr>tim_DIER := put_bits b src (tim_DIER t)\<rparr>"
definition TIM_SelectCCDMA :: "bool \<Rightarrow> TIM_TypeDef \<Rightarrow> TIM_TypeDef" where
  "TIM_SelectCCDMA b t = t\<lparr>tim_CR2 := put_bits b 0x0008 (tim_CR2 t)\<rparr>"

subsection \<open>Clock source, triggers and interfaces\<close>

definition TIM_InternalClockConfig :: "TIM_TypeDef \<Rightarrow> TIM_TypeDef" where
  "TIM_InternalClockConfig t = t\<lparr>tim_SMCR := tim_SMCR t AND NOT 0x0007\<rparr>"
definition TIM_SelectInputTrigger :: "u16 \<Rightarrow> TIM_TypeDef \<Rightarrow> TIM_TypeDef" where
  "TIM_SelectInputTrigger v t = t\<lparr>tim_SMCR := (tim_SMCR t AND NOT 0x0070) OR v\<rparr>"
definition TIM_ITRxExternalClockConfig :: "u16 \<Rightarrow> TIM_TypeDef \<Rightarrow> TIM_TypeDef" where
  "TIM_ITRxExternalClockConfig src t =
     (let t = TIM_SelectInputTrigger src t in t\<lparr>tim_SMCR := tim_SMCR t OR 0x0007\<rparr>)"
definition TIM_TIxExternalClockConfig :: "u16 \<Rightarrow> u16 \<Rightarrow> u16 \<Rightarrow> TIM_TypeDef \<Rightarrow> TIM_TypeDef" where
  "TIM_TIxExternalClockConfig src pol flt t =
     (let t = (if src = 0x0060 then TI2_Config pol 0x0001 flt t else TI1_Config pol 0x0001 flt t);
          t = TIM_SelectInputTrigger src t
      in t\<lparr>tim_SMCR := tim_SMCR t OR 0x0007\<rparr>)"
definition TIM_ETRConfig :: "u16 \<Rightarrow> u16 \<Rightarrow> u16 \<Rightarrow> TIM_TypeDef \<Rightarrow> TIM_TypeDef" where
  "TIM_ETRConfig psc pol flt t =
     t\<lparr>tim_SMCR := (tim_SMCR t AND 0x00FF) OR (psc OR (pol OR push_bit 8 flt))\<rparr>"
definition TIM_ETRClockMode1Config :: "u16 \<Rightarrow> u16 \<Rightarrow> u16 \<Rightarrow> TIM_TypeDef \<Rightarrow> TIM_TypeDef" where
  "TIM_ETRClockMode1Config psc pol flt t =
     (let t = TIM_ETRConfig psc pol flt t; smcr = tim_SMCR t;
          smcr = (smcr AND NOT 0x0007) OR 0x0007;
          smcr = (smcr AND NOT 0x0070) OR 0x0070
      in t\<lparr>tim_SMCR := smcr\<rparr>)"
definition TIM_ETRClockMode2Config :: "u16 \<Rightarrow> u16 \<Rightarrow> u16 \<Rightarrow> TIM_TypeDef \<Rightarrow> TIM_TypeDef" where
  "TIM_ETRClockMode2Config psc pol flt t =
     (let t = TIM_ETRConfig psc pol flt t in t\<lparr>tim_SMCR := tim_SMCR t OR 0x4000\<rparr>)"
definition TIM_SelectOutputTrigger :: "u16 \<Rightarrow> TIM_TypeDef \<Rightarrow> TIM_TypeDef" where
  "TIM_SelectOutputTrigger v t = t\<lparr>tim_CR2 := (tim_CR2 t AND NOT 0x0070) OR v\<rparr>"
definition TIM_SelectSlaveMode :: "u16 \<Rightarrow> TIM_TypeDef \<Rightarrow> TIM_TypeDef" where
  "TIM_SelectSlaveMode v t = t\<lparr>tim_SMCR := (tim_SMCR t AND NOT 0x0007) OR v\<rparr>"
definition TIM_SelectMasterSlaveMode :: "u16 \<Rightarrow> TIM_TypeDef \<Rightarrow> TIM_TypeDef" where
  "TIM_SelectMasterSlaveMode v t = t\<lparr>tim_SMCR := (tim_SMCR t AND NOT 0x0080) OR v\<rparr>"
definition TIM_EncoderInterfaceConfig :: "u16 \<Rightarrow> u16 \<Rightarrow> u16 \<Rightarrow> TIM_TypeDef \<Rightarrow> TIM_TypeDef" where
  "TIM_EncoderInterfaceConfig mode pol1 pol2 t =
     t\<lparr>tim_SMCR := (tim_SMCR t AND NOT 0x0007) OR mode,
       tim_CCMR1 := (tim_CCMR1 t AND (NOT 0x0003 AND NOT 0x0300)) OR (0x0001 OR 0x0100),
       tim_CCER := (tim_CCER t AND (NOT 0x0002 AND NOT 0x0020)) OR (pol1 OR push_bit 4 pol2)\<rparr>"
definition TIM_SelectHallSensor :: "bool \<Rightarrow> TIM_TypeDef \<Rightarrow> TIM_TypeDef" where
  "TIM_SelectHallSensor b t = t\<lparr>tim_CR2 := put_bits b 0x0080 (tim_CR2 t)\<rparr>"
definition TIM_RemapConfig :: "u16 \<Rightarrow> TIM_TypeDef \<Rightarrow> TIM_TypeDef" where
  "TIM_RemapConfig v t = t\<lparr>tim_OR := v\<rparr>"

subsection \<open>Reset values\<close>

text \<open>The reset values of the reference manual; timers 2 and 5 count to 32 bits.\<close>

definition tim_reset :: "nat \<Rightarrow> TIM_TypeDef" where
  "tim_reset n =
     \<lparr>tim_CR1 = 0, tim_CR2 = 0, tim_SMCR = 0, tim_DIER = 0, tim_SR = 0, tim_EGR = 0, tim_CCMR1 = 0, tim_CCMR2 = 0, tim_CCER = 0,
      tim_CNT = 0, tim_PSC = 0, tim_ARR = (if n = 2 \<or> n = 5 then 0xFFFFFFFF else 0xFFFF), tim_RCR = 0, tim_CCR1 = 0, tim_CCR2 = 0,
      tim_CCR3 = 0, tim_CCR4 = 0, tim_BDTR = 0, tim_DCR = 0, tim_DMAR = 0, tim_OR = 0\<rparr>"

end
