(* ===== verification/TT_Support.thy ===== *)
theory TT_Support
  imports Stm_Board Stm_Tim "HOL-Library.Char_ord"
begin

section \<open>TinyTimber: printing, times, priorities, contexts, timer\<close>

text \<open>
  The target dependencies of \<open>TinyTimber.c\<close> around the kernel: the polled printing routines, the time
  macros, the interrupt priorities behind \<open>sei\<close>/\<open>cli\<close>, the stack frame a thread starts from and the
  set-up of the timer. What \<open>DUMPC\<close> is given is the text a routine prints.
\<close>

subsection \<open>Printing\<close>

fun DUMP :: "string \<Rightarrow> string" where
  "DUMP [] = []"
| "DUMP (c # s) = (if c \<noteq> CHR 0x0D then c # DUMP s else DUMP s)"

definition hex :: string where "hex = ''0123456789ABCDEF''"

text \<open>Both number printers fill a buffer with the digits, the last digit first, and print it backwards.\<close>

fun print_back :: "string \<Rightarrow> nat \<Rightarrow> string res" where
  "print_back buf 0 = Inr []"
| "print_back buf (Suc i) = bnd (aget buf i) (\<lambda>c. bnd (print_back buf i) (\<lambda>s. Inr (c # s)))"

function fill_hex :: "u32 \<Rightarrow> string \<Rightarrow> nat \<Rightarrow> (string \<times> nat) res" where
  "fill_hex val buf i =
     bnd (aget hex (unat (val AND 0x0F))) (\<lambda>c.
     bnd (aset buf i c) (\<lambda>buf'.
       if drop_bit 4 val = 0 then Inr (buf', Suc i) else fill_hex (drop_bit 4 val) buf' (Suc i)))"
  by pat_completeness auto

termination
proof (relation "measure (\<lambda>(v, _, _). unat v)", simp)
  fix v :: u32 and buf :: string and i c buf'
  assume "drop_bit 4 v \<noteq> 0"
  then have "0 < unat (drop_bit 4 v)" by (simp add: unat_gt_0)
  then show "((drop_bit 4 v, buf', Suc i), v, buf, i) \<in> measure (\<lambda>(v, _, _). unat v)"
    by (simp add: drop_bit_eq_div unat_div)
qed

declare fill_hex.simps [simp del]

definition DUMPH :: "string \<Rightarrow> u32 \<Rightarrow> string res" where
  "DUMPH buf val = bnd (fill_hex val buf 0) (\<lambda>(buf', i). print_back buf' i)"

text \<open>A negative remainder indexes before the digit table.\<close>

definition hex_at :: "int \<Rightarrow> char res" where
  "hex_at n = (if n < 0 then Inl OutOfBounds else aget hex (nat n))"

function fill_dec :: "int \<Rightarrow> string \<Rightarrow> nat \<Rightarrow> (string \<times> nat) res" where
  "fill_dec val buf i =
     bnd (hex_at (cmod val 10)) (\<lambda>c.
     bnd (aset buf i c) (\<lambda>buf'.
       if cdiv val 10 = 0 then Inr (buf', Suc i) else fill_dec (cdiv val 10) buf' (Suc i)))"
  by pat_completeness auto

termination
proof (relation "measure (\<lambda>(v, _, _). nat \<bar>v\<bar>)", simp)
  fix v :: int and buf :: string and i c buf'
  assume "cdiv v 10 \<noteq> 0"
  then have "\<bar>cdiv v 10\<bar> < \<bar>v\<bar>"
    by (cases "0 \<le> v") (auto simp: c_arith abs_if)
  then show "((cdiv v 10, buf', Suc i), v, buf, i) \<in> measure (\<lambda>(v, _, _). nat \<bar>v\<bar>)" by simp
qed

declare fill_dec.simps [simp del]

definition DUMPD :: "string \<Rightarrow> i32 \<Rightarrow> string res" where
  "DUMPD buf val =
     (let sgn = (if sint val < 0 then - 1 else 1 :: i32)
      in bnd (fill_dec (sint (val * sgn)) buf 0) (\<lambda>(buf', i).
         bnd (print_back buf' i) (\<lambda>s. Inr ((if sint sgn < 0 then ''-'' else []) @ s))))"

subsection \<open>What the number printers print\<close>

fun digits :: "nat \<Rightarrow> nat \<Rightarrow> string" where
  "digits b n = (if n < b \<or> b < 2 then [hex ! n] else digits b (n div b) @ [hex ! (n mod b)])"

declare digits.simps [simp del]

definition digit_value :: "char \<Rightarrow> nat" where
  "digit_value c = (if CHR ''A'' \<le> c then of_char c - 55 else of_char c - 48)"

definition number_value :: "nat \<Rightarrow> string \<Rightarrow> nat" where
  "number_value b s = foldl (\<lambda>a c. b * a + digit_value c) 0 s"

lemma length_hex [simp]: "length hex = 16" by (simp add: hex_def)

lemma hex_value: "n < 16 \<Longrightarrow> digit_value (hex ! n) = n"
proof -
  have "\<forall>n \<in> {..<16}. digit_value (hex ! n) = n" by code_simp
  then show "n < 16 \<Longrightarrow> digit_value (hex ! n) = n" by simp
qed

lemma number_value_digits: "2 \<le> b \<Longrightarrow> b \<le> 16 \<Longrightarrow> number_value b (digits b n) = n"
proof (induction b n rule: digits.induct)
  case (1 b n)
  show ?case
  proof (cases "n < b")
    case True
    with "1.prems" show ?thesis by (subst digits.simps) (simp add: number_value_def hex_value)
  next
    case False
    with 1 have "number_value b (digits b (n div b)) = n div b" by simp
    moreover have "n mod b < 16" using "1.prems" mod_less_divisor [of b n] by linarith
    ultimately show ?thesis using False "1.prems"
      by (subst digits.simps) (simp add: number_value_def hex_value)
  qed
qed

lemma length_digits: "2 \<le> b \<Longrightarrow> n < b ^ Suc k \<Longrightarrow> length (digits b n) \<le> Suc k"
proof (induction k arbitrary: n)
  case (Suc k)
  show ?case
  proof (cases "n < b")
    case False
    have "n div b < b ^ Suc k"
      using Suc.prems by (simp add: less_mult_imp_div_less mult.commute)
    with Suc.IH Suc.prems(1) False show ?thesis by (subst digits.simps) simp
  qed (subst digits.simps; simp)
qed (subst digits.simps; simp)

lemma digits_nonempty [simp]: "digits b n \<noteq> []"
  by (subst digits.simps) simp

lemma print_back_take: "i \<le> length buf \<Longrightarrow> print_back buf i = Inr (rev (take i buf))"
proof (induction i)
  case (Suc i)
  then show ?case by (simp add: take_Suc_conv_app_nth)
qed simp

lemma fill_hex_digits:
  "i + length (digits 16 (unat v)) \<le> length buf \<Longrightarrow>
     \<exists>buf'. fill_hex v buf i = Inr (buf', i + length (digits 16 (unat v))) \<and> length buf' = length buf
       \<and> take (i + length (digits 16 (unat v))) buf' = take i buf @ rev (digits 16 (unat v))"
proof (induction v buf i rule: fill_hex.induct)
  case (1 v buf i)
  have low: "unat (v AND 0x0F) = unat v mod 16"
    unfolding mask_values by (simp add: take_bit_eq_mask [symmetric] unsigned_take_bit_eq take_bit_eq_mod unat_mod)
  have high: "unat (drop_bit 4 v) = unat v div 16" by (simp add: drop_bit_eq_div unat_div)
  have zero: "drop_bit 4 v = 0 \<longleftrightarrow> unat v < 16"
    using high by (metis div_eq_0_iff unat_eq_zero zero_neq_numeral)
  have i: "i < length buf" using "1.prems" digits_nonempty [of 16 "unat v"] by (metis add.right_neutral
      add_less_cancel_left length_greater_0_conv less_le_trans)
  let ?buf = "buf[i := hex ! (unat v mod 16)]"
  have pre: "take (Suc i) ?buf = take i buf @ [hex ! (unat v mod 16)]" using i by (simp add: take_Suc_conv_app_nth)
  show ?case
  proof (cases "unat v < 16")
    case True
    with i pre show ?thesis
      by (subst fill_hex.simps) (subst (1 2 3) digits.simps; simp add: low zero)
  next
    case False
    then have d: "digits 16 (unat v) = digits 16 (unat v div 16) @ [hex ! (unat v mod 16)]"
      by (subst digits.simps) simp
    have fit: "Suc i + length (digits 16 (unat (drop_bit 4 v))) \<le> length ?buf"
      using "1.prems" by (simp add: d high)
    have "drop_bit 4 v \<noteq> 0" using False zero by simp
    then obtain buf' where "fill_hex (drop_bit 4 v) ?buf (Suc i)
          = Inr (buf', Suc i + length (digits 16 (unat (drop_bit 4 v))))" "length buf' = length ?buf"
        "take (Suc i + length (digits 16 (unat (drop_bit 4 v)))) buf' = take (Suc i) ?buf @ rev (digits 16 (unat (drop_bit 4 v)))"
      using "1.IH" [OF _ fit] by blast
    with i False pre show ?thesis
      by (subst fill_hex.simps) (simp add: low zero d high)
  qed
qed

lemma fill_dec_digits:
  "0 \<le> v \<Longrightarrow> i + length (digits 10 (nat v)) \<le> length buf \<Longrightarrow>
     \<exists>buf'. fill_dec v buf i = Inr (buf', i + length (digits 10 (nat v))) \<and> length buf' = length buf
       \<and> take (i + length (digits 10 (nat v))) buf' = take i buf @ rev (digits 10 (nat v))"
proof (induction v buf i rule: fill_dec.induct)
  case (1 v buf i)
  have low: "hex_at (cmod v 10) = Inr (hex ! (nat v mod 10))"
    using "1.prems"(1) by (simp add: hex_at_def c_arith nat_mod_distrib)
  have high: "nat (cdiv v 10) = nat v div 10" "0 \<le> cdiv v 10" using "1.prems"(1) by (simp_all add: c_arith nat_div_distrib)
  have zero: "cdiv v 10 = 0 \<longleftrightarrow> nat v < 10" using high by linarith
  have i: "i < length buf" using "1.prems" digits_nonempty [of 10 "nat v"] by (metis add.right_neutral
      add_less_cancel_left length_greater_0_conv less_le_trans)
  let ?buf = "buf[i := hex ! (nat v mod 10)]"
  have pre: "take (Suc i) ?buf = take i buf @ [hex ! (nat v mod 10)]" using i by (simp add: take_Suc_conv_app_nth)
  show ?case
  proof (cases "nat v < 10")
    case True
    with i pre show ?thesis
      by (subst fill_dec.simps) (subst (1 2 3) digits.simps; simp add: low zero)
  next
    case False
    then have d: "digits 10 (nat v) = digits 10 (nat v div 10) @ [hex ! (nat v mod 10)]"
      by (subst digits.simps) simp
    have fit: "Suc i + length (digits 10 (nat (cdiv v 10))) \<le> length ?buf"
      using "1.prems" by (simp add: d high)
    have "cdiv v 10 \<noteq> 0" using False zero by simp
    then obtain buf' where "fill_dec (cdiv v 10) ?buf (Suc i)
          = Inr (buf', Suc i + length (digits 10 (nat (cdiv v 10))))" "length buf' = length ?buf"
        "take (Suc i + length (digits 10 (nat (cdiv v 10)))) buf' = take (Suc i) ?buf @ rev (digits 10 (nat (cdiv v 10)))"
      using "1.IH" [OF _ high(2) fit] by blast
    with i False pre show ?thesis
      by (subst fill_dec.simps) (simp add: low zero d high)
  qed
qed

lemma DUMPH_digits:
  assumes "length buf = 8"
  shows "DUMPH buf v = Inr (digits 16 (unat v))"
proof -
  have "unat v < 16 ^ Suc 7" using unsigned_less [of v, where 'a = nat] by simp
  then have len: "length (digits 16 (unat v)) \<le> 8" using length_digits [of 16 "unat v" 7] by simp
  then obtain buf' where "fill_hex v buf 0 = Inr (buf', length (digits 16 (unat v)))" "length buf' = 8"
      "take (length (digits 16 (unat v))) buf' = rev (digits 16 (unat v))"
    using fill_hex_digits [of 0 v buf] assms by auto
  with len show ?thesis by (simp add: DUMPH_def print_back_take)
qed

lemma DUMPD_digits:
  assumes "length buf = 100" and "sint v \<noteq> - 2147483648"
  shows "DUMPD buf v = Inr ((if sint v < 0 then ''-'' else []) @ digits 10 (nat \<bar>sint v\<bar>))"
proof -
  let ?n = "nat \<bar>sint v\<bar>"
  have "?n < 10 ^ Suc 9" using sint32_range [of v] by auto
  then have len: "length (digits 10 ?n) \<le> 100" using length_digits [of 10 ?n 9] by simp
  then obtain buf' where f: "fill_dec \<bar>sint v\<bar> buf 0 = Inr (buf', length (digits 10 ?n))" "length buf' = 100"
      "take (length (digits 10 ?n)) buf' = rev (digits 10 ?n)"
    using fill_dec_digits [of "\<bar>sint v\<bar>" 0 buf] assms(1) by auto
  have neg: "sint (- v) = - sint v" using assms(2) sint32_range [of v] sint32_diff [of 0 v] by simp
  show ?thesis
  proof (cases "sint v < 0")
    case True
    then have "sint (v * - 1) = \<bar>sint v\<bar>" using neg by simp
    with True f len show ?thesis by (simp add: DUMPD_def Let_def print_back_take)
  next
    case False
    with f len show ?thesis by (simp add: DUMPD_def Let_def print_back_take)
  qed
qed

text \<open>The one value whose negation wraps: the first remainder is negative.\<close>

lemma DUMPD_min: "DUMPD buf 0x80000000 = Inl OutOfBounds"
proof -
  have "sint (0x80000000 :: i32) = - 2147483648" by simp
  moreover have "(0x80000000 :: i32) * - 1 = 0x80000000" by simp
  moreover have "hex_at (cmod (- 2147483648) 10) = Inl OutOfBounds" by (simp add: hex_at_def c_arith)
  ultimately show ?thesis by (simp add: DUMPD_def Let_def fill_dec.simps)
qed

subsection \<open>Times\<close>

text \<open>A tick is ten microseconds; times are 32-bit and wrap.\<close>

definition USEC :: "i32 \<Rightarrow> i32" where "USEC x = word_of_int (cdiv (sint x) 10)"
definition MSEC :: "i32 \<Rightarrow> i32" where "MSEC x = x * 100"
definition SEC :: "i32 \<Rightarrow> i32" where "SEC x = x * 100000"
definition USEC_OF :: "i32 \<Rightarrow> i32" where "USEC_OF t = word_of_int (cmod (sint t) 100000 * 10)"
definition MSEC_OF :: "i32 \<Rightarrow> i32" where "MSEC_OF t = word_of_int (cdiv (cmod (sint t) 100000) 100)"
definition SEC_OF :: "i32 \<Rightarrow> i32" where "SEC_OF t = word_of_int (cdiv (sint t) 100000)"

lemma sint_word_of_int32: "- 2147483648 \<le> n \<Longrightarrow> n < 2147483648 \<Longrightarrow> sint (word_of_int n :: 32 word) = n"
  using signed_take_bit_int_eq_self [of 31 n] by (simp add: sint_sbintrunc')

lemma time_split:
  assumes "0 \<le> s" and "0 \<le> m" and "m < 1000" and "s \<le> 21473"
  shows "SEC_OF (SEC (word_of_int s) + MSEC (word_of_int m)) = word_of_int s"
    and "MSEC_OF (SEC (word_of_int s) + MSEC (word_of_int m)) = word_of_int m"
proof -
  have "SEC (word_of_int s) + MSEC (word_of_int m) = word_of_int (s * 100000 + m * 100)"
    by (simp add: SEC_def MSEC_def)
  moreover have "sint (word_of_int (s * 100000 + m * 100) :: i32) = s * 100000 + m * 100"
    using assms by (intro sint_word_of_int32) auto
  moreover have "(s * 100000 + m * 100) div 100000 = s" "(s * 100000 + m * 100) mod 100000 = m * 100"
    using assms by auto
  ultimately show "SEC_OF (SEC (word_of_int s) + MSEC (word_of_int m)) = word_of_int s"
      "MSEC_OF (SEC (word_of_int s) + MSEC (word_of_int m)) = word_of_int m"
    using assms by (simp_all add: SEC_OF_def MSEC_OF_def c_arith)
qed

subsection \<open>Priorities\<close>

text \<open>
  Four priority bits are implemented, in the upper half of a byte. A base priority whose
  implemented bits are zero masks nothing; otherwise it masks every source whose priority value is
  at least as large. The supervisor call has priority 0, everything the kernel installs
  \<open>IRQ_PRIORITY\<close>.
\<close>

definition ENABLED_PRIORITY :: u8 where "ENABLED_PRIORITY = 3"
definition DISABLED_PRIORITY :: u8 where "DISABLED_PRIORITY = 1"
definition IRQ_PRIORITY :: u32 where "IRQ_PRIORITY = 2"

definition sei :: u8 where "sei = push_bit 4 DISABLED_PRIORITY"
definition cli :: u8 where "cli = push_bit 4 ENABLED_PRIORITY"
definition PROTECTED :: "u8 \<Rightarrow> bool" where "PROTECTED basepri = (drop_bit 4 basepri = DISABLED_PRIORITY)"

definition masked :: "u8 \<Rightarrow> u8 \<Rightarrow> bool" where
  "masked basepri prio = (basepri AND 0xF0 \<noteq> 0 \<and> basepri AND 0xF0 \<le> prio)"

subsection \<open>The context a thread starts from\<close>

type_synonym memory = "u32 \<Rightarrow> u32"

definition STACK_BYTES :: u32 where "STACK_BYTES = 1024 * 8"
definition CONTEXTSIZE :: nat where "CONTEXTSIZE = 2 + 16 + 8 + 16 + 10"

text \<open>The context pointer and the memory after the frame has been laid out.\<close>

definition SETSTACK :: "u32 \<Rightarrow> memory \<Rightarrow> u32 \<times> memory" where
  "SETSTACK sp m =
     (let ci = sp + STACK_BYTES - of_nat CONTEXTSIZE * 4;
          m0 = fold (\<lambda>i m. m(ci + push_bit 2 (of_nat i) := 0)) [0..<CONTEXTSIZE] m
      in (ci, m0(ci + push_bit 2 0 := 0xFFFFFFE9, ci + push_bit 2 1 := ucast ENABLED_PRIORITY,
                 ci + push_bit 2 33 := 0x01000000)))"

definition SETPC :: "u32 \<Rightarrow> u32 \<Rightarrow> memory \<Rightarrow> memory" where
  "SETPC cp fp m = m(cp + push_bit 2 32 := fp)"

subsection \<open>The timer\<close>

text \<open>
  The reset of the timer leaves its reset values (\<open>Stm_Startup\<close> has it with the clock controller). The handlers' addresses are given by the linker. The vector table of the debug monitor is in
  memory.
\<close>

definition TIMER_PRESCALE :: u16 where "TIMER_PRESCALE = 840 - 1"
definition VECTORS :: u32 where "VECTORS = 0x2001C000"

definition TIMER_INIT :: "u32 \<Rightarrow> u32 \<Rightarrow> u32 \<Rightarrow> nvic \<Rightarrow> memory \<Rightarrow> (TIM_TypeDef \<times> nvic \<times> memory) res" where
  "TIMER_INIT pendsv svcall tim5 v m =
     (let t1 = TIM_TimeBaseInit 5 (TIM_TimeBaseStructInit\<lparr>TIM_Prescaler := TIMER_PRESCALE\<rparr>) (tim_reset 5);
          m1 = m(VECTORS + 0x38 := pendsv)
      in bnd (NVIC_SetPriority (- 2) IRQ_PRIORITY v) (\<lambda>v1.
         let m2 = m1(VECTORS + 0x2C := svcall)
         in bnd (NVIC_SetPriority (- 5) 0 v1) (\<lambda>v2.
         let m3 = m2(VECTORS + 0x108 := tim5)
         in bnd (NVIC_SetPriority 50 IRQ_PRIORITY v2) (\<lambda>v3.
            bnd (NVIC_EnableIRQ 50 v3) (\<lambda>v4.
              Inr (TIM_ITConfig 2 True (TIM_Cmd True (TIM_SetCounter 0 t1)), v4, m3))))))"

subsection \<open>What the set-up guarantees\<close>

lemma priorities_mask:
  "masked sei (ucast (push_bit 4 IRQ_PRIORITY AND 0xFF))" "\<not> masked sei 0"
  "\<not> masked cli (ucast (push_bit 4 IRQ_PRIORITY AND 0xFF))" "\<not> masked cli 0"
  "\<not> masked ENABLED_PRIORITY p" "PROTECTED sei" "\<not> PROTECTED cli" "\<not> PROTECTED ENABLED_PRIORITY"
  by (simp_all add: masked_def sei_def cli_def IRQ_PRIORITY_def ENABLED_PRIORITY_def DISABLED_PRIORITY_def
      PROTECTED_def)

text \<open>The timer ticks every ten microseconds at 84 MHz, counts through all of its 32 bits and interrupts on its first compare value.\<close>

lemma timer_set_up:
  assumes "TIMER_INIT pendsv svcall tim5 v m = Inr (t, v', m')"
  shows "tim_PSC t = 839" "tim_ARR t = 0xFFFFFFFF" "tim_CNT t = 0" "tim_CR1 t = 1" "tim_DIER t = 2"
    and "m' = m(VECTORS + 0x38 := pendsv, VECTORS + 0x2C := svcall, VECTORS + 0x108 := tim5)"
  using assms
  by (auto simp: TIMER_INIT_def Let_def bnd_def TIM_ITConfig_def TIM_Cmd_def TIM_SetCounter_def TIM_TimeBaseInit_def
      TIM_TimeBaseStructInit_def TIMER_PRESCALE_def tim_reset_def put_bits_def split: sum.splits)

lemma context_slots: "i < 64 \<Longrightarrow> j < 64 \<Longrightarrow> (ci + push_bit 2 (of_nat i) = ci + push_bit 2 (of_nat j :: u32)) = (i = j)"
proof -
  assume "i < 64" "j < 64"
  then have "unat (push_bit 2 (of_nat i) :: u32) = 4 * i" "unat (push_bit 2 (of_nat j) :: u32) = 4 * j"
    by (simp_all add: push_bit_eq_mult unat_word_ariths unat_of_nat)
  then show ?thesis by (metis add_left_cancel mult_left_cancel zero_neq_numeral)
qed

lemma clear_slots:
  "fold (\<lambda>i m. m(ci + push_bit 2 (of_nat i) := 0)) [0..<n] m a
     = (if \<exists>i < n. a = ci + push_bit 2 (of_nat i) then 0 else m a)" for m :: memory
  by (induction n) (auto simp: less_Suc_eq)

text \<open>
  The frame of a new thread: the words the exception return and the first switch read, zeros
  elsewhere, nothing outside the top of the stack touched.
\<close>

lemma new_context:
  assumes "SETSTACK sp m = (cp, m')"
  shows "cp = sp + 7984"
    and "k < CONTEXTSIZE \<Longrightarrow> SETPC cp fp m' (cp + push_bit 2 (of_nat k))
      = (if k = 0 then 0xFFFFFFE9 else if k = 1 then ucast ENABLED_PRIORITY else if k = 32 then fp
         else if k = 33 then 0x01000000 else 0)"
    and "\<forall>k < CONTEXTSIZE. a \<noteq> cp + push_bit 2 (of_nat k) \<Longrightarrow> SETPC cp fp m' a = m a"
proof -
  have cp: "cp = sp + STACK_BYTES - of_nat CONTEXTSIZE * 4"
    and m': "m' = (fold (\<lambda>i m. m(cp + push_bit 2 (of_nat i) := 0)) [0..<CONTEXTSIZE] m)
      (cp + push_bit 2 0 := 0xFFFFFFE9, cp + push_bit 2 1 := ucast ENABLED_PRIORITY, cp + push_bit 2 33 := 0x01000000)"
    using assms by (auto simp: SETSTACK_def Let_def)
  show "cp = sp + 7984" by (simp add: cp STACK_BYTES_def CONTEXTSIZE_def)
  have eqs: "(cp + push_bit 2 (of_nat k) = cp + push_bit 2 0) = (k = 0)"
      "(cp + push_bit 2 (of_nat k) = cp + push_bit 2 1) = (k = 1)"
      "(cp + push_bit 2 (of_nat k) = cp + push_bit 2 32) = (k = 32)"
      "(cp + push_bit 2 (of_nat k) = cp + push_bit 2 33) = (k = 33)" if "k < CONTEXTSIZE" for k
    using that context_slots [of k 0 cp] context_slots [of k 1 cp] context_slots [of k 32 cp] context_slots [of k 33 cp]
    by (simp_all add: CONTEXTSIZE_def)
  show "SETPC cp fp m' (cp + push_bit 2 (of_nat k))
      = (if k = 0 then 0xFFFFFFE9 else if k = 1 then ucast ENABLED_PRIORITY else if k = 32 then fp
         else if k = 33 then 0x01000000 else 0)" if "k < CONTEXTSIZE"
    using eqs [OF that] that unfolding m' SETPC_def fun_upd_apply clear_slots by auto
  show "SETPC cp fp m' a = m a" if "\<forall>k < CONTEXTSIZE. a \<noteq> cp + push_bit 2 (of_nat k)"
  proof -
    have n: "a \<noteq> cp + push_bit 2 (of_nat k)" if "k < 52" for k
      using that \<open>\<forall>k < CONTEXTSIZE. a \<noteq> cp + push_bit 2 (of_nat k)\<close> by (simp add: CONTEXTSIZE_def)
    have "a \<noteq> cp + push_bit 2 0" "a \<noteq> cp + push_bit 2 1" "a \<noteq> cp + push_bit 2 32" "a \<noteq> cp + push_bit 2 33"
      using n [of 0] n [of 1] n [of 32] n [of 33] by simp_all
    with that show ?thesis unfolding m' SETPC_def fun_upd_apply clear_slots by auto
  qed
qed

end
