(* ===== verification/C_Text.thy ===== *)
theory C_Text
  imports Prelude "HOL-Library.Char_ord"
begin

section \<open>Characters and strings of C\<close>

text \<open>
  A C string is a character array up to its first zero. The character classes are those of the C
  locale.
\<close>

abbreviation NUL :: char where "NUL \<equiv> CHR 0x00"
abbreviation NL :: char where "NL \<equiv> CHR 0x0A"

definition cstr :: "string \<Rightarrow> string" where "cstr a = takeWhile (\<lambda>c. c \<noteq> NUL) a"

text \<open>An int stored in a char.\<close>

definition to_char :: "int \<Rightarrow> char" where "to_char n = char_of (nat (n mod 256))"

definition is_space :: "char \<Rightarrow> bool" where
  "is_space c \<longleftrightarrow> c = CHR '' '' \<or> (9 \<le> (of_char c :: nat) \<and> (of_char c :: nat) \<le> 13)"
definition is_digit :: "char \<Rightarrow> bool" where
  "is_digit c \<longleftrightarrow> 48 \<le> (of_char c :: nat) \<and> (of_char c :: nat) \<le> 57"
definition is_alnum :: "char \<Rightarrow> bool" where
  "is_alnum c \<longleftrightarrow> is_digit c \<or> (65 \<le> (of_char c :: nat) \<and> (of_char c :: nat) \<le> 90)
     \<or> (97 \<le> (of_char c :: nat) \<and> (of_char c :: nat) \<le> 122)"

lemma not_space_NUL [simp]: "\<not> is_space NUL" by (simp add: is_space_def)

lemma cstr_append_NUL: "cstr (xs @ NUL # ys) = cstr xs"
  by (induction xs) (auto simp: cstr_def)

lemma cstr_no_NUL: "NUL \<notin> set xs \<Longrightarrow> cstr (xs @ NUL # ys) = xs"
  by (induction xs) (auto simp: cstr_def)

end
