(* ===== verification/App_Text.thy ===== *)
theory App_Text
  imports TT_Support C_Text
begin

section \<open>Numbers as text in the applications\<close>

text \<open>
  The conversion routines of the two applications over character arrays: \<open>int_to_str\<close> of
  \<open>lab-1/src/App.c\<close> and of \<open>lab-2/src/App.c\<close> (\<open>int_to_str2\<close>), and \<open>atoi\<close> of the C library. A number out of range makes \<open>atoi\<close> undefined.
\<close>

subsection \<open>\<open>atoi\<close>\<close>

definition digits_value :: "string \<Rightarrow> int" where
  "digits_value s = foldl (\<lambda>a c. 10 * a + (of_char c - 48)) 0 (takeWhile is_digit s)"

definition signed_value :: "string \<Rightarrow> int" where
  "signed_value s = (case s of
       CHR ''-'' # t \<Rightarrow> - digits_value t
     | CHR ''+'' # t \<Rightarrow> digits_value t
     | _ \<Rightarrow> digits_value s)"

definition atoi :: "string \<Rightarrow> i32 res" where
  "atoi s =
     (let v = signed_value (dropWhile is_space s)
      in if - 2147483648 \<le> v \<and> v < 2147483648 then Inr (word_of_int v) else Inl Undefined)"

subsection \<open>\<open>int_to_str\<close>\<close>

function digit_loop :: "int \<Rightarrow> string \<Rightarrow> nat \<Rightarrow> (string \<times> nat) res" where
  "digit_loop n str i =
     (if n \<noteq> 0 then bnd (aset str i (to_char (cmod n 10 + 48))) (\<lambda>s. digit_loop (cdiv n 10) s (i + 1))
      else Inr (str, i))"
  by pat_completeness auto

termination
proof (relation "measure (\<lambda>(v, _, _). nat \<bar>v\<bar>)", simp)
  fix v :: int and str s :: string and i :: nat
  assume "v \<noteq> 0"
  then have "\<bar>cdiv v 10\<bar> < \<bar>v\<bar>" by (cases "0 \<le> v") (auto simp: c_arith abs_if)
  then show "((cdiv v 10, s, i + 1), v, str, i) \<in> measure (\<lambda>(v, _, _). nat \<bar>v\<bar>)" by simp
qed

declare digit_loop.simps [simp del]

text \<open>\<open>for (int j = 0; j < i / 2; j++)\<close> swap \<open>str[j]\<close> and \<open>str[i - j - 1]\<close>.\<close>

function reverse_loop :: "nat \<Rightarrow> nat \<Rightarrow> string \<Rightarrow> string res" where
  "reverse_loop i j str =
     (if j < i div 2
      then bnd (aget str j) (\<lambda>temp.
           bnd (aget str (i - j - 1)) (\<lambda>x.
           bnd (aset str j x) (\<lambda>s1.
           bnd (aset s1 (i - j - 1) temp) (\<lambda>s2. reverse_loop i (j + 1) s2))))
      else Inr str)"
  by pat_completeness auto

termination by (relation "measure (\<lambda>(i, j, _). i div 2 - j)") auto

declare reverse_loop.simps [simp del]

definition finish_str :: "bool \<Rightarrow> string \<Rightarrow> nat \<Rightarrow> string res" where
  "finish_str is_negative str i =
     bnd (if is_negative then bnd (aset str i CHR ''-'') (\<lambda>s. Inr (s, i + 1)) else Inr (str, i)) (\<lambda>(s, i).
     bnd (aset s i NUL) (\<lambda>s. reverse_loop i 0 s))"

definition int_to_str :: "i32 \<Rightarrow> string \<Rightarrow> string res" where
  "int_to_str n str =
     (if n = 0 then bnd (aset str 0 CHR ''0'') (\<lambda>s. aset s 1 NUL)
      else let is_negative = sint n < 0
           in bnd (digit_loop (sint (if is_negative then - n else n)) str 0) (\<lambda>(s, i). finish_str is_negative s i))"

definition int_to_str2 :: "i32 \<Rightarrow> string \<Rightarrow> string res" where
  "int_to_str2 n str =
     bnd (if n = 0 then bnd (aset str 0 CHR ''0'') (\<lambda>s. bnd (aset s 1 NUL) (\<lambda>s. Inr (s, 1))) else Inr (str, 0)) (\<lambda>(s, i).
       let is_negative = sint n < 0
       in bnd (digit_loop (sint (if is_negative then - n else n)) s i) (\<lambda>(s, i). finish_str is_negative s i))"

subsection \<open>The text of a number\<close>

definition decimal :: "int \<Rightarrow> string" where
  "decimal v = (if v < 0 then ''-'' else []) @ digits 10 (nat \<bar>v\<bar>)"

lemma hex_chars: "n < 10 \<Longrightarrow> to_char (int n + 48) = hex ! n"
proof -
  have "\<forall>n \<in> {..<10}. to_char (int n + 48) = hex ! n" by code_simp
  then show "n < 10 \<Longrightarrow> to_char (int n + 48) = hex ! n" by simp
qed

lemma hex_not_NUL: "n < 16 \<Longrightarrow> hex ! n \<noteq> NUL"
proof -
  have "\<forall>n \<in> {..<16}. hex ! n \<noteq> NUL" by code_simp
  then show "n < 16 \<Longrightarrow> hex ! n \<noteq> NUL" by simp
qed

lemma digits_not_NUL: "2 \<le> b \<Longrightarrow> b \<le> 16 \<Longrightarrow> NUL \<notin> set (digits b n)"
proof (induction b n rule: digits.induct)
  case (1 b n)
  have "n mod b < 16" using "1.prems" mod_less_divisor [of b n] by linarith
  then have "hex ! (n mod b) \<noteq> NUL" by (rule hex_not_NUL)
  moreover have "n < b \<Longrightarrow> hex ! n \<noteq> NUL" using "1.prems" hex_not_NUL by simp
  ultimately show ?case using 1 by (subst digits.simps) auto
qed

lemma digit_loop_digits:
  "0 < v \<Longrightarrow> i + length (digits 10 (nat v)) \<le> length str \<Longrightarrow>
     \<exists>s. digit_loop v str i = Inr (s, i + length (digits 10 (nat v))) \<and> length s = length str
       \<and> take (i + length (digits 10 (nat v))) s = take i str @ rev (digits 10 (nat v))"
proof (induction v str i rule: digit_loop.induct)
  case (1 v str i)
  have low: "to_char (cmod v 10 + 48) = hex ! (nat v mod 10)"
    using "1.prems"(1) hex_chars [of "nat v mod 10"] by (simp add: c_arith zmod_int)
  have high: "nat (cdiv v 10) = nat v div 10" "0 \<le> cdiv v 10" using "1.prems"(1) by (simp_all add: c_arith nat_div_distrib)
  have zero: "cdiv v 10 = 0 \<longleftrightarrow> nat v < 10" using high by linarith
  have i: "i < length str" using "1.prems" digits_nonempty [of 10 "nat v"] by (metis add.right_neutral
      add_less_cancel_left length_greater_0_conv less_le_trans)
  let ?s = "str[i := hex ! (nat v mod 10)]"
  have pre: "take (Suc i) ?s = take i str @ [hex ! (nat v mod 10)]" using i by (simp add: take_Suc_conv_app_nth)
  have step: "digit_loop v str i = digit_loop (cdiv v 10) ?s (Suc i)"
    using "1.prems"(1) i by (subst digit_loop.simps) (simp add: low)
  show ?case
  proof (cases "nat v < 10")
    case True
    then have "digit_loop (cdiv v 10) ?s (Suc i) = Inr (?s, Suc i)" using zero by (subst digit_loop.simps) simp
    moreover have "digits 10 (nat v) = [hex ! (nat v mod 10)]" using True by (subst digits.simps) simp
    ultimately show ?thesis using step pre by simp
  next
    case False
    then have d: "digits 10 (nat v) = digits 10 (nat v div 10) @ [hex ! (nat v mod 10)]"
      by (subst digits.simps) simp
    have fit: "Suc i + length (digits 10 (nat (cdiv v 10))) \<le> length ?s"
      using "1.prems" by (simp add: d high)
    have "0 < cdiv v 10" using False zero high(2) by simp
    then obtain s where "digit_loop (cdiv v 10) ?s (Suc i)
          = Inr (s, Suc i + length (digits 10 (nat (cdiv v 10))))" "length s = length ?s"
        "take (Suc i + length (digits 10 (nat (cdiv v 10)))) s = take (Suc i) ?s @ rev (digits 10 (nat (cdiv v 10)))"
      using "1.IH" [of ?s] "1.prems"(1) fit by auto
    with step pre show ?thesis by (simp add: d high)
  qed
qed

lemma reverse_loop_nth:
  "i \<le> length str \<Longrightarrow> j \<le> i div 2 \<Longrightarrow>
     \<exists>s. reverse_loop i j str = Inr s \<and> length s = length str
       \<and> (\<forall>k < length str. s ! k = (if j \<le> k \<and> k < i - j then str ! (i - 1 - k) else str ! k))"
proof (induction i j str rule: reverse_loop.induct)
  case (1 i j str)
  show ?case
  proof (cases "j < i div 2")
    case True
    then have b: "j < length str" "i - j - 1 < length str" "j < i - j - 1" using "1.prems" by auto
    let ?s1 = "str[j := str ! (i - j - 1)]"
    let ?s2 = "?s1[i - j - 1 := str ! j]"
    have step: "reverse_loop i j str = reverse_loop i (j + 1) ?s2"
      using True b by (subst reverse_loop.simps) simp
    obtain s where s: "reverse_loop i (j + 1) ?s2 = Inr s" "length s = length ?s2"
        "\<forall>k < length ?s2. s ! k = (if j + 1 \<le> k \<and> k < i - (j + 1) then ?s2 ! (i - 1 - k) else ?s2 ! k)"
      using "1.IH" [OF True, of ?s2] True "1.prems" by auto
    have "s ! k = (if j \<le> k \<and> k < i - j then str ! (i - 1 - k) else str ! k)" if k: "k < length str" for k
    proof -
      consider "k = j" | "k = i - j - 1" | "j < k" "k < i - j - 1" | "k < j \<or> i - j \<le> k" by linarith
      then show ?thesis
        using s(3) k b by cases (auto simp: nth_list_update)
    qed
    with s step show ?thesis by simp
  next
    case False
    then have "reverse_loop i j str = Inr str" by (subst reverse_loop.simps) simp
    moreover have "i - 1 - k = k" if "j \<le> k" "k < i - j" for k using that False "1.prems" by linarith
    ultimately show ?thesis by auto
  qed
qed

lemma reverse_loop_rev:
  assumes "i \<le> length str"
  shows "reverse_loop i 0 str = Inr (rev (take i str) @ drop i str)"
proof -
  obtain s where s: "reverse_loop i 0 str = Inr s" "length s = length str"
      "\<forall>k < length str. s ! k = (if k < i then str ! (i - 1 - k) else str ! k)"
    using reverse_loop_nth [OF assms, of 0] by auto
  have "s = rev (take i str) @ drop i str"
    using s(2,3) assms by (intro nth_equalityI) (auto simp: nth_append rev_nth min_def)
  with s(1) show ?thesis by simp
qed

lemma finish_str_text:
  assumes "i + (if neg then 1 else 0) < length str" and "take i str = rev ds" and "length ds = i" and "NUL \<notin> set ds"
  shows "\<exists>s. finish_str neg str i = Inr s \<and> length s = length str \<and> cstr s = (if neg then ''-'' else []) @ ds"
proof -
  define t where "t = (if neg then str[i := CHR ''-''] else str)"
  define n where "n = (if neg then i + 1 else i)"
  have n: "n < length t" "length t = length str" using assms(1) by (auto simp: n_def t_def)
  have f: "finish_str neg str i = bnd (aset t n NUL) (\<lambda>s. reverse_loop n 0 s)"
    using assms(1) by (auto simp: finish_str_def t_def n_def)
  have tk: "take n t = rev ((if neg then ''-'' else []) @ ds)"
    using assms(1,2,3) by (auto simp: t_def n_def take_Suc_conv_app_nth)
  have "finish_str neg str i = Inr (rev (take n (t[n := NUL])) @ drop n (t[n := NUL]))"
    unfolding f using n reverse_loop_rev [of n "t[n := NUL]"] by simp
  moreover have "drop n (t[n := NUL]) = NUL # drop (Suc n) t"
    using n by (simp add: Cons_nth_drop_Suc [symmetric])
  ultimately have "finish_str neg str i = Inr (((if neg then ''-'' else []) @ ds) @ NUL # drop (Suc n) t)"
    using tk by simp
  moreover have "length (((if neg then ''-'' else []) @ ds) @ NUL # drop (Suc n) t) = length str"
    using n assms(1,3) by (auto simp: n_def)
  moreover have "cstr (((if neg then ''-'' else []) @ ds) @ NUL # drop (Suc n) t) = (if neg then ''-'' else []) @ ds"
    using assms(4) unfolding cstr_def by (subst takeWhile_append2) auto
  ultimately show ?thesis by blast
qed

lemma int_to_str_decimal:
  assumes "sint n \<noteq> - 2147483648" and "length (decimal (sint n)) < length str"
  shows "\<exists>s. int_to_str n str = Inr s \<and> length s = length str \<and> cstr s = decimal (sint n)"
proof (cases "n = 0")
  case True
  have "decimal 0 = ''0''" by (simp add: decimal_def digits.simps hex_def)
  moreover obtain a b r where "str = a # b # r"
    using assms(2) True \<open>decimal 0 = ''0''\<close> by (cases str rule: remdups_adj.cases) auto
  ultimately show ?thesis using True by (simp add: int_to_str_def cstr_def)
next
  case False
  let ?neg = "sint n < 0"
  let ?v = "\<bar>sint n\<bar>"
  let ?ds = "digits 10 (nat ?v)"
  have z: "sint n \<noteq> 0" using False by (metis signed_eq_0_iff)
  have neg: "sint (- n) = - sint n" using assms(1) sint32_range [of n] sint32_diff [of 0 n] by simp
  then have v: "sint (if ?neg then - n else n) = ?v" by simp
  have len: "length ?ds + (if ?neg then 1 else 0) < length str" using assms(2) by (auto simp: decimal_def)
  obtain s where s: "digit_loop ?v str 0 = Inr (s, length ?ds)" "length s = length str" "take (length ?ds) s = rev ?ds"
    using digit_loop_digits [of ?v 0 str] z len by auto
  obtain s' where s': "finish_str ?neg s (length ?ds) = Inr s'" "length s' = length s" "cstr s' = (if ?neg then ''-'' else []) @ ?ds"
    using finish_str_text [of "length ?ds" ?neg s ?ds] len s digits_not_NUL [of 10] by auto
  then have "int_to_str n str = Inr s'" using False s(1) by (simp add: int_to_str_def Let_def v)
  with s' s(2) show ?thesis by (simp add: decimal_def)
qed

lemma int_to_str2_eq:
  assumes "length str \<ge> 2"
  shows "int_to_str2 n str = int_to_str n str"
proof (cases "n = 0")
  case True
  obtain a b r where "str = a # b # r" using assms by (cases str rule: remdups_adj.cases) auto
  with True show ?thesis
    by (simp add: int_to_str2_def int_to_str_def digit_loop.simps finish_str_def reverse_loop.simps)
qed (simp add: int_to_str2_def int_to_str_def)

lemma decimal_length: "length (decimal (sint (n :: i32))) \<le> 11"
proof -
  have "nat \<bar>sint n\<bar> < 10 ^ Suc 9" using sint32_range [of n] by auto
  then show ?thesis using length_digits [of 10 "nat \<bar>sint n\<bar>" 9] by (auto simp: decimal_def)
qed

text \<open>The one value whose negation wraps comes out in characters below the digits.\<close>

definition text32 :: "i32 \<Rightarrow> string" where
  "text32 n = (if sint n = - 2147483648 then ''-./,),(-*,('' else decimal (sint n))"

lemma low_chars:
  "char_of (40 :: nat) = CHR ''(''" "char_of (41 :: nat) = CHR '')''" "char_of (42 :: nat) = CHR ''*''"
  "char_of (44 :: nat) = CHR '',''" "char_of (45 :: nat) = CHR ''-''" "char_of (46 :: nat) = CHR ''.''"
  "char_of (47 :: nat) = CHR ''/''"
  by code_simp+

lemma int_to_str_min:
  assumes "length str = 12"
  shows "\<exists>s. int_to_str 0x80000000 str = Inr s \<and> length s = 12 \<and> cstr s = ''-./,),(-*,(''"
proof -
  from assms obtain a b c d e f g h i j k l where "str = [a, b, c, d, e, f, g, h, i, j, k, l]"
    by (auto simp: eval_nat_numeral length_Suc_conv)
  then show ?thesis
    by (simp add: int_to_str_def Let_def digit_loop.simps c_arith to_char_def finish_str_def reverse_loop_rev cstr_def low_chars)
qed

lemma int_to_str_text:
  assumes "length str = 12"
  shows "\<exists>s. int_to_str n str = Inr s \<and> length s = 12 \<and> cstr s = text32 n"
proof (cases "sint n = - 2147483648")
  case True
  then have "sint n = sint (0x80000000 :: i32)" by simp
  then have "n = 0x80000000" by (rule signed_word_eqI)
  then show ?thesis using int_to_str_min [OF assms] by (simp add: text32_def)
next
  case False
  then show ?thesis using int_to_str_decimal [OF False, of str] decimal_length [of n] assms by (simp add: text32_def)
qed

subsection \<open>Reading back\<close>

lemma hex_digit: "n < 10 \<Longrightarrow> is_digit (hex ! n) \<and> of_char (hex ! n) = int n + 48"
proof -
  have "\<forall>n \<in> {..<10}. is_digit (hex ! n) \<and> of_char (hex ! n) = int n + 48" by code_simp
  then show "n < 10 \<Longrightarrow> is_digit (hex ! n) \<and> of_char (hex ! n) = int n + 48" by simp
qed

lemma digits10_digit: "list_all is_digit (digits 10 n)"
proof (induction "10 :: nat" n rule: digits.induct)
  case (1 n)
  then show ?case using hex_digit [of n] hex_digit [of "n mod 10"] by (subst digits.simps) auto
qed

lemma digits10_value: "digits_value (digits 10 n) = int n"
proof -
  have "foldl (\<lambda>a c. 10 * a + (of_char c - 48)) 0 (digits 10 n) = int n"
  proof (induction "10 :: nat" n rule: digits.induct)
    case (1 n)
    then show ?case using hex_digit [of n] hex_digit [of "n mod 10"] by (subst digits.simps) (auto simp: zdiv_int zmod_int)
  qed
  moreover have "takeWhile is_digit (digits 10 n) = digits 10 n"
    using digits10_digit [of n] by (simp only: takeWhile_eq_all_conv list_all_iff)
  ultimately show ?thesis unfolding digits_value_def by (simp only:)
qed

lemma atoi_decimal:
  "- 2147483648 \<le> v \<Longrightarrow> v < 2147483648 \<Longrightarrow> atoi (decimal v) = Inr (word_of_int v)"
proof -
  obtain c s where c: "digits 10 (nat \<bar>v\<bar>) = c # s" "is_digit c"
    using digits10_digit [of "nat \<bar>v\<bar>"] digits_nonempty by (cases "digits 10 (nat \<bar>v\<bar>)") auto
  have nd: "\<not> is_digit CHR '' ''" "\<not> is_digit CHR ''-''" "\<not> is_digit CHR ''+''" by (simp_all add: is_digit_def)
  have ns: "\<not> is_space c" using c(2) nd by (auto simp: is_space_def is_digit_def)
  have m: "\<not> is_space CHR ''-''" by (simp add: is_space_def)
  have "c \<noteq> CHR ''-''" "c \<noteq> CHR ''+''" using c(2) nd by auto
  then have sv: "signed_value (c # s) = digits_value (c # s)"
    by (auto simp: signed_value_def split: char.splits bool.splits)
  have "signed_value (dropWhile is_space (decimal v)) = v"
    using sv digits10_value [of "nat \<bar>v\<bar>"] ns m c(1) by (simp add: decimal_def) (simp add: signed_value_def)
  then show "- 2147483648 \<le> v \<Longrightarrow> v < 2147483648 \<Longrightarrow> atoi (decimal v) = Inr (word_of_int v)"
    by (simp add: atoi_def)
qed

subsection \<open>The contract of both versions\<close>

text \<open>What a caller with a buffer of twelve characters relies on.\<close>

locale int_writer =
  fixes write_int :: "i32 \<Rightarrow> string \<Rightarrow> string res"
  assumes writes: "length str = 12 \<Longrightarrow> n \<noteq> 0x80000000 \<Longrightarrow>
    \<exists>s. write_int n str = Inr s \<and> length s = 12 \<and> cstr s = decimal (sint n)"
begin

lemma reads_back:
  assumes "length str = 12" and "n \<noteq> 0x80000000"
  shows "\<exists>s. write_int n str = Inr s \<and> atoi (cstr s) = Inr n"
  using writes [OF assms] atoi_decimal [of "sint n"] sint32_range [of n] by auto

text \<open>The text determines the number, and a buffer can be used again.\<close>

lemma texts_differ:
  assumes "length str = 12" "length str' = 12" "m \<noteq> 0x80000000" "n \<noteq> 0x80000000"
    and "write_int m str = Inr s" "write_int n str' = Inr s'" "cstr s = cstr s'"
  shows "m = n"
  using reads_back [OF assms(1,3)] reads_back [OF assms(2,4)] assms(5-7) by auto

lemma write_again:
  assumes "length str = 12" and "m \<noteq> 0x80000000" and "n \<noteq> 0x80000000"
  shows "\<exists>s. bnd (write_int m str) (write_int n) = Inr s \<and> cstr s = decimal (sint n)"
  using writes [OF assms(1,2)] writes [OF _ assms(3)] by fastforce

end

lemma not_min: "n \<noteq> (0x80000000 :: i32) \<Longrightarrow> sint n \<noteq> - 2147483648"
proof
  assume "n \<noteq> (0x80000000 :: i32)" and "sint n = - 2147483648"
  then have "sint n = sint (0x80000000 :: i32)" by simp
  with \<open>n \<noteq> 0x80000000\<close> show False using signed_word_eqI by blast
qed

lemma int_to_str_writes:
  "length str = 12 \<Longrightarrow> n \<noteq> 0x80000000 \<Longrightarrow> \<exists>s. int_to_str n str = Inr s \<and> length s = 12 \<and> cstr s = decimal (sint n)"
  using int_to_str_text [of str n] not_min [of n] by (simp add: text32_def)

interpretation lab1_text: int_writer int_to_str
  by unfold_locales (rule int_to_str_writes)

interpretation lab2_text: int_writer int_to_str2
  by unfold_locales (simp add: int_to_str2_eq int_to_str_writes)

end
