(* ===== verification/Ring.thy ===== *)
theory Ring
  imports Prelude
begin

section \<open>Ring buffers\<close>

text \<open>
  The bounded buffers of the serial and CAN drivers: an array with the index of the next free slot,
  the index of the oldest entry and the number of entries. Indices are C ints that stay between 0
  and the size of the array, so they are naturals here. The locale \<open>bounded_fifo\<close> is what a driver
  relies on; both drivers interpret it on their own operations.
\<close>

record 'a ring =
  r_head :: nat
  r_tail :: nat
  r_count :: nat
  r_buf :: "'a list"

definition ring_rep :: "nat \<Rightarrow> ('a, 'b) ring_scheme \<Rightarrow> bool" where
  "ring_rep n r \<longleftrightarrow> length (r_buf r) = n \<and> 0 < n \<and> r_tail r < n \<and> r_count r \<le> n
     \<and> r_head r = (r_tail r + r_count r) mod n"

definition ring_abs :: "('a, 'b) ring_scheme \<Rightarrow> 'a list" where
  "ring_abs r = map (\<lambda>i. r_buf r ! ((r_tail r + i) mod length (r_buf r))) [0..<r_count r]"

lemma length_ring_abs [simp]: "length (ring_abs r) = r_count r" by (simp add: ring_abs_def)

lemma ring_abs_Nil [simp]: "ring_abs r = [] \<longleftrightarrow> r_count r = 0"
  by (metis length_0_conv length_ring_abs)

lemma ring_rep_head [simp]: "ring_rep n r \<Longrightarrow> r_head r < length (r_buf r)"
  by (simp add: ring_rep_def)

lemma ring_rep_tail [simp]: "ring_rep n r \<Longrightarrow> r_tail r < length (r_buf r)"
  by (simp add: ring_rep_def)

lemma ring_rep_length: "ring_rep n r \<Longrightarrow> length (r_buf r) = n"
  by (simp add: ring_rep_def)

lemma mod_offset_neq:
  assumes "(i :: nat) < k" and "k < n"
  shows "(t + i) mod n \<noteq> (t + k) mod n"
proof
  assume "(t + i) mod n = (t + k) mod n"
  then have "n dvd k - i"
    using assms by (metis add_diff_cancel_left dvd_refl le_add1 less_imp_le mod_eq_dvd_iff_nat nat_add_left_cancel_le)
  with assms show False by (auto dest: dvd_imp_le)
qed

lemma ring_push:
  assumes "ring_rep n r" and "r_count r < n"
  shows "ring_rep n (r\<lparr>r_head := Suc (r_head r) mod n, r_count := Suc (r_count r), r_buf := (r_buf r)[r_head r := x]\<rparr>)"
    and "ring_abs (r\<lparr>r_head := Suc (r_head r) mod n, r_count := Suc (r_count r), r_buf := (r_buf r)[r_head r := x]\<rparr>)
         = ring_abs r @ [x]"
proof -
  from assms have *: "length (r_buf r) = n" "r_head r = (r_tail r + r_count r) mod n" "0 < n"
    by (simp_all add: ring_rep_def)
  show "ring_rep n (r\<lparr>r_head := Suc (r_head r) mod n, r_count := Suc (r_count r), r_buf := (r_buf r)[r_head r := x]\<rparr>)"
    using assms by (simp add: ring_rep_def mod_Suc_eq)
  have "(r_buf r)[r_head r := x] ! ((r_tail r + i) mod n) = r_buf r ! ((r_tail r + i) mod n)" if "i < r_count r" for i
    using mod_offset_neq [OF that assms(2), THEN not_sym] * by simp
  then show "ring_abs (r\<lparr>r_head := Suc (r_head r) mod n, r_count := Suc (r_count r), r_buf := (r_buf r)[r_head r := x]\<rparr>)
      = ring_abs r @ [x]"
    using * by (simp add: ring_abs_def)
qed

lemma ring_pop:
  assumes "ring_rep n r" and "0 < r_count r"
  shows "ring_rep n (r\<lparr>r_tail := Suc (r_tail r) mod n, r_count := r_count r - 1\<rparr>)"
    and "ring_abs r = r_buf r ! r_tail r # ring_abs (r\<lparr>r_tail := Suc (r_tail r) mod n, r_count := r_count r - 1\<rparr>)"
proof -
  from assms have *: "length (r_buf r) = n" "r_tail r < n" by (simp_all add: ring_rep_def)
  obtain c where c: "r_count r = Suc c" using assms(2) by (cases "r_count r") auto
  show "ring_rep n (r\<lparr>r_tail := Suc (r_tail r) mod n, r_count := r_count r - 1\<rparr>)"
    using assms c by (simp add: ring_rep_def mod_add_left_eq mod_Suc_eq_mod_add3 mod_simps)
  have "map (\<lambda>i. r_buf r ! ((r_tail r + i) mod n)) [0..<Suc c]
      = r_buf r ! r_tail r # map (\<lambda>i. r_buf r ! ((Suc (r_tail r) mod n + i) mod n)) [0..<c]"
    using * by (simp add: upt_conv_Cons map_Suc_upt [symmetric] o_def mod_simps del: upt_Suc)
  then show "ring_abs r = r_buf r ! r_tail r # ring_abs (r\<lparr>r_tail := Suc (r_tail r) mod n, r_count := r_count r - 1\<rparr>)"
    using c * by (simp add: ring_abs_def)
qed

subsection \<open>The interface\<close>

text \<open>A run of \<open>put\<close>s, and \<open>n\<close> \<open>get\<close>s with the entries they return.\<close>

primrec put_all :: "('a \<Rightarrow> 's \<Rightarrow> 's res) \<Rightarrow> 'a list \<Rightarrow> 's \<Rightarrow> 's res" where
  "put_all put [] s = Inr s"
| "put_all put (x # xs) s = bnd (put x s) (put_all put xs)"

primrec get_all :: "('s \<Rightarrow> ('a option \<times> 's) res) \<Rightarrow> nat \<Rightarrow> 's \<Rightarrow> ('a list \<times> 's) res" where
  "get_all get 0 s = Inr ([], s)"
| "get_all get (Suc n) s = bnd (get s) (\<lambda>(x, s'). bnd (get_all get n s') (\<lambda>(xs, s'').
     Inr (case x of None \<Rightarrow> xs | Some y \<Rightarrow> y # xs, s'')))"

text \<open>
  A bounded first-in first-out buffer: \<open>put\<close> appends an acceptable entry while there is room and
  otherwise leaves the buffer alone, \<open>get\<close> takes the oldest entry.
\<close>

locale bounded_fifo =
  fixes put :: "'a \<Rightarrow> 's \<Rightarrow> 's res"
    and get :: "'s \<Rightarrow> ('a option \<times> 's) res"
    and inv :: "'s \<Rightarrow> bool"
    and cont :: "'s \<Rightarrow> 'a list"
    and ok :: "'a \<Rightarrow> bool"
    and cap :: nat
  assumes cap_bound: "inv s \<Longrightarrow> length (cont s) \<le> cap"
    and put_room: "inv s \<Longrightarrow> ok x \<Longrightarrow> length (cont s) < cap \<Longrightarrow> \<exists>s'. put x s = Inr s' \<and> inv s' \<and> cont s' = cont s @ [x]"
    and put_full: "inv s \<Longrightarrow> ok x \<Longrightarrow> length (cont s) = cap \<Longrightarrow> put x s = Inr s"
    and get_some: "inv s \<Longrightarrow> cont s = x # xs \<Longrightarrow> \<exists>s'. get s = Inr (Some x, s') \<and> inv s' \<and> cont s' = xs"
    and get_none: "inv s \<Longrightarrow> cont s = [] \<Longrightarrow> get s = Inr (None, s)"
begin

lemma put_total: "inv s \<Longrightarrow> ok x \<Longrightarrow> \<exists>s'. put x s = Inr s' \<and> inv s' \<and> cont s' = take cap (cont s @ [x])"
  using put_room [of s x] put_full [of s x] cap_bound [of s]
  by (cases "length (cont s) < cap") auto

lemma puts_total:
  "inv s \<Longrightarrow> list_all ok xs \<Longrightarrow> \<exists>s'. put_all put xs s = Inr s' \<and> inv s' \<and> cont s' = take cap (cont s @ xs)"
proof (induction xs arbitrary: s)
  case Nil
  then show ?case using cap_bound by simp
next
  case (Cons x xs)
  then obtain s1 where s1: "put x s = Inr s1" "inv s1" "cont s1 = take cap (cont s @ [x])"
    using put_total by fastforce
  with Cons obtain s2 where "put_all put xs s1 = Inr s2" "inv s2" "cont s2 = take cap (cont s1 @ xs)" by fastforce
  with s1 cap_bound [OF Cons.prems(1)] show ?case by (auto simp: min_def take_Cons' split: if_splits)
qed

lemma gets_total:
  "inv s \<Longrightarrow> \<exists>s'. get_all get n s = Inr (take n (cont s), s') \<and> inv s' \<and> cont s' = drop n (cont s)"
proof (induction n arbitrary: s)
  case (Suc n)
  show ?case
  proof (cases "cont s")
    case Nil
    with Suc.prems have "get s = Inr (None, s)" by (rule get_none)
    with Suc.IH [OF Suc.prems] Nil show ?thesis by auto
  next
    case (Cons x xs)
    then obtain s1 where "get s = Inr (Some x, s1)" "inv s1" "cont s1 = xs"
      using get_some Suc.prems by blast
    with Suc.IH [of s1] Cons show ?thesis by auto
  qed
qed auto

lemma puts_gets:
  assumes "inv s" and "list_all ok xs"
  shows "\<exists>s' s''. put_all put xs s = Inr s' \<and> get_all get n s' = Inr (take n (take cap (cont s @ xs)), s'')
    \<and> inv s'' \<and> cont s'' = drop n (take cap (cont s @ xs))"
  using puts_total [OF assms] gets_total by metis

end

end
