(* ===== verification/Stm_Can.thy ===== *)
theory Stm_Can
  imports Prelude
begin

section \<open>The CAN peripheral driver\<close>

text \<open>
  \<open>lib/md407/src/stm32f4xx_can.c\<close> over the registers of one controller. Registers are 32-bit words;
  a register the hardware changes while the driver polls it is a stream of the values successive
  reads return. The parameter checks (\<open>assert_param\<close>) are empty in this build. \<open>FunctionalState\<close>
  and \<open>FlagStatus\<close> are booleans.
\<close>

record can_mailbox =
  mb_IR :: u32
  mb_DTR :: u32
  mb_DLR :: u32
  mb_DHR :: u32

record CAN_TypeDef =
  can_MCR :: u32
  can_MSR :: u32
  can_TSR :: u32
  can_RF0R :: u32
  can_RF1R :: u32
  can_IER :: u32
  can_ESR :: u32
  can_BTR :: u32
  sTxMailBox :: "nat \<Rightarrow> can_mailbox"
  sFIFOMailBox :: "nat \<Rightarrow> can_mailbox"
  can_FMR :: u32
  can_FM1R :: u32
  can_FS1R :: u32
  can_FFA1R :: u32
  can_FA1R :: u32
  sFilterRegister :: "(u32 \<times> u32) list"

record CAN_InitTypeDef =
  CAN_Prescaler :: u16
  CAN_Mode :: u8
  CAN_SJW :: u8
  CAN_BS1 :: u8
  CAN_BS2 :: u8
  CAN_TTCM :: bool
  CAN_ABOM :: bool
  CAN_AWUM :: bool
  CAN_NART :: bool
  CAN_RFLM :: bool
  CAN_TXFP :: bool

record CAN_FilterInitTypeDef =
  CAN_FilterIdHigh :: u16
  CAN_FilterIdLow :: u16
  CAN_FilterMaskIdHigh :: u16
  CAN_FilterMaskIdLow :: u16
  CAN_FilterFIFOAssignment :: u16
  CAN_FilterNumber :: u8
  CAN_FilterMode :: u8
  CAN_FilterScale :: u8
  CAN_FilterActivation :: bool

record CanMsgFrame =
  StdId :: u32
  ExtId :: u32
  IDE :: u8
  RTR :: u8
  DLC :: u8
  Data :: "u8 list"

text \<open>The receive side adds the filter match index.\<close>

record CanRxMsg = CanMsgFrame +
  FMI :: u8

subsection \<open>Polling\<close>

definition INAK_TIMEOUT :: nat where "INAK_TIMEOUT = 0xFFFF"

text \<open>
  \<open>while (busy(reg) && wait != TIMEOUT) wait++;\<close> from read \<open>i\<close> of the register's stream on: the index
  of the first read after the loop.
\<close>

fun poll :: "nat \<Rightarrow> (u32 \<Rightarrow> bool) \<Rightarrow> (nat \<Rightarrow> u32) \<Rightarrow> nat \<Rightarrow> nat" where
  "poll n busy rd i = (if busy (rd i) \<and> n \<noteq> 0 then poll (n - 1) busy rd (Suc i) else Suc i)"

declare poll.simps [simp del]

lemma poll_bounds: "Suc i \<le> poll n busy rd i \<and> poll n busy rd i \<le> Suc (i + n)"
proof (induction n busy rd i rule: poll.induct)
  case (1 n busy rd i)
  then show ?case
    by (subst (1 2) poll.simps) (cases "busy (rd i) \<and> n \<noteq> 0"; force)
qed

lemma poll_stops:
  "poll n busy rd i = Suc (i + d) \<Longrightarrow> d < n \<Longrightarrow> \<not> busy (rd (i + d))"
proof (induction n busy rd i arbitrary: d rule: poll.induct)
  case (1 n busy rd i)
  show ?case
  proof (cases "busy (rd i) \<and> n \<noteq> 0")
    case True
    then have p: "poll (n - 1) busy rd (Suc i) = Suc (i + d)" using "1.prems"(1) by (subst (asm) poll.simps) simp
    with poll_bounds [of "Suc i" "n - 1" busy rd] obtain e where e: "d = Suc e" by (cases d) auto
    with 1(1) [OF True, of e] p "1.prems"(2) show ?thesis by simp
  next
    case False
    with "1.prems" show ?thesis by (subst (asm) poll.simps) auto
  qed
qed

subsection \<open>Initialization and configuration\<close>

definition CAN_options :: "CAN_InitTypeDef \<Rightarrow> u32 \<Rightarrow> u32" where
  "CAN_options i r =
     put_bits (CAN_TXFP i) 0x04
       (put_bits (CAN_RFLM i) 0x08
         (put_bits (CAN_NART i) 0x10
           (put_bits (CAN_AWUM i) 0x20
             (put_bits (CAN_ABOM i) 0x40 (put_bits (CAN_TTCM i) 0x80 r)))))"

definition CAN_timing :: "CAN_InitTypeDef \<Rightarrow> u32" where
  "CAN_timing i = push_bit 30 (ucast (CAN_Mode i)) OR push_bit 24 (ucast (CAN_SJW i))
     OR push_bit 16 (ucast (CAN_BS1 i)) OR push_bit 20 (ucast (CAN_BS2 i)) OR (ucast (CAN_Prescaler i) - 1)"

definition CAN_Init :: "CAN_InitTypeDef \<Rightarrow> (nat \<Rightarrow> u32) \<Rightarrow> CAN_TypeDef \<Rightarrow> bool \<times> CAN_TypeDef" where
  "CAN_Init ini msr c =
     (let c1 = c\<lparr>can_MCR := can_MCR c AND NOT 0x02\<rparr>;
          c2 = c1\<lparr>can_MCR := can_MCR c1 OR 0x01\<rparr>;
          i = poll INAK_TIMEOUT (\<lambda>m. m AND 0x01 \<noteq> 0x01) msr 0
      in if msr i AND 0x01 \<noteq> 0x01 then (False, c2)
         else let c3 = c2\<lparr>can_MCR := CAN_options ini (can_MCR c2)\<rparr>;
                  c4 = c3\<lparr>can_BTR := CAN_timing ini\<rparr>;
                  c5 = c4\<lparr>can_MCR := can_MCR c4 AND NOT 0x01\<rparr>;
                  j = poll INAK_TIMEOUT (\<lambda>m. m AND 0x01 = 0x01) msr (Suc i)
              in (msr j AND 0x01 \<noteq> 0x01, c5))"

definition filter_bank :: "CAN_FilterInitTypeDef \<Rightarrow> u32 \<times> u32" where
  "filter_bank f =
     (if CAN_FilterScale f = 0
      then (push_bit 16 (0xFFFF AND ucast (CAN_FilterMaskIdLow f)) OR (0xFFFF AND ucast (CAN_FilterIdLow f)),
            push_bit 16 (0xFFFF AND ucast (CAN_FilterMaskIdHigh f)) OR (0xFFFF AND ucast (CAN_FilterIdHigh f)))
      else (push_bit 16 (0xFFFF AND ucast (CAN_FilterIdHigh f)) OR (0xFFFF AND ucast (CAN_FilterIdLow f)),
            push_bit 16 (0xFFFF AND ucast (CAN_FilterMaskIdHigh f)) OR (0xFFFF AND ucast (CAN_FilterMaskIdLow f))))"

text \<open>A bank number beyond the 28 banks writes outside the register block.\<close>

definition CAN_FilterInit :: "CAN_FilterInitTypeDef \<Rightarrow> CAN_TypeDef \<Rightarrow> CAN_TypeDef res" where
  "CAN_FilterInit f c =
     (let pos = push_bit (unat (CAN_FilterNumber f)) (1 :: u32);
          n = unat (CAN_FilterNumber f);
          c1 = c\<lparr>can_FMR := can_FMR c OR 0x01\<rparr>;
          c2 = c1\<lparr>can_FA1R := can_FA1R c1 AND NOT pos\<rparr>
      in bnd (if CAN_FilterScale f = 0
              then bnd (aset (sFilterRegister c2) n (filter_bank f))
                     (\<lambda>r. Inr (c2\<lparr>can_FS1R := can_FS1R c2 AND NOT pos, sFilterRegister := r\<rparr>))
              else if CAN_FilterScale f = 1
              then bnd (aset (sFilterRegister c2) n (filter_bank f))
                     (\<lambda>r. Inr (c2\<lparr>can_FS1R := can_FS1R c2 OR pos, sFilterRegister := r\<rparr>))
              else Inr c2) (\<lambda>c3.
         let c4 = c3\<lparr>can_FM1R := (if CAN_FilterMode f = 0 then can_FM1R c3 AND NOT pos else can_FM1R c3 OR pos)\<rparr>;
             c5 = (if CAN_FilterFIFOAssignment f = 0 then c4\<lparr>can_FFA1R := can_FFA1R c4 AND NOT pos\<rparr> else c4);
             c6 = (if CAN_FilterFIFOAssignment f = 1 then c5\<lparr>can_FFA1R := can_FFA1R c5 OR pos\<rparr> else c5);
             c7 = (if CAN_FilterActivation f then c6\<lparr>can_FA1R := can_FA1R c6 OR pos\<rparr> else c6)
         in Inr (c7\<lparr>can_FMR := can_FMR c7 AND NOT 0x01\<rparr>)))"

definition CAN_StructInit :: CAN_InitTypeDef where
  "CAN_StructInit = \<lparr>CAN_Prescaler = 1, CAN_Mode = 0, CAN_SJW = 0, CAN_BS1 = 3, CAN_BS2 = 2,
     CAN_TTCM = False, CAN_ABOM = False, CAN_AWUM = False, CAN_NART = False, CAN_RFLM = False, CAN_TXFP = False\<rparr>"

definition CAN_SlaveStartBank :: "u8 \<Rightarrow> CAN_TypeDef \<Rightarrow> CAN_TypeDef" where
  "CAN_SlaveStartBank n c =
     (let r1 = can_FMR c OR 0x01; r2 = r1 AND 0xFFFFC0F1; r3 = r2 OR push_bit 8 (ucast n)
      in c\<lparr>can_FMR := r3 AND NOT 0x01\<rparr>)"

definition CAN_DBGFreeze :: "bool \<Rightarrow> CAN_TypeDef \<Rightarrow> CAN_TypeDef" where
  "CAN_DBGFreeze on c = c\<lparr>can_MCR := put_bits on 0x10000 (can_MCR c)\<rparr>"

definition upd_tx :: "nat \<Rightarrow> (can_mailbox \<Rightarrow> can_mailbox) \<Rightarrow> CAN_TypeDef \<Rightarrow> CAN_TypeDef" where
  "upd_tx n f c = c\<lparr>sTxMailBox := (sTxMailBox c)(n := f (sTxMailBox c n))\<rparr>"

definition CAN_TTComModeCmd :: "bool \<Rightarrow> CAN_TypeDef \<Rightarrow> CAN_TypeDef" where
  "CAN_TTComModeCmd on c =
     (let tgt = (\<lambda>m. m\<lparr>mb_DTR := put_bits on 0x100 (mb_DTR m)\<rparr>)
      in upd_tx 2 tgt (upd_tx 1 tgt (upd_tx 0 tgt (c\<lparr>can_MCR := put_bits on 0x80 (can_MCR c)\<rparr>))))"

subsection \<open>Frames\<close>

definition CAN_TxStatus_Failed :: u8 where "CAN_TxStatus_Failed = 0"
definition CAN_TxStatus_Ok :: u8 where "CAN_TxStatus_Ok = 1"
definition CAN_TxStatus_Pending :: u8 where "CAN_TxStatus_Pending = 2"
definition CAN_TxStatus_NoMailBox :: u8 where "CAN_TxStatus_NoMailBox = 4"

definition free_mailbox :: "u32 \<Rightarrow> u8" where
  "free_mailbox tsr =
     (if tsr AND 0x04000000 = 0x04000000 then 0
      else if tsr AND 0x08000000 = 0x08000000 then 1
      else if tsr AND 0x10000000 = 0x10000000 then 2
      else CAN_TxStatus_NoMailBox)"

text \<open>Four data bytes of a message in one register, the first in the low byte.\<close>

definition data_word :: "u8 list \<Rightarrow> nat \<Rightarrow> u32" where
  "data_word d k = push_bit 24 (ucast (d ! (k + 3))) OR push_bit 16 (ucast (d ! (k + 2)))
     OR push_bit 8 (ucast (d ! (k + 1))) OR ucast (d ! k)"

definition fill_mailbox :: "CanMsgFrame \<Rightarrow> can_mailbox \<Rightarrow> can_mailbox" where
  "fill_mailbox t m =
     (let ir1 = mb_IR m AND 0x01;
          ir2 = (if IDE t = 0 then ir1 OR (push_bit 21 (StdId t) OR ucast (RTR t))
                 else ir1 OR (push_bit 3 (ExtId t) OR ucast (IDE t) OR ucast (RTR t)))
      in \<lparr>mb_IR = ir2 OR 0x01, mb_DTR = (mb_DTR m AND 0xFFFFFFF0) OR ucast (DLC t AND 0x0F),
          mb_DLR = data_word (Data t) 0, mb_DHR = data_word (Data t) 4\<rparr>)"

text \<open>The mailbox used, the message with its length field masked, the registers.\<close>

definition CAN_Transmit :: "CanMsgFrame \<Rightarrow> CAN_TypeDef \<Rightarrow> u8 \<times> CanMsgFrame \<times> CAN_TypeDef" where
  "CAN_Transmit t c =
     (let mb = free_mailbox (can_TSR c)
      in if mb = CAN_TxStatus_NoMailBox then (mb, t, c)
         else (mb, t\<lparr>DLC := DLC t AND 0x0F\<rparr>, upd_tx (unat mb) (fill_mailbox t) c))"

definition CAN_TransmitStatus :: "u8 \<Rightarrow> u32 \<Rightarrow> u8" where
  "CAN_TransmitStatus mb tsr =
     (let state = (if mb = 0 then tsr AND 0x04000003 else if mb = 1 then tsr AND 0x08000300
                   else if mb = 2 then tsr AND 0x10030000 else ucast CAN_TxStatus_Failed)
      in if state = 0 then CAN_TxStatus_Pending
         else if state = 0x04000001 \<or> state = 0x08000100 \<or> state = 0x10010000 then CAN_TxStatus_Failed
         else if state = 0x04000003 \<or> state = 0x08000300 \<or> state = 0x10030000 then CAN_TxStatus_Ok
         else CAN_TxStatus_Failed)"

definition CAN_CancelTransmit :: "u8 \<Rightarrow> CAN_TypeDef \<Rightarrow> CAN_TypeDef" where
  "CAN_CancelTransmit mb c =
     (if mb = 0 then c\<lparr>can_TSR := can_TSR c OR 0x80\<rparr>
      else if mb = 1 then c\<lparr>can_TSR := can_TSR c OR 0x8000\<rparr>
      else if mb = 2 then c\<lparr>can_TSR := can_TSR c OR 0x800000\<rparr> else c)"

definition data_bytes :: "u32 \<Rightarrow> u8 list" where
  "data_bytes r = [ucast (0xFF AND r), ucast (0xFF AND drop_bit 8 r), ucast (0xFF AND drop_bit 16 r),
     ucast (0xFF AND drop_bit 24 r)]"

definition read_mailbox :: "can_mailbox \<Rightarrow> CanRxMsg \<Rightarrow> CanRxMsg" where
  "read_mailbox m r =
     (let r1 = r\<lparr>IDE := ucast (0x04 AND mb_IR m)\<rparr>;
          r2 = (if IDE r1 = 0 then r1\<lparr>StdId := 0x7FF AND drop_bit 21 (mb_IR m)\<rparr>
                else r1\<lparr>ExtId := 0x1FFFFFFF AND drop_bit 3 (mb_IR m)\<rparr>)
      in r2\<lparr>RTR := ucast (0x02 AND mb_IR m), DLC := ucast (0x0F AND mb_DTR m),
            FMI := ucast (0xFF AND drop_bit 8 (mb_DTR m)),
            Data := data_bytes (mb_DLR m) @ data_bytes (mb_DHR m)\<rparr>)"

definition CAN_FIFORelease :: "u8 \<Rightarrow> CAN_TypeDef \<Rightarrow> CAN_TypeDef" where
  "CAN_FIFORelease f c =
     (if f = 0 then c\<lparr>can_RF0R := can_RF0R c OR 0x20\<rparr> else c\<lparr>can_RF1R := can_RF1R c OR 0x20\<rparr>)"

text \<open>\<open>r\<close> is the caller's message structure as it was before the call.\<close>

definition CAN_Receive :: "u8 \<Rightarrow> CanRxMsg \<Rightarrow> CAN_TypeDef \<Rightarrow> CanRxMsg \<times> CAN_TypeDef" where
  "CAN_Receive f r c = (read_mailbox (sFIFOMailBox c (unat f)) r, CAN_FIFORelease f c)"

definition CAN_MessagePending :: "u8 \<Rightarrow> CAN_TypeDef \<Rightarrow> u8" where
  "CAN_MessagePending f c =
     (if f = 0 then ucast (can_RF0R c AND 0x03) else if f = 1 then ucast (can_RF1R c AND 0x03) else 0)"

subsection \<open>Operation modes\<close>

definition CAN_OperatingModeRequest :: "u8 \<Rightarrow> (nat \<Rightarrow> u32) \<Rightarrow> CAN_TypeDef \<Rightarrow> bool \<times> CAN_TypeDef" where
  "CAN_OperatingModeRequest mode msr c =
     (let wait = (\<lambda>v. msr (poll INAK_TIMEOUT (\<lambda>m. m AND 0x03 \<noteq> v) msr 0) AND 0x03 = v)
      in if mode = 0 then (wait 0x01, c\<lparr>can_MCR := (can_MCR c AND NOT 0x02) OR 0x01\<rparr>)
         else if mode = 1 then (wait 0, c\<lparr>can_MCR := can_MCR c AND NOT 0x03\<rparr>)
         else if mode = 2 then (wait 0x02, c\<lparr>can_MCR := (can_MCR c AND NOT 0x01) OR 0x02\<rparr>)
         else (False, c))"

definition CAN_Sleep :: "u32 \<Rightarrow> CAN_TypeDef \<Rightarrow> bool \<times> CAN_TypeDef" where
  "CAN_Sleep msr c = (msr AND 0x03 = 0x02, c\<lparr>can_MCR := (can_MCR c AND NOT 0x01) OR 0x02\<rparr>)"

definition CAN_WakeUp :: "(nat \<Rightarrow> u32) \<Rightarrow> CAN_TypeDef \<Rightarrow> bool \<times> CAN_TypeDef" where
  "CAN_WakeUp msr c =
     (msr (poll INAK_TIMEOUT (\<lambda>m. m AND 0x02 = 0x02) msr 0) AND 0x02 \<noteq> 0x02,
      c\<lparr>can_MCR := can_MCR c AND NOT 0x02\<rparr>)"

definition CAN_GetLastErrorCode :: "CAN_TypeDef \<Rightarrow> u8" where
  "CAN_GetLastErrorCode c = ucast (can_ESR c) AND 0x70"
definition CAN_GetReceiveErrorCounter :: "CAN_TypeDef \<Rightarrow> u8" where
  "CAN_GetReceiveErrorCounter c = ucast (drop_bit 24 (can_ESR c AND 0xFF000000))"
definition CAN_GetLSBTransmitErrorCounter :: "CAN_TypeDef \<Rightarrow> u8" where
  "CAN_GetLSBTransmitErrorCounter c = ucast (drop_bit 16 (can_ESR c AND 0x00FF0000))"

subsection \<open>Interrupts and flags\<close>

definition CAN_ITConfig :: "u32 \<Rightarrow> bool \<Rightarrow> CAN_TypeDef \<Rightarrow> CAN_TypeDef" where
  "CAN_ITConfig it on c = c\<lparr>can_IER := put_bits on it (can_IER c)\<rparr>"

text \<open>The register a flag lives in is coded in the flag's upper bits.\<close>

definition CAN_GetFlagStatus :: "u32 \<Rightarrow> CAN_TypeDef \<Rightarrow> bool" where
  "CAN_GetFlagStatus flag c =
     (if flag AND 0x00F00000 \<noteq> 0 then can_ESR c AND (flag AND 0x000FFFFF) \<noteq> 0
      else if flag AND 0x01000000 \<noteq> 0 then can_MSR c AND (flag AND 0x000FFFFF) \<noteq> 0
      else if flag AND 0x08000000 \<noteq> 0 then can_TSR c AND (flag AND 0x000FFFFF) \<noteq> 0
      else if flag AND 0x02000000 \<noteq> 0 then can_RF0R c AND (flag AND 0x000FFFFF) \<noteq> 0
      else can_RF1R c AND (flag AND 0x000FFFFF) \<noteq> 0)"

text \<open>The flag registers are cleared by writing ones; the model keeps the word written.\<close>

definition CAN_ClearFlag :: "u32 \<Rightarrow> CAN_TypeDef \<Rightarrow> CAN_TypeDef" where
  "CAN_ClearFlag flag c =
     (let f = flag AND 0x000FFFFF
      in if flag = 0x30F00070 then c\<lparr>can_ESR := 0\<rparr>
         else if flag AND 0x02000000 \<noteq> 0 then c\<lparr>can_RF0R := f\<rparr>
         else if flag AND 0x04000000 \<noteq> 0 then c\<lparr>can_RF1R := f\<rparr>
         else if flag AND 0x08000000 \<noteq> 0 then c\<lparr>can_TSR := f\<rparr>
         else c\<lparr>can_MSR := f\<rparr>)"

definition CheckITStatus :: "u32 \<Rightarrow> u32 \<Rightarrow> bool" where
  "CheckITStatus reg it = (reg AND it \<noteq> 0)"

definition CAN_GetITStatus :: "u32 \<Rightarrow> CAN_TypeDef \<Rightarrow> bool" where
  "CAN_GetITStatus it c =
     (if can_IER c AND it = 0 then False
      else if it = 0x01 then CheckITStatus (can_TSR c) 0x00010101
      else if it = 0x02 then CheckITStatus (can_RF0R c) 0x03
      else if it = 0x04 then CheckITStatus (can_RF0R c) 0x08
      else if it = 0x08 then CheckITStatus (can_RF0R c) 0x10
      else if it = 0x10 then CheckITStatus (can_RF1R c) 0x03
      else if it = 0x20 then CheckITStatus (can_RF1R c) 0x08
      else if it = 0x40 then CheckITStatus (can_RF1R c) 0x10
      else if it = 0x10000 then CheckITStatus (can_MSR c) 0x08
      else if it = 0x20000 then CheckITStatus (can_MSR c) 0x10
      else if it = 0x100 then CheckITStatus (can_ESR c) 0x01
      else if it = 0x200 then CheckITStatus (can_ESR c) 0x02
      else if it = 0x400 then CheckITStatus (can_ESR c) 0x04
      else if it = 0x800 then CheckITStatus (can_ESR c) 0x70
      else if it = 0x8000 then CheckITStatus (can_MSR c) 0x04
      else False)"

definition CAN_ClearITPendingBit :: "u32 \<Rightarrow> CAN_TypeDef \<Rightarrow> CAN_TypeDef" where
  "CAN_ClearITPendingBit it c =
     (if it = 0x01 then c\<lparr>can_TSR := 0x00010101\<rparr>
      else if it = 0x04 then c\<lparr>can_RF0R := 0x08\<rparr>
      else if it = 0x08 then c\<lparr>can_RF0R := 0x10\<rparr>
      else if it = 0x20 then c\<lparr>can_RF1R := 0x08\<rparr>
      else if it = 0x40 then c\<lparr>can_RF1R := 0x10\<rparr>
      else if it = 0x10000 then c\<lparr>can_MSR := 0x08\<rparr>
      else if it = 0x20000 then c\<lparr>can_MSR := 0x10\<rparr>
      else if it = 0x100 \<or> it = 0x200 \<or> it = 0x400 then c\<lparr>can_MSR := 0x04\<rparr>
      else if it = 0x800 \<or> it = 0x8000 then c\<lparr>can_ESR := 0, can_MSR := 0x04\<rparr>
      else c)"

subsection \<open>What a frame carries\<close>

text \<open>
  The hardware moves a mailbox from the sender's transmit side to the receiver's FIFO: identifier,
  length code and data are the same words; the request bit stays behind and the receiver adds its
  filter index and time stamp in the upper bits of the length register.
\<close>

definition on_the_bus :: "can_mailbox \<Rightarrow> can_mailbox \<Rightarrow> bool" where
  "on_the_bus tx rx \<longleftrightarrow> mb_IR rx = mb_IR tx AND NOT 0x01 \<and> mb_DTR rx AND 0x0F = mb_DTR tx AND 0x0F
     \<and> mb_DLR rx = mb_DLR tx \<and> mb_DHR rx = mb_DHR tx"

lemma data_bytes_word:
  assumes "length d = 8" and "k = 0 \<or> k = 4"
  shows "data_bytes (data_word d k) = take 4 (drop k d)"
proof -
  from assms(1) obtain d0 d1 d2 d3 d4 d5 d6 d7 where d: "d = [d0, d1, d2, d3, d4, d5, d6, d7]"
    by (auto simp: eval_nat_numeral length_Suc_conv)
  have b: "data_bytes (push_bit 24 (ucast w) OR push_bit 16 (ucast z) OR push_bit 8 (ucast y) OR ucast x)
      = [x, y, z, w]" for x y z w :: u8
    unfolding data_bytes_def
    by (intro list.expand; simp?; (intro conjI)?;
        rule bit_word_eqI; auto simp: bit_simps reg_bits)
  show ?thesis using assms(2) by (auto simp: d data_word_def b)
qed

lemma bits_below:
  assumes "(x :: u32) < 2 ^ k" and "k < 32" and "k \<le> n"
  shows "\<not> bit x n"
proof -
  have "x AND mask k = x" using assms(1) by (simp add: less_mask_eq)
  then have "bit x n = bit (x AND mask k) n" by simp
  with assms(3) show ?thesis by (simp add: bit_simps)
qed

lemma fill_mailbox_IR:
  assumes "IDE t = 0"
  shows "mb_IR (fill_mailbox t m) AND NOT 0x01 = (push_bit 21 (StdId t) OR ucast (RTR t)) AND NOT 0x01"
  using assms by (intro bit_word_eqI) (auto simp: fill_mailbox_def Let_def bit_simps reg_bits)

lemma frame_roundtrip:
  assumes "length (Data t) = 8" and "IDE t = 0" and "StdId t < 2 ^ 11" and "RTR t = 0 \<or> RTR t = 2"
    and "on_the_bus (fill_mailbox t m) rx"
  shows "IDE (read_mailbox rx r) = 0" and "StdId (read_mailbox rx r) = StdId t"
    and "RTR (read_mailbox rx r) = RTR t" and "DLC (read_mailbox rx r) = DLC t AND 0x0F"
    and "Data (read_mailbox rx r) = Data t"
proof -
  have ir: "mb_IR rx = (push_bit 21 (StdId t) OR ucast (RTR t)) AND NOT 0x01"
    using assms(2,5) fill_mailbox_IR by (simp add: on_the_bus_def)
  have rtr: "bit (RTR t) n \<longleftrightarrow> RTR t = 2 \<and> n = 1" for n
    using assms(4) by (auto simp: bit_simps reg_bits)
  have below: "n < 11" if "bit (StdId t) n" for n
    using bits_below [OF assms(3), of n] that by (cases "n < 11") auto
  have "ucast (0x04 AND mb_IR rx) = (0 :: u8)"
    unfolding ir by (rule bit_word_eqI) (auto simp: bit_simps reg_bits rtr)
  then show ide: "IDE (read_mailbox rx r) = 0" by (simp add: read_mailbox_def Let_def)
  have "0x7FF AND drop_bit 21 (mb_IR rx) = StdId t"
    unfolding ir by (rule bit_word_eqI) (auto simp: bit_simps reg_bits rtr dest: below)
  with \<open>ucast (0x04 AND mb_IR rx) = (0 :: u8)\<close> show "StdId (read_mailbox rx r) = StdId t"
    by (simp add: read_mailbox_def Let_def)
  have "ucast (0x02 AND mb_IR rx) = RTR t"
    unfolding ir by (rule bit_word_eqI) (auto simp: bit_simps reg_bits rtr)
  then show "RTR (read_mailbox rx r) = RTR t" by (simp add: read_mailbox_def Let_def)
  have "mb_DTR rx AND 0x0F = (mb_DTR (fill_mailbox t m)) AND 0x0F" using assms(5) by (simp add: on_the_bus_def)
  also have "\<dots> = ucast (DLC t AND 0x0F)"
    by (rule bit_word_eqI) (auto simp: fill_mailbox_def Let_def bit_simps reg_bits)
  finally have "ucast (0x0F AND mb_DTR rx) = (ucast (ucast (DLC t AND 0x0F) :: u32) :: u8)"
    by (simp add: and.commute)
  then show "DLC (read_mailbox rx r) = DLC t AND 0x0F" by (simp add: read_mailbox_def Let_def)
  have "mb_DLR rx = data_word (Data t) 0" "mb_DHR rx = data_word (Data t) 4"
    using assms(5) by (simp_all add: on_the_bus_def fill_mailbox_def Let_def)
  then have "data_bytes (mb_DLR rx) @ data_bytes (mb_DHR rx) = take 4 (Data t) @ take 4 (drop 4 (Data t))"
    using data_bytes_word [OF assms(1)] by simp
  also have "\<dots> = Data t" using assms(1) by (metis append_take_drop_id drop_drop length_drop numeral_Bit0
      take_all_iff diff_add_inverse le_refl)
  finally show "Data (read_mailbox rx r) = Data t" by (simp add: read_mailbox_def Let_def)
qed

subsection \<open>What initialization leaves\<close>

lemma CAN_options_bits:
  "bit (CAN_options i r) n =
     (if n = 2 then CAN_TXFP i else if n = 3 then CAN_RFLM i else if n = 4 then CAN_NART i
      else if n = 5 then CAN_AWUM i else if n = 6 then CAN_ABOM i else if n = 7 then CAN_TTCM i else bit r n)"
  by (auto simp: CAN_options_def bit_put_bits reg_bits)

lemma CAN_Init_eq:
  assumes "CAN_Init ini msr c = (True, c')"
  shows "c' = c\<lparr>can_BTR := CAN_timing ini, can_MCR := CAN_options ini ((can_MCR c AND NOT 0x02) OR 0x01) AND NOT 0x01\<rparr>"
    and "\<exists>i j. i < j \<and> j \<le> 2 * Suc INAK_TIMEOUT + 1 \<and> msr i AND 0x01 = 0x01 \<and> msr j AND 0x01 \<noteq> 0x01"
proof -
  let ?b1 = "\<lambda>m :: u32. m AND 0x01 \<noteq> 0x01" and ?b2 = "\<lambda>m :: u32. m AND 0x01 = 0x01"
  let ?i = "poll INAK_TIMEOUT ?b1 msr 0"
  let ?j = "poll INAK_TIMEOUT ?b2 msr (Suc ?i)"
  have a: "msr ?i AND 0x01 = 0x01"
    using assms by (auto simp: CAN_Init_def Let_def split: if_splits)
  then have b: "msr ?j AND 0x01 \<noteq> 0x01"
    using assms by (simp add: CAN_Init_def Let_def)
  show "c' = c\<lparr>can_BTR := CAN_timing ini, can_MCR := CAN_options ini ((can_MCR c AND NOT 0x02) OR 0x01) AND NOT 0x01\<rparr>"
    using assms a by (simp add: CAN_Init_def Let_def)
  show "\<exists>i j. i < j \<and> j \<le> 2 * Suc INAK_TIMEOUT + 1 \<and> msr i AND 0x01 = 0x01 \<and> msr j AND 0x01 \<noteq> 0x01"
    using a b poll_bounds [of 0 INAK_TIMEOUT ?b1 msr] poll_bounds [of "Suc ?i" INAK_TIMEOUT ?b2 msr]
    by (intro exI [of _ ?i] exI [of _ ?j]) simp
qed

end
