(* ===== verification/Stm_Usart.thy ===== *)
theory Stm_Usart
  imports Prelude
begin

section \<open>The USART peripheral driver\<close>

text \<open>
  \<open>lib/md407/src/stm32f4xx_usart.c\<close> over the registers of one port. The data register is two
  registers behind one address: a write goes to \<open>us_TDR\<close>, a read comes from \<open>us_RDR\<close>.
\<close>

record USART_TypeDef =
  us_SR :: u16
  us_TDR :: u16
  us_RDR :: u16
  us_BRR :: u16
  us_CR1 :: u16
  us_CR2 :: u16
  us_CR3 :: u16
  us_GTPR :: u16

record USART_InitTypeDef =
  USART_BaudRate :: u32
  USART_WordLength :: u16
  USART_StopBits :: u16
  USART_Parity :: u16
  USART_Mode :: u16
  USART_HardwareFlowControl :: u16

record USART_ClockInitTypeDef =
  USART_Clock :: u16
  USART_CPOL :: u16
  USART_CPHA :: u16
  USART_LastBit :: u16

definition USART_IT_TXE :: u16 where "USART_IT_TXE = 0x0727"
definition USART_IT_RXNE :: u16 where "USART_IT_RXNE = 0x0525"
definition USART_FLAG_TXE :: u16 where "USART_FLAG_TXE = 0x0080"
definition USART_FLAG_RXNE :: u16 where "USART_FLAG_RXNE = 0x0020"

subsection \<open>Initialization\<close>

text \<open>
  The divider of \<open>USART_Init\<close> in hundredths, and the mantissa and fraction made of it. \<open>over8\<close> is
  the \<open>OVER8\<close> bit of \<open>CR1\<close>; a baud rate of 0 divides by zero.
\<close>

definition integerdivider :: "bool \<Rightarrow> u32 \<Rightarrow> u32 \<Rightarrow> u32" where
  "integerdivider over8 apbclock baud = (25 * apbclock) div ((if over8 then 2 else 4) * baud)"

definition usart_brr :: "bool \<Rightarrow> u32 \<Rightarrow> u32" where
  "usart_brr over8 idiv =
     (let mantissa = push_bit 4 (idiv div 100);
          frac = idiv - 100 * drop_bit 4 mantissa
      in if over8 then mantissa OR ((frac * 8 + 50) div 100 AND 0x07)
         else mantissa OR ((frac * 16 + 50) div 100 AND 0x0F))"

definition USART_Init :: "USART_InitTypeDef \<Rightarrow> u32 \<Rightarrow> USART_TypeDef \<Rightarrow> USART_TypeDef res" where
  "USART_Init ini apbclock u =
     (let cr2 = (us_CR2 u AND NOT 0x3000) OR USART_StopBits ini;
          cr1 = (us_CR1 u AND NOT 0x160C) OR (USART_WordLength ini OR USART_Parity ini OR USART_Mode ini);
          cr3 = (us_CR3 u AND NOT 0x0300) OR USART_HardwareFlowControl ini;
          over8 = (cr1 AND 0x8000 \<noteq> 0)
      in if (if over8 then 2 else 4) * USART_BaudRate ini = 0 then Inl DivByZero
         else Inr (u\<lparr>us_CR2 := cr2, us_CR1 := cr1, us_CR3 := cr3,
           us_BRR := ucast (usart_brr over8 (integerdivider over8 apbclock (USART_BaudRate ini)))\<rparr>))"

definition USART_StructInit :: USART_InitTypeDef where
  "USART_StructInit = \<lparr>USART_BaudRate = 9600, USART_WordLength = 0, USART_StopBits = 0, USART_Parity = 0,
     USART_Mode = 0x0004 OR 0x0008, USART_HardwareFlowControl = 0\<rparr>"

definition USART_ClockInit :: "USART_ClockInitTypeDef \<Rightarrow> USART_TypeDef \<Rightarrow> USART_TypeDef" where
  "USART_ClockInit ini u = u\<lparr>us_CR2 := (us_CR2 u AND NOT 0x0F00) OR
     (USART_Clock ini OR USART_CPOL ini OR USART_CPHA ini OR USART_LastBit ini)\<rparr>"

definition USART_ClockStructInit :: USART_ClockInitTypeDef where
  "USART_ClockStructInit = \<lparr>USART_Clock = 0, USART_CPOL = 0, USART_CPHA = 0, USART_LastBit = 0\<rparr>"

definition USART_Cmd :: "bool \<Rightarrow> USART_TypeDef \<Rightarrow> USART_TypeDef" where
  "USART_Cmd on u = u\<lparr>us_CR1 := put_bits on 0x2000 (us_CR1 u)\<rparr>"
definition USART_SetPrescaler :: "u8 \<Rightarrow> USART_TypeDef \<Rightarrow> USART_TypeDef" where
  "USART_SetPrescaler p u = u\<lparr>us_GTPR := (us_GTPR u AND 0xFF00) OR ucast p\<rparr>"
definition USART_OverSampling8Cmd :: "bool \<Rightarrow> USART_TypeDef \<Rightarrow> USART_TypeDef" where
  "USART_OverSampling8Cmd on u = u\<lparr>us_CR1 := put_bits on 0x8000 (us_CR1 u)\<rparr>"
definition USART_OneBitMethodCmd :: "bool \<Rightarrow> USART_TypeDef \<Rightarrow> USART_TypeDef" where
  "USART_OneBitMethodCmd on u = u\<lparr>us_CR3 := put_bits on 0x0800 (us_CR3 u)\<rparr>"

subsection \<open>Data and modes\<close>

definition USART_SendData :: "u16 \<Rightarrow> USART_TypeDef \<Rightarrow> USART_TypeDef" where
  "USART_SendData d u = u\<lparr>us_TDR := d AND 0x01FF\<rparr>"
definition USART_ReceiveData :: "USART_TypeDef \<Rightarrow> u16" where
  "USART_ReceiveData u = us_RDR u AND 0x01FF"
definition USART_SetAddress :: "u8 \<Rightarrow> USART_TypeDef \<Rightarrow> USART_TypeDef" where
  "USART_SetAddress a u = u\<lparr>us_CR2 := (us_CR2 u AND NOT 0x000F) OR ucast a\<rparr>"
definition USART_ReceiverWakeUpCmd :: "bool \<Rightarrow> USART_TypeDef \<Rightarrow> USART_TypeDef" where
  "USART_ReceiverWakeUpCmd on u = u\<lparr>us_CR1 := put_bits on 0x0002 (us_CR1 u)\<rparr>"
definition USART_WakeUpConfig :: "u16 \<Rightarrow> USART_TypeDef \<Rightarrow> USART_TypeDef" where
  "USART_WakeUpConfig w u = u\<lparr>us_CR1 := (us_CR1 u AND NOT 0x0800) OR w\<rparr>"
definition USART_LINBreakDetectLengthConfig :: "u16 \<Rightarrow> USART_TypeDef \<Rightarrow> USART_TypeDef" where
  "USART_LINBreakDetectLengthConfig l u = u\<lparr>us_CR2 := (us_CR2 u AND NOT 0x0020) OR l\<rparr>"
definition USART_LINCmd :: "bool \<Rightarrow> USART_TypeDef \<Rightarrow> USART_TypeDef" where
  "USART_LINCmd on u = u\<lparr>us_CR2 := put_bits on 0x4000 (us_CR2 u)\<rparr>"
definition USART_SendBreak :: "USART_TypeDef \<Rightarrow> USART_TypeDef" where
  "USART_SendBreak u = u\<lparr>us_CR1 := us_CR1 u OR 0x0001\<rparr>"
definition USART_HalfDuplexCmd :: "bool \<Rightarrow> USART_TypeDef \<Rightarrow> USART_TypeDef" where
  "USART_HalfDuplexCmd on u = u\<lparr>us_CR3 := put_bits on 0x0008 (us_CR3 u)\<rparr>"
definition USART_SetGuardTime :: "u8 \<Rightarrow> USART_TypeDef \<Rightarrow> USART_TypeDef" where
  "USART_SetGuardTime g u = u\<lparr>us_GTPR := (us_GTPR u AND 0x00FF) OR push_bit 8 (ucast g)\<rparr>"
definition USART_SmartCardCmd :: "bool \<Rightarrow> USART_TypeDef \<Rightarrow> USART_TypeDef" where
  "USART_SmartCardCmd on u = u\<lparr>us_CR3 := put_bits on 0x0020 (us_CR3 u)\<rparr>"
definition USART_SmartCardNACKCmd :: "bool \<Rightarrow> USART_TypeDef \<Rightarrow> USART_TypeDef" where
  "USART_SmartCardNACKCmd on u = u\<lparr>us_CR3 := put_bits on 0x0010 (us_CR3 u)\<rparr>"
definition USART_IrDAConfig :: "u16 \<Rightarrow> USART_TypeDef \<Rightarrow> USART_TypeDef" where
  "USART_IrDAConfig m u = u\<lparr>us_CR3 := (us_CR3 u AND NOT 0x0004) OR m\<rparr>"
definition USART_IrDACmd :: "bool \<Rightarrow> USART_TypeDef \<Rightarrow> USART_TypeDef" where
  "USART_IrDACmd on u = u\<lparr>us_CR3 := put_bits on 0x0002 (us_CR3 u)\<rparr>"
definition USART_DMACmd :: "u16 \<Rightarrow> bool \<Rightarrow> USART_TypeDef \<Rightarrow> USART_TypeDef" where
  "USART_DMACmd r on u = u\<lparr>us_CR3 := put_bits on r (us_CR3 u)\<rparr>"

subsection \<open>Interrupts and flags\<close>

text \<open>
  An interrupt source codes the control register (bits 5-7 of the low byte), the bit in it (low
  five bits) and the bit of the status register (high byte).
\<close>

definition it_reg :: "u16 \<Rightarrow> nat" where "it_reg it = unat (drop_bit 5 (ucast it :: u8))"
definition it_mask :: "u16 \<Rightarrow> u16" where "it_mask it = push_bit (unat (it AND 0x001F)) 1"

definition USART_ITConfig :: "u16 \<Rightarrow> bool \<Rightarrow> USART_TypeDef \<Rightarrow> USART_TypeDef" where
  "USART_ITConfig it on u =
     (if it_reg it = 1 then u\<lparr>us_CR1 := put_bits on (it_mask it) (us_CR1 u)\<rparr>
      else if it_reg it = 2 then u\<lparr>us_CR2 := put_bits on (it_mask it) (us_CR2 u)\<rparr>
      else u\<lparr>us_CR3 := put_bits on (it_mask it) (us_CR3 u)\<rparr>)"

definition USART_GetFlagStatus :: "u16 \<Rightarrow> USART_TypeDef \<Rightarrow> bool" where
  "USART_GetFlagStatus f u = (us_SR u AND f \<noteq> 0)"

text \<open>Status bits are cleared by writing zero; the model keeps the word written.\<close>

definition USART_ClearFlag :: "u16 \<Rightarrow> USART_TypeDef \<Rightarrow> USART_TypeDef" where
  "USART_ClearFlag f u = u\<lparr>us_SR := NOT f\<rparr>"

definition USART_GetITStatus :: "u16 \<Rightarrow> USART_TypeDef \<Rightarrow> bool" where
  "USART_GetITStatus it u =
     (let en = it_mask it AND (if it_reg it = 1 then us_CR1 u else if it_reg it = 2 then us_CR2 u else us_CR3 u);
          st = push_bit (unat (drop_bit 8 it)) 1 AND us_SR u
      in en \<noteq> 0 \<and> st \<noteq> 0)"

definition USART_ClearITPendingBit :: "u16 \<Rightarrow> USART_TypeDef \<Rightarrow> USART_TypeDef" where
  "USART_ClearITPendingBit it u = u\<lparr>us_SR := NOT (push_bit (unat (drop_bit 8 it)) 1)\<rparr>"

subsection \<open>The baud rate\<close>

text \<open>
  The divider register is the divider in sixteenths, rounded to the nearest, as long as the
  fraction does not round up to a whole; then the code masks the carry away.
\<close>

lemma fraction_unat:
  assumes "unat (f :: u32) < 100"
  shows "unat ((f * 16 + 50) div 100 AND 0x0F) = ((16 * unat f + 50) div 100) mod 16"
proof -
  have "unat (f * 16 + 50) = 16 * unat f + 50" using assms by (simp add: unat_word_ariths)
  then show ?thesis
    unfolding mask_values by (simp add: take_bit_eq_mask [symmetric] unsigned_take_bit_eq take_bit_eq_mod unat_div unat_mod)
qed

lemma usart_brr_unat:
  "unat (usart_brr False idiv) = 16 * (unat idiv div 100) + ((16 * (unat idiv mod 100) + 50) div 100) mod 16"
proof -
  let ?d = "unat idiv"
  have m: "unat (idiv div 100) = ?d div 100" by (simp add: unat_div)
  have small: "?d div 100 < 2 ^ 26" using unsigned_less [of idiv, where 'a = nat] by simp
  have q: "unat (push_bit 4 (idiv div 100)) = 16 * (?d div 100)"
    using small by (simp add: push_bit_eq_mult unat_word_ariths m)
  have shifted: "drop_bit 4 (push_bit 4 (idiv div 100)) = idiv div 100"
    unfolding word_unat_eq_iff unat_drop_bit_eq q m unfolding drop_bit_eq_div by simp
  have rest: "idiv - 100 * (idiv div 100) = idiv mod 100" by (rule minus_mult_div_eq_mod)
  have f: "unat (idiv mod 100) = ?d mod 100" by (simp add: unat_mod)
  have disj: "push_bit 4 (idiv div 100) OR ((idiv mod 100 * 16 + 50) div 100 AND 0x0F)
      = push_bit 4 (idiv div 100) + ((idiv mod 100 * 16 + 50) div 100 AND 0x0F)"
    by (rule disjunctive_add [symmetric]) (auto simp: bit_simps reg_bits)
  have "usart_brr False idiv = push_bit 4 (idiv div 100) + ((idiv mod 100 * 16 + 50) div 100 AND 0x0F)"
    by (simp only: usart_brr_def Let_def shifted rest disj if_False)
  moreover have "unat ((idiv mod 100 * 16 + 50) div 100 AND 0x0F) = ((16 * (?d mod 100) + 50) div 100) mod 16"
    using fraction_unat [of "idiv mod 100"] by (simp add: f)
  moreover have "((16 * (?d mod 100) + 50) div 100) mod 16 < 16" by simp
  ultimately show ?thesis
    using small by (simp only: unat_word_ariths q) simp
qed

text \<open>
  The divider in sixteenths. \<open>v\<close> hundredths, rounded to the nearest sixteenth, is what the register
  gets unless the fraction rounds up to sixteen sixteenths.
\<close>

definition nearest16 :: "nat \<Rightarrow> nat" where "nearest16 v = (16 * v + 50) div 100"

lemma usart_brr_nearest:
  "unat (usart_brr False idiv) = (if unat idiv mod 100 < 97 then nearest16 (unat idiv) else nearest16 (unat idiv) - 16)"
proof -
  define q r where "q = unat idiv div 100" and "r = unat idiv mod 100"
  have v: "unat idiv = 100 * q + r" by (simp add: q_def r_def)
  have r: "r < 100" by (simp add: r_def)
  have "nearest16 (unat idiv) = 16 * q + (16 * r + 50) div 100" by (simp add: nearest16_def v)
  moreover have "(16 * r + 50) div 100 = 16" if "97 \<le> r" using that r by simp
  moreover have "(16 * r + 50) div 100 < 16" if "r < 97" using that by simp
  ultimately show ?thesis
    unfolding usart_brr_unat q_def [symmetric] r_def [symmetric] by (simp add: not_less)
qed

end
