(* ===== verification/Drv_Sci.thy ===== *)
theory Drv_Sci
  imports Ring Stm_Usart Stm_Board
begin

section \<open>The serial driver\<close>

text \<open>
  \<open>sciTinyTimber.c\<close>. The driver object holds the transmit ring; the port's registers are passed
  beside it. A message the driver sends to the application is an entry \<open>(object, method, argument)\<close>
  of the list an operation returns; the kernel turns it into \<open>async\<close> followed by
  \<open>doIRQSchedule = 1\<close>. The flags an interrupt handler reads are those of the registers it starts from.
\<close>

type_synonym sends = "(nat \<times> nat \<times> i32) list"

definition SCI_BUFSIZE :: nat where "SCI_BUFSIZE = 1024"

record Serial = "u8 ring" +
  sci_obj :: "nat option"
  sci_meth :: nat

definition initSerial :: "nat option \<Rightarrow> nat \<Rightarrow> Serial" where
  "initSerial ob meth = \<lparr>r_head = 0, r_tail = 0, r_count = 0, r_buf = replicate SCI_BUFSIZE 0,
     sci_obj = ob, sci_meth = meth\<rparr>"

definition sci_init :: "Serial \<Rightarrow> USART_TypeDef \<Rightarrow> nvic \<Rightarrow> (Serial \<times> USART_TypeDef \<times> nvic) res" where
  "sci_init self u v =
     (let s = self\<lparr>r_count := 0, r_head := 0, r_tail := 0\<rparr>;
          u1 = USART_ITConfig USART_IT_RXNE True u;
          u2 = USART_ITConfig USART_IT_TXE False u1
      in bnd (NVIC_SetPriority 37 2 v) (\<lambda>v1. bnd (NVIC_EnableIRQ 37 v1) (\<lambda>v2. Inr (s, u2, v2))))"

definition outc :: "u8 \<Rightarrow> Serial \<Rightarrow> Serial res" where
  "outc c self =
     (if r_count self < SCI_BUFSIZE
      then bnd (aset (r_buf self) (r_head self) c) (\<lambda>b.
        Inr (self\<lparr>r_head := (r_head self + 1) mod SCI_BUFSIZE, r_count := r_count self + 1, r_buf := b\<rparr>))
      else Inr self)"

text \<open>The loop over a zero-terminated string.\<close>

fun write_loop :: "u8 list \<Rightarrow> Serial \<Rightarrow> Serial res" where
  "write_loop [] self = Inr self"
| "write_loop (c # p) self =
     bnd (if c = 10 then outc 13 self else Inr self) (\<lambda>s. bnd (outc c s) (write_loop p))"

definition sci_write :: "u8 list \<Rightarrow> Serial \<Rightarrow> USART_TypeDef \<Rightarrow> (Serial \<times> USART_TypeDef) res" where
  "sci_write p self u =
     (let u' = (if r_count self = 0 then USART_ITConfig USART_IT_TXE True u else u)
      in bnd (write_loop p self) (\<lambda>s. Inr (s, u')))"

definition sci_writechar :: "i32 \<Rightarrow> Serial \<Rightarrow> USART_TypeDef \<Rightarrow> (Serial \<times> USART_TypeDef) res" where
  "sci_writechar c self u =
     (let u' = (if r_count self = 0 then USART_ITConfig USART_IT_TXE True u else u)
      in bnd (outc (ucast c) self) (\<lambda>s. Inr (s, u')))"

text \<open>The receive half and the transmit half of the interrupt handler.\<close>

definition sci_rx :: "Serial \<Rightarrow> USART_TypeDef \<Rightarrow> sends" where
  "sci_rx self u =
     (if USART_GetFlagStatus USART_FLAG_RXNE u
      then (case sci_obj self of None \<Rightarrow> [] | Some ob \<Rightarrow> [(ob, sci_meth self, ucast (USART_ReceiveData u))])
      else [])"

definition sci_tx :: "Serial \<Rightarrow> USART_TypeDef \<Rightarrow> (Serial \<times> USART_TypeDef) res" where
  "sci_tx self u =
     (if USART_GetFlagStatus USART_FLAG_TXE u
      then if 0 < r_count self
        then bnd (aget (r_buf self) (r_tail self)) (\<lambda>c.
          let u1 = USART_SendData (ucast c) u;
              s = self\<lparr>r_tail := (r_tail self + 1) mod SCI_BUFSIZE, r_count := r_count self - 1\<rparr>
          in Inr (s, if r_count s = 0 then USART_ITConfig USART_IT_TXE False u1 else u1))
        else Inr (self, USART_ITConfig USART_IT_TXE False u)
      else Inr (self, u))"

definition sci_interrupt :: "Serial \<Rightarrow> USART_TypeDef \<Rightarrow> (sends \<times> Serial \<times> USART_TypeDef) res" where
  "sci_interrupt self u = bnd (sci_tx self u) (\<lambda>(s, u'). Inr (sci_rx self u, s, u'))"

subsection \<open>The ring as a queue\<close>

definition sci_inv :: "Serial \<Rightarrow> bool" where "sci_inv s \<longleftrightarrow> ring_rep SCI_BUFSIZE s"

text \<open>What the transmit half does to the ring.\<close>

definition sci_take :: "Serial \<Rightarrow> (u8 option \<times> Serial) res" where
  "sci_take self =
     (if 0 < r_count self
      then bnd (aget (r_buf self) (r_tail self)) (\<lambda>c.
        Inr (Some c, self\<lparr>r_tail := (r_tail self + 1) mod SCI_BUFSIZE, r_count := r_count self - 1\<rparr>))
      else Inr (None, self))"

interpretation scif: bounded_fifo outc sci_take sci_inv ring_abs "\<lambda>_. True" SCI_BUFSIZE
proof unfold_locales
  show "length (ring_abs s) \<le> SCI_BUFSIZE" if "sci_inv s" for s
    using that by (simp add: sci_inv_def ring_rep_def)
  show "\<exists>s'. outc x s = Inr s' \<and> sci_inv s' \<and> ring_abs s' = ring_abs s @ [x]"
    if "sci_inv s" "length (ring_abs s) < SCI_BUFSIZE" for s x
    using that ring_push [of SCI_BUFSIZE s x] by (simp add: outc_def sci_inv_def)
  show "outc x s = Inr s" if "sci_inv s" "length (ring_abs s) = SCI_BUFSIZE" for s x
    using that by (simp add: outc_def)
  show "\<exists>s'. sci_take s = Inr (Some x, s') \<and> sci_inv s' \<and> ring_abs s' = xs"
    if "sci_inv s" "ring_abs s = x # xs" for s x xs
  proof -
    have "0 < r_count s" using that(2) by (metis length_ring_abs length_greater_0_conv list.distinct(1))
    with that ring_pop [of SCI_BUFSIZE s] show ?thesis by (simp add: sci_take_def sci_inv_def)
  qed
  show "sci_take s = Inr (None, s)" if "sci_inv s" "ring_abs s = []" for s
    using that by (simp add: sci_take_def)
qed

lemma initSerial_inv [simp]: "sci_inv (initSerial ob meth)" "ring_abs (initSerial ob meth) = []"
  by (simp_all add: sci_inv_def ring_rep_def initSerial_def SCI_BUFSIZE_def ring_abs_def)

subsection \<open>Writing\<close>

fun crlf :: "u8 list \<Rightarrow> u8 list" where
  "crlf [] = []"
| "crlf (c # p) = (if c = 10 then [13, c] else [c]) @ crlf p"

lemma write_loop_puts: "write_loop p s = put_all outc (crlf p) s"
proof (induction p arbitrary: s)
  case (Cons c p)
  show ?case
    by (cases "outc 13 s"; cases "outc c s") (auto simp: bnd_def Cons split: sum.splits)
qed simp

lemma write_loop_appends:
  assumes "sci_inv s"
  shows "\<exists>s'. write_loop p s = Inr s' \<and> sci_inv s' \<and> ring_abs s' = take SCI_BUFSIZE (ring_abs s @ crlf p)"
  using scif.puts_total [of s "crlf p"] assms by (simp add: write_loop_puts list.pred_True)

subsection \<open>The transmit interrupt\<close>

definition txe_enabled :: "USART_TypeDef \<Rightarrow> bool" where "txe_enabled u = bit (us_CR1 u) 7"

lemma txe_config:
  "txe_enabled (USART_ITConfig USART_IT_TXE on u) = on"
  "us_TDR (USART_ITConfig USART_IT_TXE on u) = us_TDR u" "us_SR (USART_ITConfig USART_IT_TXE on u) = us_SR u"
  by (simp_all add: txe_enabled_def USART_ITConfig_def USART_IT_TXE_def it_reg_def it_mask_def bit_put_bits reg_bits)

text \<open>
  While the transmitter is ready, an interrupt puts the oldest byte into the data register and
  leaves the interrupt enabled exactly when more is to come.
\<close>

lemma sci_tx_byte:
  assumes "sci_inv s" and "ring_abs s = c # cs" and "USART_GetFlagStatus USART_FLAG_TXE u"
  shows "\<exists>s' u'. sci_tx s u = Inr (s', u') \<and> us_TDR u' = ucast c \<and> sci_inv s' \<and> ring_abs s' = cs
    \<and> (txe_enabled u' \<longleftrightarrow> cs \<noteq> [] \<and> txe_enabled u)"
proof -
  obtain s' where t: "sci_take s = Inr (Some c, s')" "sci_inv s'" "ring_abs s' = cs"
    using scif.get_some assms(1,2) by blast
  have n: "0 < r_count s" using assms(2) by (metis length_ring_abs length_greater_0_conv list.distinct(1))
  have low: "(ucast c AND 0x01FF :: u16) = ucast c"
    by (rule bit_word_eqI) (auto simp: bit_simps reg_bits dest: bit_imp_le_length)
  have cnt: "r_count s' = 0 \<longleftrightarrow> cs = []" using t(3) by (metis ring_abs_Nil)
  from t n have b: "aget (r_buf s) (r_tail s) = Inr c"
      and s': "s' = s\<lparr>r_tail := (r_tail s + 1) mod SCI_BUFSIZE, r_count := r_count s - 1\<rparr>"
    by (auto simp: sci_take_def)
  have "sci_tx s u = Inr (s', if r_count s' = 0 then USART_ITConfig USART_IT_TXE False (USART_SendData (ucast c) u)
      else USART_SendData (ucast c) u)"
    using assms(3) n b by (simp add: sci_tx_def Let_def s')
  then show ?thesis using t(2,3) cnt low
    by (auto simp: txe_config) (simp_all add: USART_SendData_def txe_enabled_def)
qed

lemma sci_tx_empty:
  assumes "ring_abs s = []" and "USART_GetFlagStatus USART_FLAG_TXE u"
  shows "sci_tx s u = Inr (s, USART_ITConfig USART_IT_TXE False u)"
  using assms by (simp add: sci_tx_def)

text \<open>
  The line: the bytes a run of transmit interrupts puts out, while the interrupt stays enabled. The
  transmitter empties the data register before each interrupt, so each starts from the same status.
\<close>

fun line_out :: "nat \<Rightarrow> Serial \<Rightarrow> USART_TypeDef \<Rightarrow> (u8 list \<times> Serial \<times> USART_TypeDef) res" where
  "line_out 0 s u = Inr ([], s, u)"
| "line_out (Suc n) s u =
     (if txe_enabled u
      then bnd (sci_tx s u) (\<lambda>(s1, u1). bnd (line_out n s1 (u1\<lparr>us_SR := us_SR u\<rparr>)) (\<lambda>(cs, r).
             Inr ((if r_count s1 < r_count s then ucast (us_TDR u1) # cs else cs), r)))
      else Inr ([], s, u))"

lemma line_out_all:
  "sci_inv s \<Longrightarrow> USART_GetFlagStatus USART_FLAG_TXE u \<Longrightarrow> txe_enabled u \<Longrightarrow> r_count s < n \<Longrightarrow>
     \<exists>s' u'. line_out n s u = Inr (ring_abs s, s', u') \<and> sci_inv s' \<and> ring_abs s' = [] \<and> \<not> txe_enabled u'"
proof (induction n arbitrary: s u)
  case (Suc n)
  show ?case
  proof (cases "ring_abs s")
    case Nil
    with Suc.prems have "sci_tx s u = Inr (s, USART_ITConfig USART_IT_TXE False u)" by (simp add: sci_tx_empty)
    moreover have "\<not> txe_enabled ((USART_ITConfig USART_IT_TXE False u)\<lparr>us_SR := us_SR u\<rparr>)"
      using txe_config(1) [of False u] by (simp add: txe_enabled_def)
    ultimately show ?thesis using Suc.prems Nil by (cases n) (auto simp: ring_abs_def)
  next
    case (Cons c cs)
    from sci_tx_byte [OF Suc.prems(1) Cons Suc.prems(2)] Suc.prems(3) obtain s1 u1 where
      t: "sci_tx s u = Inr (s1, u1)" "us_TDR u1 = ucast c" "sci_inv s1" "ring_abs s1 = cs" "txe_enabled u1 \<longleftrightarrow> cs \<noteq> []"
      by blast
    have cnt: "r_count s = Suc (length cs)" "r_count s1 = length cs"
      using Cons t(4) by (metis length_ring_abs length_Cons)+
    have fl: "USART_GetFlagStatus USART_FLAG_TXE (u1\<lparr>us_SR := us_SR u\<rparr>)"
      using Suc.prems(2) by (simp add: USART_GetFlagStatus_def)
    have c: "ucast (us_TDR u1) = c"
      unfolding t(2) by (rule bit_word_eqI) (auto simp: bit_simps)
    show ?thesis
    proof (cases cs)
      case Nil
      then have "\<not> txe_enabled (u1\<lparr>us_SR := us_SR u\<rparr>)" using t(5) by (simp add: txe_enabled_def)
      then have "line_out n s1 (u1\<lparr>us_SR := us_SR u\<rparr>) = Inr ([], s1, u1\<lparr>us_SR := us_SR u\<rparr>)" by (cases n) auto
      then show ?thesis using Suc.prems(3) t c cnt Cons Nil \<open>\<not> txe_enabled (u1\<lparr>us_SR := us_SR u\<rparr>)\<close> by simp
    next
      case Cons2: (Cons d ds)
      then have "txe_enabled (u1\<lparr>us_SR := us_SR u\<rparr>)" using t(5) by (simp add: txe_enabled_def)
      with Suc.IH [OF t(3) fl] Suc.prems(4) cnt obtain s' u' where
        "line_out n s1 (u1\<lparr>us_SR := us_SR u\<rparr>) = Inr (ring_abs s1, s', u')" "sci_inv s'" "ring_abs s' = []" "\<not> txe_enabled u'"
        by fastforce
      with Suc.prems(3) t c cnt Cons show ?thesis by simp
    qed
  qed
qed simp

end
