(* ===== verification/Drv_Can.thy ===== *)
theory Drv_Can
  imports Ring Stm_Can Stm_Board Drv_Sci
begin

section \<open>The CAN driver\<close>

text \<open>
  \<open>canTinyTimber.c\<close>, built without \<open>__CAN_LOOPBACK\<close> and \<open>__CAN_TxAck\<close>. The driver object holds a ring
  of eight received messages; the controllers' registers are passed beside it. A structure on the
  stack the code does not initialize is an argument. Besides its result an operation returns the
  text it prints and, where it sends a message to the application, the entry for the kernel.
\<close>

definition CAN_BUFSIZE :: nat where "CAN_BUFSIZE = 8"

record CANMsg =
  msgId :: u8
  nodeId :: u8
  cm_length :: u8
  cm_buff :: "u8 list"

record Can = "CANMsg ring" +
  can_obj :: "nat option"
  can_meth :: nat

definition empty_msg :: CANMsg where
  "empty_msg = \<lparr>msgId = 0, nodeId = 0, cm_length = 0, cm_buff = replicate 8 0\<rparr>"

definition initCan :: "nat option \<Rightarrow> nat \<Rightarrow> Can" where
  "initCan ob meth = \<lparr>r_head = 0, r_tail = 0, r_count = 0, r_buf = replicate CAN_BUFSIZE empty_msg,
     can_obj = ob, can_meth = meth\<rparr>"

subsection \<open>Initialization\<close>

text \<open>\<open>msr1\<close> and \<open>msr2\<close> are the successive values of the two controllers' status registers.\<close>

definition can_init_struct :: CAN_InitTypeDef where
  "can_init_struct = CAN_StructInit\<lparr>CAN_TTCM := False, CAN_ABOM := False, CAN_AWUM := False, CAN_NART := False,
     CAN_RFLM := False, CAN_TXFP := False, CAN_Mode := 0, CAN_SJW := 0, CAN_BS1 := 2, CAN_BS2 := 3, CAN_Prescaler := 7\<rparr>"

definition can_init :: "(nat \<Rightarrow> u32) \<Rightarrow> (nat \<Rightarrow> u32) \<Rightarrow> Can \<Rightarrow> CAN_TypeDef \<Rightarrow> CAN_TypeDef \<Rightarrow> nvic
     \<Rightarrow> (string list \<times> Can \<times> CAN_TypeDef \<times> CAN_TypeDef \<times> nvic) res" where
  "can_init msr1 msr2 self can1 can2 v =
     (let s = self\<lparr>r_count := 0, r_head := 0, r_tail := 0\<rparr>;
          (ok1, c1) = CAN_Init can_init_struct msr1 can1;
          (ok2, c2) = CAN_Init can_init_struct msr2 can2;
          out = (if ok1 then [] else [''CAN #1 Init failed!'']) @ (if ok2 then [] else [''CAN #2 Init failed!''])
      in bnd (NVIC_SetPriority 20 2 v) (\<lambda>v1. bnd (NVIC_EnableIRQ 20 v1) (\<lambda>v2.
           Inr (out, s, CAN_ITConfig 0x02 True c1, c2, v2))))"

subsection \<open>Receiving\<close>

text \<open>\<open>for (index = 0; index < n; index++) dst[index] = src[index];\<close>\<close>

fun copy_bytes :: "nat \<Rightarrow> nat \<Rightarrow> u8 list \<Rightarrow> u8 list \<Rightarrow> u8 list res" where
  "copy_bytes i 0 dst src = Inr dst"
| "copy_bytes i (Suc n) dst src =
     bnd (aget src i) (\<lambda>x. bnd (aset dst i x) (\<lambda>dst'. copy_bytes (Suc i) n dst' src))"

text \<open>Filling the free slot from a received frame.\<close>

definition fill_slot :: "CanRxMsg \<Rightarrow> CANMsg \<Rightarrow> CANMsg res" where
  "fill_slot rx slot =
     (let m = slot\<lparr>msgId := ucast (drop_bit 4 (StdId rx) AND 0x7F), nodeId := ucast (StdId rx AND 0x0F),
                   cm_length := DLC rx AND 0x0F\<rparr>
      in bnd (copy_bytes 0 (unat (cm_length m)) (cm_buff m) (Data rx)) (\<lambda>b. Inr (m\<lparr>cm_buff := b\<rparr>)))"

definition can_store :: "CanRxMsg \<Rightarrow> Can \<Rightarrow> (sends \<times> Can) res" where
  "can_store rx self =
     bnd (aget (r_buf self) (r_head self)) (\<lambda>slot.
     bnd (fill_slot rx slot) (\<lambda>m.
     bnd (aset (r_buf self) (r_head self) m) (\<lambda>b.
       let evs = (case can_obj self of None \<Rightarrow> []
                  | Some ob \<Rightarrow> [(ob, can_meth self, push_bit 4 (ucast (msgId m)) + ucast (nodeId m))])
       in Inr (evs, self\<lparr>r_head := (r_head self + 1) mod CAN_BUFSIZE, r_count := r_count self + 1, r_buf := b\<rparr>))))"

definition can_interrupt :: "CanRxMsg \<Rightarrow> Can \<Rightarrow> CAN_TypeDef \<Rightarrow> (string list \<times> sends \<times> Can \<times> CAN_TypeDef) res" where
  "can_interrupt stk self c =
     (let out = (if CAN_GetFlagStatus 0x12000003 c then [] else [''Strange: Not a CAN #1 FIFO0 IRQ!''])
      in if r_count self < CAN_BUFSIZE
         then let (rx, c') = CAN_Receive 0 stk c
              in bnd (can_store rx self) (\<lambda>(evs, s). Inr (out, evs, s, c'))
         else Inr (out @ [''Strange: CAN #1 FIFO0 Full!''], [], self, c))"

text \<open>The status, the caller's message and the driver.\<close>

definition can_receive :: "CANMsg \<Rightarrow> Can \<Rightarrow> (i32 \<times> CANMsg \<times> Can) res" where
  "can_receive msg self =
     (if 0 < r_count self
      then bnd (aget (r_buf self) (r_tail self)) (\<lambda>slot.
        let m = msg\<lparr>msgId := msgId slot, nodeId := nodeId slot, cm_length := cm_length slot\<rparr>
        in bnd (copy_bytes 0 (unat (cm_length m)) (cm_buff m) (cm_buff slot)) (\<lambda>b.
           Inr (0, m\<lparr>cm_buff := b\<rparr>,
             self\<lparr>r_tail := (r_tail self + 1) mod CAN_BUFSIZE, r_count := r_count self - 1\<rparr>)))
      else Inr (1, msg, self))"

subsection \<open>Sending\<close>

text \<open>The status, the text printed, the caller's message (its length may be cut) and the controller.\<close>

definition can_send :: "CanMsgFrame \<Rightarrow> CANMsg \<Rightarrow> CAN_TypeDef \<Rightarrow> (i32 \<times> string list \<times> CANMsg \<times> CAN_TypeDef) res" where
  "can_send stk msg c =
     (let tx = stk\<lparr>StdId := push_bit 4 (ucast (msgId msg)) + ucast (nodeId msg), RTR := 0, IDE := 0\<rparr>;
          msg' = (if 8 < cm_length msg then msg\<lparr>cm_length := 8\<rparr> else msg);
          tx' = tx\<lparr>DLC := cm_length msg'\<rparr>
      in bnd (copy_bytes 0 (unat (cm_length msg')) (Data tx') (cm_buff msg')) (\<lambda>d.
         let (mb, _, c') = CAN_Transmit (tx'\<lparr>Data := d\<rparr>) c
         in if mb = CAN_TxStatus_NoMailBox then Inr (1, [''CAN TxBuf full!''], msg', c')
            else Inr (0, [], msg', c')))"

subsection \<open>Copying\<close>

lemma copy_bytes_take:
  "i + n \<le> length dst \<Longrightarrow> i + n \<le> length src \<Longrightarrow>
     copy_bytes i n dst src = Inr (take i dst @ take n (drop i src) @ drop (i + n) dst)"
proof (induction n arbitrary: i dst)
  case (Suc n)
  let ?dst = "dst[i := src ! i]"
  have "take (Suc i) ?dst = take i dst @ [src ! i]" "drop (Suc (i + n)) ?dst = drop (Suc (i + n)) dst"
    using Suc.prems by (simp_all add: take_Suc_conv_app_nth)
  moreover have "take (Suc n) (drop i src) = src ! i # take n (drop (Suc i) src)"
    using Suc.prems(2) by (simp add: Cons_nth_drop_Suc [symmetric])
  ultimately show ?case using Suc.IH [of "Suc i" ?dst] Suc.prems by simp
qed simp

lemma copy_bytes_out:
  "i \<le> length src \<Longrightarrow> i \<le> length dst \<Longrightarrow> min (length src) (length dst) < i + n \<Longrightarrow>
     copy_bytes i n dst src = Inl OutOfBounds"
proof (induction n arbitrary: i dst)
  case (Suc n)
  show ?case
  proof (cases "i < length src \<and> i < length dst")
    case True
    with Suc show ?thesis by simp
  next
    case False
    with Suc.prems show ?thesis by (cases "i < length src") (auto simp: aget_out aset_out)
  qed
qed auto

subsection \<open>The ring as a queue\<close>

text \<open>
  What a slot carries is the identifier and the used part of its buffer; the rest is left over from
  older messages. Lengths up to eight are what the bus delivers (a length code above eight is
  possible on the bus and is treated below).
\<close>

type_synonym can_entry = "u8 \<times> u8 \<times> u8 list"

definition view :: "CANMsg \<Rightarrow> can_entry" where
  "view m = (msgId m, nodeId m, take (unat (cm_length m)) (cm_buff m))"

definition slot_ok :: "CANMsg \<Rightarrow> bool" where
  "slot_ok m \<longleftrightarrow> length (cm_buff m) = 8 \<and> cm_length m \<le> 8"

definition can_inv :: "Can \<Rightarrow> bool" where
  "can_inv s \<longleftrightarrow> ring_rep CAN_BUFSIZE s \<and> (\<forall>m \<in> set (r_buf s). length (cm_buff m) = 8) \<and> (\<forall>m \<in> set (ring_abs s). cm_length m \<le> 8)"

definition can_abs :: "Can \<Rightarrow> can_entry list" where "can_abs s = map view (ring_abs s)"

definition rx_entry :: "CanRxMsg \<Rightarrow> can_entry" where
  "rx_entry rx = (ucast (drop_bit 4 (StdId rx) AND 0x7F), ucast (StdId rx AND 0x0F),
     take (unat (DLC rx AND 0x0F)) (Data rx))"

definition rx_ok :: "CanRxMsg \<Rightarrow> bool" where
  "rx_ok rx \<longleftrightarrow> length (Data rx) = 8 \<and> DLC rx AND 0x0F \<le> 8"

lemma unat_le8: "(x :: u8) \<le> 8 \<longleftrightarrow> unat x \<le> 8" by (simp add: word_le_nat_alt)

lemma fill_slot_view:
  assumes "rx_ok rx" and "length (cm_buff slot) = 8"
  shows "\<exists>m. fill_slot rx slot = Inr m \<and> view m = rx_entry rx \<and> slot_ok m"
  using assms copy_bytes_take [of 0 "unat (DLC rx AND 0x0F)" "cm_buff slot" "Data rx"]
  by (simp add: fill_slot_def Let_def rx_ok_def unat_le8 view_def rx_entry_def slot_ok_def)

lemma initCan_inv: "can_inv (initCan ob meth)" "can_abs (initCan ob meth) = []"
  by (auto simp: can_inv_def ring_rep_def initCan_def CAN_BUFSIZE_def ring_abs_def can_abs_def empty_msg_def)

lemma can_store_appends:
  assumes "can_inv s" and "rx_ok rx" and "r_count s < CAN_BUFSIZE"
  shows "\<exists>s'. can_store rx s = Inr (case can_obj s of None \<Rightarrow> [] | Some ob \<Rightarrow>
      [(ob, can_meth s, push_bit 4 (ucast (fst (rx_entry rx))) + ucast (fst (snd (rx_entry rx))))], s')
    \<and> can_inv s' \<and> can_abs s' = can_abs s @ [rx_entry rx] \<and> can_obj s' = can_obj s \<and> can_meth s' = can_meth s"
proof -
  have rep: "ring_rep CAN_BUFSIZE s" and len: "\<forall>m \<in> set (r_buf s). length (cm_buff m) = 8"
    and old: "\<forall>m \<in> set (ring_abs s). cm_length m \<le> 8" using assms(1) by (simp_all add: can_inv_def)
  have h: "r_head s < length (r_buf s)" using rep by simp
  then have "length (cm_buff (r_buf s ! r_head s)) = 8" using len by simp
  then obtain m where m: "fill_slot rx (r_buf s ! r_head s) = Inr m" "view m = rx_entry rx" "slot_ok m"
    using fill_slot_view assms(2) by blast
  let ?s = "s\<lparr>r_head := Suc (r_head s) mod CAN_BUFSIZE, r_count := Suc (r_count s), r_buf := (r_buf s)[r_head s := m]\<rparr>"
  note push = ring_push [OF rep assms(3), of m]
  have ids: "msgId m = fst (rx_entry rx)" "nodeId m = fst (snd (rx_entry rx))"
    using m(2) by (auto simp: view_def rx_entry_def)
  have "can_store rx s = Inr (case can_obj s of None \<Rightarrow> [] | Some ob \<Rightarrow>
      [(ob, can_meth s, push_bit 4 (ucast (fst (rx_entry rx))) + ucast (fst (snd (rx_entry rx))))], ?s)"
    using h m(1) ids by (simp add: can_store_def split: option.split)
  moreover have "can_inv ?s"
    using push m(3) len old set_update_subset_insert [of "r_buf s" "r_head s" m] by (auto simp: can_inv_def slot_ok_def)
  ultimately show ?thesis using push(2) m(2) by (auto simp: can_abs_def)
qed

lemma can_receive_takes:
  assumes "can_inv s" and "can_abs s = e # es" and "length (cm_buff msg) = 8"
  shows "\<exists>msg' s'. can_receive msg s = Inr (0, msg', s') \<and> view msg' = e \<and> slot_ok msg'
    \<and> can_inv s' \<and> can_abs s' = es"
proof -
  have rep: "ring_rep CAN_BUFSIZE s" and len: "\<forall>m \<in> set (r_buf s). length (cm_buff m) = 8"
    and old: "\<forall>m \<in> set (ring_abs s). cm_length m \<le> 8" using assms(1) by (simp_all add: can_inv_def)
  have n: "0 < r_count s" using assms(2) by (metis can_abs_def length_greater_0_conv length_map length_ring_abs list.distinct(1))
  note pop = ring_pop [OF rep n]
  have t: "r_tail s < length (r_buf s)" using rep by simp
  let ?m = "r_buf s ! r_tail s"
  have e: "view ?m = e" "map view (ring_abs (s\<lparr>r_tail := Suc (r_tail s) mod CAN_BUFSIZE, r_count := r_count s - 1\<rparr>)) = es"
    using assms(2) pop(2) by (simp_all add: can_abs_def)
  have ok: "length (cm_buff ?m) = 8" "cm_length ?m \<le> 8" using len old t pop(2) by auto
  let ?s = "s\<lparr>r_tail := Suc (r_tail s) mod CAN_BUFSIZE, r_count := r_count s - 1\<rparr>"
  have "copy_bytes 0 (unat (cm_length ?m)) (cm_buff msg) (cm_buff ?m)
      = Inr (take (unat (cm_length ?m)) (cm_buff ?m) @ drop (unat (cm_length ?m)) (cm_buff msg))"
    using copy_bytes_take [of 0 "unat (cm_length ?m)" "cm_buff msg" "cm_buff ?m"] ok assms(3) by (simp add: unat_le8)
  then have "can_receive msg s = Inr (0, msg\<lparr>msgId := msgId ?m, nodeId := nodeId ?m, cm_length := cm_length ?m,
      cm_buff := take (unat (cm_length ?m)) (cm_buff ?m) @ drop (unat (cm_length ?m)) (cm_buff msg)\<rparr>, ?s)"
    using n t by (simp add: can_receive_def Let_def)
  moreover have "can_inv ?s" using pop len old by (simp add: can_inv_def)
  ultimately show ?thesis using e ok assms(3)
    by (auto simp: can_abs_def view_def slot_ok_def unat_le8)
qed

text \<open>The two halves as operations of a bounded queue.\<close>

definition can_put :: "CanRxMsg \<Rightarrow> Can \<Rightarrow> Can res" where
  "can_put rx self = (if r_count self < CAN_BUFSIZE then bnd (can_store rx self) (\<lambda>(_, s). Inr s) else Inr self)"

definition can_get :: "Can \<Rightarrow> (can_entry option \<times> Can) res" where
  "can_get self = bnd (can_receive empty_msg self) (\<lambda>(st, m, s). Inr (if st = 0 then Some (view m) else None, s))"

text \<open>A frame that carries an entry, for stating the interface over entries.\<close>

definition entry_ok :: "can_entry \<Rightarrow> bool" where
  "entry_ok e \<longleftrightarrow> fst e < 128 \<and> fst (snd e) < 16 \<and> length (snd (snd e)) \<le> 8"

definition rx_of :: "can_entry \<Rightarrow> CanRxMsg" where
  "rx_of e = \<lparr>StdId = push_bit 4 (ucast (fst e)) + ucast (fst (snd e)), ExtId = 0, IDE = 0, RTR = 0,
     DLC = of_nat (length (snd (snd e))), Data = snd (snd e) @ replicate (8 - length (snd (snd e))) 0, FMI = 0\<rparr>"

lemma ids_bits:
  assumes "(a :: u8) < 128" and "(b :: u8) < 16"
  shows "push_bit 4 (ucast a) + ucast b = (push_bit 4 (ucast a) OR ucast b :: u32)"
    and "ucast (drop_bit 4 (push_bit 4 (ucast a) OR ucast b :: u32) AND 0x7F) = a"
    and "ucast ((push_bit 4 (ucast a) OR ucast b :: u32) AND 0x0F) = b"
    and "(push_bit 4 (ucast a) OR ucast b :: u32) < 2 ^ 11"
proof -
  have a: "n < 7" if "bit a n" for n using word_bits_below [of a 7 n] assms(1) that by simp
  have b: "n < 4" if "bit b n" for n using word_bits_below [of b 4 n] assms(2) that by simp
  have m: "bit (0x7F :: int) n \<longleftrightarrow> n < 7" for n
    using bit_mask_iff [where 'a = int, of 7 n] by (simp add: mask_eq_exp_minus_1)
  show "push_bit 4 (ucast a) + ucast b = (push_bit 4 (ucast a) OR ucast b :: u32)"
    by (rule disjunctive_add) (auto simp: bit_simps dest: b)
  show "ucast (drop_bit 4 (push_bit 4 (ucast a) OR ucast b :: u32) AND 0x7F) = a"
    by (rule bit_word_eqI) (auto simp: bit_simps m dest: a b)
  show "ucast ((push_bit 4 (ucast a) OR ucast b :: u32) AND 0x0F) = b"
    by (rule bit_word_eqI) (auto simp: bit_simps reg_bits dest: a b)
  have "take_bit 11 (push_bit 4 (ucast a) OR ucast b :: u32) = push_bit 4 (ucast a) OR ucast b"
    by (rule bit_word_eqI) (auto simp: bit_simps dest: a b)
  then show "(push_bit 4 (ucast a) OR ucast b :: u32) < 2 ^ 11"
    by (rule word_less_of_take_bit) simp
qed

lemma rx_of_entry:
  assumes "entry_ok e"
  shows "rx_ok (rx_of e)" and "rx_entry (rx_of e) = e"
proof -
  obtain a b d where e: "e = (a, b, d)" by (cases e) auto
  with assms have *: "a < 128" "b < 16" "length d \<le> 8" by (simp_all add: entry_ok_def)
  have l: "(of_nat (length d) AND 0x0F :: u8) = of_nat (length d)"
  proof -
    have "(of_nat (length d) :: u8) \<le> 8" using *(3) by (simp add: word_le_nat_alt unat_of_nat)
    then have "(of_nat (length d) :: u8) < 2 ^ 4" by (simp add: word_le_nat_alt word_less_nat_alt)
    then have "take_bit 4 (of_nat (length d) :: u8) = of_nat (length d)" by (rule word_take_bit_self) simp
    then show ?thesis unfolding mask_values by (simp add: take_bit_eq_mask)
  qed
  have n: "unat (of_nat (length d) :: u8) = length d" using *(3) by (simp add: unat_of_nat)
  show "rx_ok (rx_of e)" using *(3) by (simp add: rx_ok_def rx_of_def e l unat_le8 n)
  show "rx_entry (rx_of e) = e"
    using ids_bits [OF *(1,2)] by (simp add: rx_entry_def rx_of_def e l n)
qed

interpretation canf: bounded_fifo "\<lambda>e. can_put (rx_of e)" can_get can_inv can_abs entry_ok CAN_BUFSIZE
proof unfold_locales
  show "length (can_abs s) \<le> CAN_BUFSIZE" if "can_inv s" for s
    using that by (simp add: can_inv_def ring_rep_def can_abs_def)
  show "\<exists>s'. can_put (rx_of x) s = Inr s' \<and> can_inv s' \<and> can_abs s' = can_abs s @ [x]"
    if "can_inv s" "entry_ok x" "length (can_abs s) < CAN_BUFSIZE" for s x
    using can_store_appends [OF that(1) rx_of_entry(1) [OF that(2)]] that rx_of_entry(2) [OF that(2)]
    by (auto simp: can_put_def can_abs_def)
  show "can_put (rx_of x) s = Inr s" if "can_inv s" "entry_ok x" "length (can_abs s) = CAN_BUFSIZE" for s x
    using that by (simp add: can_put_def can_abs_def)
  show "\<exists>s'. can_get s = Inr (Some x, s') \<and> can_inv s' \<and> can_abs s' = xs"
    if "can_inv s" "can_abs s = x # xs" for s x xs
    using can_receive_takes [OF that, of empty_msg] by (auto simp: can_get_def empty_msg_def)
  show "can_get s = Inr (None, s)" if "can_inv s" "can_abs s = []" for s
    using that by (simp add: can_get_def can_receive_def can_abs_def ring_abs_def)
qed

subsection \<open>Sending\<close>

definition sent_frame :: "CanMsgFrame \<Rightarrow> CANMsg \<Rightarrow> CanMsgFrame" where
  "sent_frame stk msg =
     stk\<lparr>StdId := push_bit 4 (ucast (msgId msg)) + ucast (nodeId msg), RTR := 0, IDE := 0,
         DLC := min 8 (cm_length msg),
         Data := take (unat (min 8 (cm_length msg))) (cm_buff msg) @ drop (unat (min 8 (cm_length msg))) (Data stk)\<rparr>"

lemma can_send_frame:
  assumes "length (cm_buff msg) = 8" and "length (Data stk) = 8"
  shows "can_send stk msg c = Inr (if free_mailbox (can_TSR c) = CAN_TxStatus_NoMailBox
      then (1, [''CAN TxBuf full!''], msg\<lparr>cm_length := min 8 (cm_length msg)\<rparr>, c)
      else (0, [], msg\<lparr>cm_length := min 8 (cm_length msg)\<rparr>,
        upd_tx (unat (free_mailbox (can_TSR c))) (fill_mailbox (sent_frame stk msg)) c))"
proof -
  let ?l = "min 8 (cm_length msg)"
  have m: "(if 8 < cm_length msg then msg\<lparr>cm_length := 8\<rparr> else msg) = msg\<lparr>cm_length := ?l\<rparr>"
    by (auto simp: min_def)
  have "unat ?l \<le> 8" by (simp add: unat_le8 [symmetric])
  then have "copy_bytes 0 (unat ?l) (Data stk) (cm_buff msg)
      = Inr (take (unat ?l) (cm_buff msg) @ drop (unat ?l) (Data stk))"
    using copy_bytes_take [of 0 "unat ?l" "Data stk" "cm_buff msg"] assms by simp
  then show ?thesis
    by (simp add: can_send_def Let_def m CAN_Transmit_def sent_frame_def)
qed

text \<open>
  From the sender's message to the receiver's ring: whatever controller the frame reaches, the
  receiver stores the identifier and the first eight bytes at most.
\<close>

lemma can_end_to_end:
  assumes "length (cm_buff msg) = 8" and "length (Data stk) = 8" and "msgId msg < 128" and "nodeId msg < 16"
    and "on_the_bus (fill_mailbox (sent_frame stk msg) mb) rxmb"
  shows "rx_ok (read_mailbox rxmb r)"
    and "rx_entry (read_mailbox rxmb r) = (msgId msg, nodeId msg, take (unat (min 8 (cm_length msg))) (cm_buff msg))"
proof -
  let ?f = "sent_frame stk msg" and ?l = "min 8 (cm_length msg)"
  have l8: "unat ?l \<le> 8" by (simp add: unat_le8 [symmetric])
  then have dat: "length (Data ?f) = 8" using assms(1,2) by (simp add: sent_frame_def)
  note ids = ids_bits [OF assms(3,4)]
  have std: "StdId ?f < 2 ^ 11" using ids(1,4) by (simp add: sent_frame_def)
  have f: "IDE ?f = 0" "RTR ?f = 0 \<or> RTR ?f = 2" "DLC ?f = ?l" by (simp_all add: sent_frame_def)
  note rt = frame_roundtrip [OF dat f(1) std f(2) assms(5)]
  have low: "(?l AND 0x0F) = ?l"
  proof -
    have "?l < 2 ^ 4" using l8 by (simp add: word_less_nat_alt)
    then have "take_bit 4 ?l = ?l" by (rule word_take_bit_self) simp
    then show ?thesis unfolding mask_values by (simp add: take_bit_eq_mask)
  qed
  have dlc: "DLC (read_mailbox rxmb r) AND 0x0F = ?l" using rt(4) low by (simp add: f(3))
  show "rx_ok (read_mailbox rxmb r)" using rt(5) dat dlc by (simp add: rx_ok_def unat_le8 l8)
  have "take (unat ?l) (Data ?f) = take (unat ?l) (cm_buff msg)" using l8 assms(1) by (simp add: sent_frame_def)
  then show "rx_entry (read_mailbox rxmb r) = (msgId msg, nodeId msg, take (unat ?l) (cm_buff msg))"
    using rt(2,5) dlc ids by (simp add: rx_entry_def sent_frame_def)
qed

subsection \<open>Frames with a length code above eight, and a full ring\<close>

lemma can_store_long:
  assumes "can_inv s" and "length (Data rx) = 8" and "8 < unat (DLC rx AND 0x0F)"
  shows "can_store rx s = Inl OutOfBounds"
proof -
  have h: "r_head s < length (r_buf s)" using assms(1) by (auto simp: can_inv_def)
  then have "length (cm_buff (r_buf s ! r_head s)) = 8" using assms(1) by (simp add: can_inv_def)
  then have "copy_bytes 0 (unat (DLC rx AND 0x0F)) (cm_buff (r_buf s ! r_head s)) (Data rx) = Inl OutOfBounds"
    using assms(2,3) copy_bytes_out [of 0 "Data rx" "cm_buff (r_buf s ! r_head s)" "unat (DLC rx AND 0x0F)"] by simp
  with h show ?thesis by (simp add: can_store_def fill_slot_def Let_def)
qed

end
