(* ===== verification/App_Lab1.thy ===== *)
theory App_Lab1
  imports App_Text Drv_Can "HOL-Library.Sublist"
begin

section \<open>The number application\<close>

text \<open>
  \<open>lab-1/src/App.c\<close>: numbers typed on the serial line, a history of three, their sum and median. An
  operation returns the calls of \<open>SCI_WRITE\<close> and \<open>SCI_WRITECHAR\<close> it makes, in order, and the new object. The three result strings on the stack are not initialized and are arguments; sums of ints
  wrap.
\<close>

record App =
  buffer :: string
  number :: string
  app_pos :: nat
  num_pos :: nat
  history :: "i32 list"
  app_count :: i32

definition initApp :: App where
  "initApp = \<lparr>buffer = replicate 2 NUL, number = replicate 64 NUL, app_pos = 0, num_pos = 0,
     history = replicate 3 0, app_count = 0\<rparr>"

text \<open>An array of ints indexed with a C int.\<close>

definition iset :: "'a list \<Rightarrow> int \<Rightarrow> 'a \<Rightarrow> 'a list res" where
  "iset xs i v = (if i < 0 then Inl OutOfBounds else aset xs (nat i) v)"

definition calculateMedian :: "App \<Rightarrow> i32 res" where
  "calculateMedian self =
     bnd (aget (history self) 0) (\<lambda>a. bnd (aget (history self) 1) (\<lambda>b. bnd (aget (history self) 2) (\<lambda>c.
       Inr (if (sint a \<le> sint b \<and> sint b \<le> sint c) \<or> (sint c \<le> sint b \<and> sint b \<le> sint a) then b
            else if (sint b \<le> sint a \<and> sint a \<le> sint c) \<or> (sint c \<le> sint a \<and> sint a \<le> sint b) then a
            else c))))"

fun clear_history :: "nat \<Rightarrow> nat \<Rightarrow> i32 list \<Rightarrow> i32 list res" where
  "clear_history i 0 h = Inr h"
| "clear_history i (Suc n) h = bnd (aset h i 0) (clear_history (Suc i) n)"

datatype call = SCI_WRITE string | SCI_WRITECHAR i32

fun call_text :: "call \<Rightarrow> string" where
  "call_text (SCI_WRITE p) = p"
| "call_text (SCI_WRITECHAR c) = [to_char (sint c)]"

definition text_of :: "call list \<Rightarrow> string" where "text_of cs = concat (map call_text cs)"

lemma text_of_simps [simp]: "text_of [] = []" "text_of (c # cs) = call_text c @ text_of cs"
  "text_of (xs @ ys) = text_of xs @ text_of ys"
  by (simp_all add: text_of_def)

definition reader_flush :: "App \<Rightarrow> (call list \<times> App) res" where
  "reader_flush self =
     bnd (clear_history 0 3 (history self)) (\<lambda>h.
       Inr ([SCI_WRITE ((NL # ''Rcv: '') @ [CHR 0x27, CHR ''F'', CHR 0x27, NL]),
             SCI_WRITE (''The 3-history has been erased'' @ [NL])],
            self\<lparr>history := h, num_pos := 0\<rparr>))"

definition reader_enter :: "string \<Rightarrow> string \<Rightarrow> string \<Rightarrow> App \<Rightarrow> (call list \<times> App) res" where
  "reader_enter stk1 stk2 stk3 self =
     bnd (aset (number self) (num_pos self) NUL) (\<lambda>num.
     bnd (atoi (cstr num)) (\<lambda>value.
     bnd (iset (history self) (cmod (sint (app_count self)) 3) value) (\<lambda>h.
       let s1 = self\<lparr>number := num, history := h, app_count := app_count self + 1\<rparr>
       in bnd (aget h 0) (\<lambda>h0. bnd (aget h 1) (\<lambda>h1. bnd (aget h 2) (\<lambda>h2.
          let sum = h0 + h1 + h2
          in bnd (calculateMedian s1) (\<lambda>median.
             bnd (int_to_str value stk1) (\<lambda>s_val.
             bnd (int_to_str sum stk2) (\<lambda>s_sum.
             bnd (int_to_str median stk3) (\<lambda>s_med.
               Inr ([SCI_WRITE (NL # ''Entered: ''), SCI_WRITE (cstr s_val), SCI_WRITE '' | Sum: '', SCI_WRITE (cstr s_sum),
                     SCI_WRITE '' | Median: '', SCI_WRITE (cstr s_med), SCI_WRITE [NL]],
                    s1\<lparr>num_pos := 0, app_pos := 0\<rparr>)))))))))))"

definition reader_char :: "i32 \<Rightarrow> App \<Rightarrow> (call list \<times> App) res" where
  "reader_char c self =
     (if app_pos self < 1
      then bnd (aset (buffer self) 0 (to_char (sint c))) (\<lambda>b. bnd (aset b 1 NUL) (\<lambda>b.
           bnd (if num_pos self < 63
                then bnd (aset (number self) (num_pos self) (to_char (sint c))) (\<lambda>n.
                       Inr (self\<lparr>buffer := b, number := n, num_pos := num_pos self + 1\<rparr>))
                else Inr (self\<lparr>buffer := b\<rparr>)) (\<lambda>s.
             Inr ([SCI_WRITE ((NL # ''Rcv: '') @ [CHR 0x27]), SCI_WRITECHAR c, SCI_WRITE [CHR 0x27, NL]], s\<lparr>app_pos := 0\<rparr>))))
      else Inr ([SCI_WRITE ((NL # ''Error: Only 1 char allowed!'') @ [NL])], self))"

definition reader :: "string \<Rightarrow> string \<Rightarrow> string \<Rightarrow> i32 \<Rightarrow> App \<Rightarrow> (call list \<times> App) res" where
  "reader stk1 stk2 stk3 c self =
     bnd (if c = 70 then reader_flush self
          else if c = 10 \<or> c = 13 \<or> c = 101 then reader_enter stk1 stk2 stk3 self
          else reader_char c self) (\<lambda>(out, s). Inr (SCI_WRITECHAR c # out, s))"

text \<open>
  A message from the bus is printed as a string: its buffer up to the first zero. A buffer without
  a zero is read past its end.
\<close>

definition receiver :: "CANMsg \<Rightarrow> Can \<Rightarrow> (call list \<times> Can) res" where
  "receiver stk can =
     bnd (can_receive stk can) (\<lambda>(_, msg, can').
       if 0 \<in> set (cm_buff msg)
       then Inr ([SCI_WRITE ''Can msg received: '', SCI_WRITE (map (\<lambda>x. char_of (unat x)) (takeWhile (\<lambda>x. x \<noteq> 0) (cm_buff msg)))], can')
       else Inl OutOfBounds)"

subsection \<open>The contract\<close>

text \<open>
  Abstractly the application keeps the characters of the number being typed (at most 63) and the
  last three numbers entered since the history was erased, the newest first.
\<close>

type_synonym calc = "string \<times> i32 list"

definition pad3 :: "i32 list \<Rightarrow> i32 list" where "pad3 r = take 3 (r @ [0, 0, 0])"

definition median3 :: "i32 list \<Rightarrow> int" where "median3 r = sort (map sint (pad3 r)) ! 1"

fun calc_step :: "i32 \<Rightarrow> calc \<Rightarrow> (string \<times> calc) res" where
  "calc_step c (typed, recent) =
     (let echo = to_char (sint c)
      in if c = 70
         then Inr (echo # (NL # ''Rcv: '') @ [CHR 0x27, CHR ''F'', CHR 0x27, NL] @ ''The 3-history has been erased'' @ [NL], ([], []))
         else if c = 10 \<or> c = 13 \<or> c = 101
         then bnd (atoi (cstr typed)) (\<lambda>v.
                let r = take 3 (v # recent)
                in Inr (echo # (NL # ''Entered: '') @ text32 v @ '' | Sum: '' @ text32 (sum_list (pad3 r)) @ '' | Median: ''
                        @ text32 (word_of_int (median3 r)) @ [NL], ([], r)))
         else Inr (echo # (NL # ''Rcv: '') @ [CHR 0x27, echo, CHR 0x27, NL],
                   (if length typed < 63 then typed @ [echo] else typed, recent)))"

text \<open>Entry \<open>i\<close> of the padded history, newest first, is at index \<open>count - 1 - i\<close> modulo three.\<close>

definition app_rel :: "App \<Rightarrow> calc \<Rightarrow> bool" where
  "app_rel a st \<longleftrightarrow> length (buffer a) = 2 \<and> length (number a) = 64 \<and> app_pos a = 0
     \<and> num_pos a = length (fst st) \<and> length (fst st) \<le> 63 \<and> take (num_pos a) (number a) = fst st
     \<and> length (history a) = 3 \<and> length (snd st) \<le> 3 \<and> 0 \<le> sint (app_count a)
     \<and> (\<forall>i < 3. history a ! nat ((sint (app_count a) + 2 - int i) mod 3) = pad3 (snd st) ! i)"

lemma initApp_rel: "app_rel initApp ([], [])"
  by (simp add: app_rel_def initApp_def pad3_def eval_nat_numeral less_Suc_eq)

subsection \<open>The median\<close>

lemma median_of_three:
  "(if (a \<le> b \<and> b \<le> c) \<or> (c \<le> b \<and> b \<le> a) then b
    else if (b \<le> a \<and> a \<le> c) \<or> (c \<le> a \<and> a \<le> b) then a else c) = sort [a, b, c] ! 1" for a b c :: int
  by (simp add: eval_nat_numeral split: if_splits)

lemma calculateMedian_sort:
  assumes "history s = [a, b, c]"
  shows "calculateMedian s = Inr (word_of_int (sort (map sint [a, b, c]) ! 1))"
proof -
  have "word_of_int (sort (map sint [a, b, c]) ! 1) = (if (sint a \<le> sint b \<and> sint b \<le> sint c) \<or> (sint c \<le> sint b \<and> sint b \<le> sint a) then b
      else if (sint b \<le> sint a \<and> sint a \<le> sint c) \<or> (sint c \<le> sint a \<and> sint a \<le> sint b) then a else c)"
    using median_of_three [of "sint a" "sint b" "sint c", symmetric] by simp
  then show ?thesis using assms by (simp add: calculateMedian_def)
qed

subsection \<open>The history\<close>

lemma less3: "(\<forall>i < 3. P i) \<longleftrightarrow> P 0 \<and> P 1 \<and> P (2 :: nat)"
  by (auto simp: eval_nat_numeral less_Suc_eq)

text \<open>Newest-first reading of a ring of three whose next slot is \<open>m\<close>.\<close>

definition ring3 :: "int \<Rightarrow> i32 list \<Rightarrow> i32 list" where
  "ring3 n h = map (\<lambda>i. h ! nat ((n + 2 - int i) mod 3)) [0, 1, 2]"

lemma ring3_rel: "length p = 3 \<Longrightarrow> (\<forall>i < 3. h ! nat ((n + 2 - int i) mod 3) = p ! i) \<longleftrightarrow> ring3 n h = p"
proof -
  assume "length p = 3"
  then obtain x y z where "p = [x, y, z]" by (auto simp: eval_nat_numeral length_Suc_conv)
  then show ?thesis by (auto simp: ring3_def less3)
qed

lemma ring3_cases:
  obtains "n mod 3 = 0 \<and> (1 + n) mod 3 = 1 \<and> (2 + n) mod 3 = 2" "ring3 n [a, b, c] = [c, b, a]"
    | "n mod 3 = 1 \<and> (1 + n) mod 3 = 2 \<and> (2 + n) mod 3 = 0" "ring3 n [a, b, c] = [a, c, b]"
    | "n mod 3 = (2 :: int) \<and> (1 + n) mod 3 = 0 \<and> (2 + n) mod 3 = 1" "ring3 n [a, b, c] = [b, a, c]"
proof -
  have "n mod 3 = 0 \<and> (1 + n) mod 3 = 1 \<and> (2 + n) mod 3 = 2 \<or> n mod 3 = 1 \<and> (1 + n) mod 3 = 2 \<and> (2 + n) mod 3 = 0
      \<or> n mod 3 = 2 \<and> (1 + n) mod 3 = 0 \<and> (2 + n) mod 3 = 1" by presburger
  then show ?thesis
    using that by (elim disjE) (simp_all add: ring3_def add.commute)
qed

lemma ring3_mset: "length h = 3 \<Longrightarrow> mset (ring3 n h) = mset h"
proof -
  assume "length h = 3"
  then obtain a b c where h: "h = [a, b, c]" by (auto simp: eval_nat_numeral length_Suc_conv)
  show ?thesis unfolding h by (rule ring3_cases [of n a b c]) simp_all
qed

lemma ring3_put:
  assumes "length h = 3"
  shows "ring3 (n + 1) (h[nat (n mod 3) := v]) = v # take 2 (ring3 n h)"
proof -
  obtain a b c where h: "h = [a, b, c]" using assms by (auto simp: eval_nat_numeral length_Suc_conv)
  have r: "ring3 (n + 1) l = [l ! nat (n mod 3), l ! nat ((2 + n) mod 3), l ! nat ((1 + n) mod 3)]" for l
  proof -
    have "(n + 1 + 2 - 0) mod 3 = n mod 3" "n + 1 + 2 - 1 = 2 + n" "n + 1 + 2 - 2 = 1 + n" by presburger+
    then show ?thesis by (simp add: ring3_def)
  qed
  show ?thesis unfolding h r
    by (rule ring3_cases [of n a b c]) simp_all
qed

lemma pad3_push: "length r \<le> 3 \<Longrightarrow> pad3 (take 3 (v # r)) = v # take 2 (pad3 r)"
  by (cases r rule: remdups_adj.cases; simp add: pad3_def eval_nat_numeral)

lemma length_pad3 [simp]: "length (pad3 r) = 3" by (simp add: pad3_def)

lemma app_rel_ring3: "app_rel a st \<longleftrightarrow> length (buffer a) = 2 \<and> length (number a) = 64 \<and> app_pos a = 0
     \<and> num_pos a = length (fst st) \<and> length (fst st) \<le> 63 \<and> take (num_pos a) (number a) = fst st
     \<and> length (history a) = 3 \<and> length (snd st) \<le> 3 \<and> 0 \<le> sint (app_count a)
     \<and> ring3 (sint (app_count a)) (history a) = pad3 (snd st)"
  by (simp add: app_rel_def ring3_rel)

lemma sum_median_ring3:
  assumes "length h = 3" and "ring3 n h = p"
  shows "h ! 0 + h ! 1 + h ! 2 = sum_list p" and "sort (map sint h) ! 1 = sort (map sint p) ! 1"
proof -
  have m: "mset h = mset p" using ring3_mset [OF assms(1)] assms(2) by metis
  obtain a b c where h: "h = [a, b, c]" using assms(1) by (auto simp: eval_nat_numeral length_Suc_conv)
  have "sum_list h = sum_list p" using m by (metis sum_mset_sum_list)
  then show "h ! 0 + h ! 1 + h ! 2 = sum_list p" by (simp add: h add.assoc)
  have "mset (map sint h) = mset (map sint p)" using m by (simp only: mset_map)
  then have "sort (map sint h) = sort (map sint p)" by (intro properties_for_sort) simp_all
  then show "sort (map sint h) ! 1 = sort (map sint p) ! 1" by simp
qed

lemma clear_history3: "length h = 3 \<Longrightarrow> clear_history 0 3 h = Inr [0, 0, 0]"
  by (auto simp: eval_nat_numeral length_Suc_conv)

subsection \<open>Each key refines a step of the contract\<close>

lemma cstr_put: "n < length a \<Longrightarrow> cstr (a[n := NUL]) = cstr (take n a)"
  by (simp add: upd_conv_take_nth_drop cstr_append_NUL)

lemma list3: "length xs = 3 \<Longrightarrow> xs = [xs ! 0, xs ! 1, xs ! 2]"
  by (auto simp: eval_nat_numeral length_Suc_conv)

lemma enter_refines:
  assumes rel: "app_rel a (typed, recent)" and n: "sint (app_count a) < 2147483647"
    and stk: "length stk1 = 12" "length stk2 = 12" "length stk3 = 12" and v: "atoi (cstr typed) = Inr v"
  shows "\<exists>cs a'. reader_enter stk1 stk2 stk3 a = Inr (cs, a') \<and> text_of cs = (NL # ''Entered: '') @ text32 v @ '' | Sum: ''
      @ text32 (sum_list (pad3 (take 3 (v # recent)))) @ '' | Median: ''
      @ text32 (word_of_int (median3 (take 3 (v # recent)))) @ [NL] \<and> (\<forall>d. SCI_WRITECHAR d \<notin> set cs)
    \<and> app_rel a' ([], take 3 (v # recent)) \<and> app_count a' = app_count a + 1"
proof -
  let ?n = "sint (app_count a)" and ?r = "take 3 (v # recent)"
  from rel have len: "length (number a) = 64" "num_pos a \<le> 63" "take (num_pos a) (number a) = typed"
      "length (history a) = 3" "length recent \<le> 3" "0 \<le> ?n" "ring3 ?n (history a) = pad3 recent"
      "length (buffer a) = 2" "app_pos a = 0"
    by (auto simp: app_rel_ring3)
  let ?num = "(number a)[num_pos a := NUL]" and ?h = "(history a)[nat (?n mod 3) := v]"
  have num: "aset (number a) (num_pos a) NUL = Inr ?num" "cstr ?num = cstr typed"
    using len cstr_put [of "num_pos a" "number a"] by simp_all
  have m3: "nat (?n mod 3) < 3" by simp
  have ih: "iset (history a) (cmod ?n 3) v = Inr ?h"
    using len(4,6) m3 by (simp add: iset_def c_arith)
  have h3: "length ?h = 3" using len(4) by simp
  have c1: "sint (app_count a + 1) = ?n + 1" using sint32_add [of "app_count a" 1] len(6) n by simp
  have ring: "ring3 (?n + 1) ?h = pad3 ?r"
    using ring3_put [OF len(4)] pad3_push [OF len(5)] len(7) by simp
  note sm = sum_median_ring3 [OF h3 ring]
  let ?s = "a\<lparr>number := ?num, history := ?h, app_count := app_count a + 1\<rparr>"
  obtain x y z where xyz: "?h = [x, y, z]" using list3 [OF h3] by blast
  have med: "calculateMedian ?s = Inr (word_of_int (median3 ?r))"
    using calculateMedian_sort [of ?s x y z] xyz sm(2) by (simp add: median3_def)
  obtain t1 where t1: "int_to_str v stk1 = Inr t1" "cstr t1 = text32 v"
    using int_to_str_text [OF stk(1)] by blast
  obtain t2 where t2: "int_to_str (sum_list (pad3 ?r)) stk2 = Inr t2" "cstr t2 = text32 (sum_list (pad3 ?r))"
    using int_to_str_text [OF stk(2)] by blast
  obtain t3 where t3: "int_to_str (word_of_int (median3 ?r)) stk3 = Inr t3" "cstr t3 = text32 (word_of_int (median3 ?r))"
    using int_to_str_text [OF stk(3)] by blast
  have get: "aget ?h 0 = Inr (?h ! 0)" "aget ?h 1 = Inr (?h ! 1)" "aget ?h 2 = Inr (?h ! 2)" using h3 by simp_all
  have "reader_enter stk1 stk2 stk3 a = Inr ([SCI_WRITE (NL # ''Entered: ''), SCI_WRITE (text32 v), SCI_WRITE '' | Sum: '',
      SCI_WRITE (text32 (sum_list (pad3 ?r))), SCI_WRITE '' | Median: '', SCI_WRITE (text32 (word_of_int (median3 ?r))),
      SCI_WRITE [NL]], ?s\<lparr>num_pos := 0, app_pos := 0\<rparr>)"
    by (simp only: reader_enter_def num ih v get med t1 t2 t3 sm(1) bnd_simps Let_def)
  moreover have "app_rel (?s\<lparr>num_pos := 0, app_pos := 0\<rparr>) ([], ?r)"
    using len h3 ring c1 by (simp add: app_rel_ring3)
  ultimately show ?thesis by (intro exI [of _ "?s\<lparr>num_pos := 0, app_pos := 0\<rparr>"] exI) auto
qed

lemma char_refines:
  assumes "app_rel a (typed, recent)"
  shows "\<exists>cs a'. reader_char c a = Inr (cs, a') \<and> text_of cs = (NL # ''Rcv: '') @ [CHR 0x27, to_char (sint c), CHR 0x27, NL]
    \<and> (\<forall>d. SCI_WRITECHAR d \<in> set cs \<longrightarrow> d = c) \<and> app_rel a' (if length typed < 63 then typed @ [to_char (sint c)] else typed, recent) \<and> app_count a' = app_count a"
  using assms by (auto simp: reader_char_def app_rel_ring3 take_Suc_conv_app_nth)

lemma flush_refines:
  assumes "app_rel a (typed, recent)"
  shows "\<exists>cs a'. reader_flush a = Inr (cs, a') \<and> text_of cs = (NL # ''Rcv: '') @ [CHR 0x27, CHR ''F'', CHR 0x27, NL]
      @ ''The 3-history has been erased'' @ [NL] \<and> (\<forall>d. SCI_WRITECHAR d \<notin> set cs) \<and> app_rel a' ([], []) \<and> app_count a' = app_count a"
proof -
  have "ring3 n [0, 0, 0] = [0, 0, 0]" for n by (rule ring3_cases [of n 0 0 0]) simp_all
  then show ?thesis using assms
    by (simp add: reader_flush_def app_rel_ring3 clear_history3 pad3_def)
qed

lemma reader_refines:
  assumes "app_rel a st" and "sint (app_count a) < 2147483647"
    and "length stk1 = 12" and "length stk2 = 12" and "length stk3 = 12" and "calc_step c st = Inr (out, st')"
  shows "\<exists>cs a'. reader stk1 stk2 stk3 c a = Inr (SCI_WRITECHAR c # cs, a') \<and> out = to_char (sint c) # text_of cs
    \<and> (\<forall>d. SCI_WRITECHAR d \<in> set cs \<longrightarrow> d = c \<and> c \<noteq> 10) \<and> app_rel a' st' \<and> sint (app_count a') \<le> sint (app_count a) + 1"
proof -
  obtain typed recent where st: "st = (typed, recent)" by (cases st)
  consider "c = 70" | "c \<noteq> 70" "c = 10 \<or> c = 13 \<or> c = 101" | "c \<noteq> 70" "\<not> (c = 10 \<or> c = 13 \<or> c = 101)" by blast
  then show ?thesis
  proof cases
    case 1
    then show ?thesis using flush_refines [of a typed recent] assms(1,6) by (auto simp: st reader_def Let_def)
  next
    case 2
    then obtain v where v: "atoi (cstr typed) = Inr v"
      using assms(6) by (auto simp: st Let_def)
    have "sint (app_count a + 1) = sint (app_count a) + 1"
      using assms(1,2) sint32_add [of "app_count a" 1] by (simp add: app_rel_def)
    with 2 v assms(6) enter_refines [OF assms(1) [unfolded st] assms(2-5) v] show ?thesis
      by (auto simp: st reader_def Let_def)
  next
    case 3
    then show ?thesis using char_refines [of a typed recent c] assms(1,6) by (auto simp: st reader_def Let_def)
  qed
qed

text \<open>A session: the keys typed one after the other.\<close>

fun session :: "string \<Rightarrow> string \<Rightarrow> string \<Rightarrow> i32 list \<Rightarrow> App \<Rightarrow> (call list \<times> App) res" where
  "session stk1 stk2 stk3 [] a = Inr ([], a)"
| "session stk1 stk2 stk3 (c # cs) a =
     bnd (reader stk1 stk2 stk3 c a) (\<lambda>(o1, a1). bnd (session stk1 stk2 stk3 cs a1) (\<lambda>(o2, a2). Inr (o1 @ o2, a2)))"

fun calc_run :: "i32 list \<Rightarrow> calc \<Rightarrow> (string \<times> calc) res" where
  "calc_run [] st = Inr ([], st)"
| "calc_run (c # cs) st = bnd (calc_step c st) (\<lambda>(o1, s1). bnd (calc_run cs s1) (\<lambda>(o2, s2). Inr (o1 @ o2, s2)))"

lemma session_refines:
  "app_rel a st \<Longrightarrow> sint (app_count a) + int (length cs) < 2147483648 \<Longrightarrow>
     length stk1 = 12 \<Longrightarrow> length stk2 = 12 \<Longrightarrow> length stk3 = 12 \<Longrightarrow> calc_run cs st = Inr (out, st') \<Longrightarrow>
     \<exists>ks a'. session stk1 stk2 stk3 cs a = Inr (ks, a') \<and> text_of ks = out \<and> app_rel a' st'"
proof (induction cs arbitrary: a st out)
  case (Cons c cs)
  then obtain o1 s1 o2 where s: "calc_step c st = Inr (o1, s1)" "calc_run cs s1 = Inr (o2, st')" "out = o1 @ o2"
    by auto
  have "sint (app_count a) < 2147483647" using Cons.prems(2) by simp
  from reader_refines [OF Cons.prems(1) this Cons.prems(3-5) s(1)] obtain k1 a1 where
    a1: "reader stk1 stk2 stk3 c a = Inr (SCI_WRITECHAR c # k1, a1)" "o1 = to_char (sint c) # text_of k1" "app_rel a1 s1" "sint (app_count a1) \<le> sint (app_count a) + 1" by blast
  have "sint (app_count a1) + int (length cs) < 2147483648" using Cons.prems(2) a1(4) by simp
  from Cons.IH [OF a1(3) this Cons.prems(3-5) s(2)] a1(1,2) s(3) show ?case by auto
qed simp

subsection \<open>A full frame has no terminator\<close>

lemma receiver_overruns:
  assumes "can_receive stk can = Inr (st, msg, can')" and "0 \<notin> set (cm_buff msg)"
  shows "receiver stk can = Inl OutOfBounds"
  using assms by (simp add: receiver_def)

end
