(* ===== verification/App_Lab2.thy ===== *)
theory App_Lab2
  imports App_Lab1
begin

section \<open>The melody application\<close>

text \<open>
  \<open>lab-2/src/App.c\<close>: a key typed on the serial line shifts the notes of a melody, and the period of
  each shifted note is printed. \<open>SCI_WRITE(&sci0, '\n')\<close> passes the number 10 as the address of a
  string; what memory holds there is the argument \<open>at10\<close>. Names that the first application has too
  end in 2; \<open>receiver\<close> is the same code.
\<close>

record App2 =
  app_key :: string
  app2_count :: nat

definition initApp2 :: App2 where "initApp2 = \<lparr>app_key = replicate 3 NUL, app2_count = 0\<rparr>"

definition MIN_INDICATE :: i32 where "MIN_INDICATE = - 10"

definition medolies :: "i32 list" where
  "medolies = [0, 2, 4, 0, 0, 2, 4, 0, 4, 5, 7, 4, 5, 7, 7, 9, 7, 5, 4, 0, 7, 9, 7, 5, 4, 0, 0, - 5, 0, 0, - 5, 0]"

text \<open>Twenty-four initializers for twenty-five entries: the last is zero.\<close>

definition periods :: "i32 list" where
  "periods = [2024, 1911, 1803, 1702, 1607, 1516, 1431, 1351, 1275, 1203, 1136, 1072, 1012, 955, 901, 851,
     803, 758, 715, 675, 637, 601, 568, 536, 0]"

definition iget :: "'a list \<Rightarrow> int \<Rightarrow> 'a res" where
  "iget xs i = (if i < 0 then Inl OutOfBounds else aget xs (nat i))"

fun print_loop :: "string \<Rightarrow> i32 \<Rightarrow> i32 list \<Rightarrow> string res" where
  "print_loop stk x [] = Inr []"
| "print_loop stk x (base # ms) =
     (let shifted_key = base + x; index = shifted_key - MIN_INDICATE
      in bnd (iget periods (sint index)) (\<lambda>p.
         bnd (int_to_str2 p stk) (\<lambda>buffer.
         bnd (print_loop stk x ms) (\<lambda>out. Inr (cstr buffer @ '' '' @ out)))))"

definition print_period_by_key :: "string \<Rightarrow> string \<Rightarrow> i32 \<Rightarrow> string res" where
  "print_period_by_key at10 stk x = bnd (print_loop stk x medolies) (\<lambda>out. Inr (out @ at10))"

definition reader2 :: "string \<Rightarrow> string \<Rightarrow> string \<Rightarrow> i32 \<Rightarrow> App2 \<Rightarrow> (string \<times> App2) res" where
  "reader2 at10 stk1 stk2 c self =
     (let echo = to_char (sint c)
      in if c = 10 \<or> c = 13
         then bnd (aset (app_key self) (app2_count self) NUL) (\<lambda>k.
              bnd (atoi (cstr k)) (\<lambda>value.
              bnd (int_to_str2 value stk1) (\<lambda>input_key.
              bnd (print_period_by_key at10 stk2 value) (\<lambda>out.
                Inr (echo # (NL # ''Key: '') @ cstr input_key @ at10 @ out, self\<lparr>app_key := k, app2_count := 0\<rparr>)))))
         else if app2_count self < 3
         then bnd (aset (app_key self) (app2_count self) echo) (\<lambda>k.
                Inr ([echo], self\<lparr>app_key := k, app2_count := app2_count self + 1\<rparr>))
         else Inr ([echo], self))"

text \<open>The start method, with the message it sends over the bus.\<close>

definition hello_msg :: "CANMsg \<Rightarrow> CANMsg res" where
  "hello_msg stk =
     bnd (aset (cm_buff stk) 0 0x48) (\<lambda>b. bnd (aset b 1 0x65) (\<lambda>b. bnd (aset b 2 0x6C) (\<lambda>b.
     bnd (aset b 3 0x6C) (\<lambda>b. bnd (aset b 4 0x6F) (\<lambda>b. bnd (aset b 5 0) (\<lambda>b.
       Inr (stk\<lparr>msgId := 1, nodeId := 1, cm_length := 6, cm_buff := b\<rparr>)))))))"

definition startApp2 ::
  "(nat \<Rightarrow> u32) \<Rightarrow> (nat \<Rightarrow> u32) \<Rightarrow> CanMsgFrame \<Rightarrow> CANMsg \<Rightarrow> Can \<Rightarrow> Serial \<Rightarrow> CAN_TypeDef \<Rightarrow> CAN_TypeDef \<Rightarrow> USART_TypeDef
    \<Rightarrow> nvic \<Rightarrow> (Can \<times> Serial \<times> CAN_TypeDef \<times> CAN_TypeDef \<times> USART_TypeDef \<times> nvic) res" where
  "startApp2 msr1 msr2 frame stk can sci c1 c2 u v =
     bnd (can_init msr1 msr2 can c1 c2 v) (\<lambda>(_, can1, d1, d2, v1).
     bnd (sci_init sci u v1) (\<lambda>(sci1, u1, v2).
     bnd (sci_write (map of_char (''Hello, hello...'' @ [NL])) sci1 u1) (\<lambda>(sci2, u2).
     bnd (hello_msg stk) (\<lambda>msg.
     bnd (can_send frame msg d1) (\<lambda>(_, _, _, e1). Inr (can1, sci2, e1, d2, u2, v2))))))"

subsection \<open>Which keys print\<close>

definition period_text :: "i32 \<Rightarrow> i32 \<Rightarrow> string" where
  "period_text x base = text32 (periods ! nat (sint (base + x - MIN_INDICATE))) @ '' ''"

definition index_ok :: "i32 \<Rightarrow> i32 \<Rightarrow> bool" where
  "index_ok x base \<longleftrightarrow> 0 \<le> sint (base + x - MIN_INDICATE) \<and> sint (base + x - MIN_INDICATE) < 25"

lemma print_loop_text:
  assumes "length stk = 12"
  shows "print_loop stk x ms = (if list_all (index_ok x) ms then Inr (concat (map (period_text x) ms)) else Inl OutOfBounds)"
proof (induction ms)
  case (Cons base ms)
  let ?i = "sint (base + x - MIN_INDICATE)"
  have len: "length periods = 25" by (simp add: periods_def)
  show ?case
  proof (cases "index_ok x base")
    case True
    then have "iget periods ?i = Inr (periods ! nat ?i)" by (simp add: iget_def index_ok_def aget_def len nat_less_iff)
    moreover obtain s where "int_to_str2 (periods ! nat ?i) stk = Inr s" "cstr s = text32 (periods ! nat ?i)"
      using int_to_str_text [OF assms, of "periods ! nat ?i"] int_to_str2_eq [of stk] assms by auto
    ultimately show ?thesis using Cons True by (simp add: Let_def period_text_def [of x base])
  next
    case False
    then have "iget periods ?i = Inl OutOfBounds"
      by (auto simp: iget_def index_ok_def len aget_out not_less)
    with False show ?thesis by (simp add: Let_def)
  qed
qed simp

lemma keys_in_range: "list_all (index_ok x) medolies \<longleftrightarrow> - 5 \<le> sint x \<and> sint x \<le> 5"
proof
  assume a: "list_all (index_ok x) medolies"
  then have i0: "index_ok x 0" and i9: "index_ok x 9" and i5: "index_ok x (- 5)" by (simp_all add: medolies_def)
  have x: "- 10 \<le> sint x \<and> sint x \<le> 14"
  proof -
    have i: "0 \<le> sint (x + 10)" "sint (x + 10) < 25" using i0 by (simp_all add: index_ok_def MIN_INDICATE_def)
    then have "sint (x + 10 - 10) = sint (x + 10) - 10" using sint32_diff [of "x + 10" 10] by simp
    with i show ?thesis by simp
  qed
  have "sint (9 + x - MIN_INDICATE) = 19 + sint x" "sint (- 5 + x - MIN_INDICATE) = 5 + sint x"
    using sint32_add [of 19 x] sint32_add [of 5 x] x by (simp_all add: MIN_INDICATE_def algebra_simps)
  with i9 i5 show "- 5 \<le> sint x \<and> sint x \<le> 5" by (simp add: index_ok_def)
next
  assume x: "- 5 \<le> sint x \<and> sint x \<le> 5"
  have "index_ok x b" if "b \<in> {0, 2, 4, 5, 7, 9, - 5}" for b
  proof -
    have b: "- 5 \<le> sint b \<and> sint b \<le> 9" using that by auto
    have "sint (b + 10) = sint b + 10" using sint32_add [of b 10] b by simp
    then have "sint (b + 10 + x) = sint b + 10 + sint x" using sint32_add [of "b + 10" x] b x by simp
    then show ?thesis using b x by (simp add: index_ok_def MIN_INDICATE_def algebra_simps)
  qed
  then show "list_all (index_ok x) medolies" by (simp add: medolies_def)
qed

lemma print_period_cases:
  assumes "length stk = 12"
  shows "print_period_by_key at10 stk x =
    (if - 5 \<le> sint x \<and> sint x \<le> 5 then Inr (concat (map (period_text x) medolies) @ at10) else Inl OutOfBounds)"
  using print_loop_text [OF assms, of x medolies] keys_in_range [of x] by (simp add: print_period_by_key_def)

lemma key5_prints_zero: "period_text 5 9 = ''0 ''"
proof -
  have "sint (9 + 5 - MIN_INDICATE :: i32) = 24" by (simp add: MIN_INDICATE_def)
  then show ?thesis by (simp add: period_text_def periods_def text32_def decimal_def digits.simps hex_def)
qed

lemma third_key_overruns:
  assumes "length (app_key s) = 3" and "app2_count s = 3" and "c = 10 \<or> c = 13"
  shows "reader2 at10 stk1 stk2 c s = Inl OutOfBounds"
  using assms by (auto simp: reader2_def Let_def aset_out)

end
