(* ===== verification/App_Properties.thy ===== *)
theory App_Properties
  imports App_Lab2
begin

section \<open>Applications: what they compute, and where they overrun\<close>

text \<open>
  Whatever is typed, the number application never faults and prints what the contract says:
  after each number its value, the sum of the last three numbers and their median, as long as
  every number typed fits an int.
\<close>

lemma calculator_refines:
  assumes "calc_run cs ([], []) = Inr (out, st)" and "int (length cs) < 2147483648"
    and "length stk1 = 12" and "length stk2 = 12" and "length stk3 = 12"
  shows "\<exists>calls a. session stk1 stk2 stk3 cs initApp = Inr (calls, a) \<and> text_of calls = out \<and> app_rel a st"
proof -
  have "sint (app_count initApp) + int (length cs) < 2147483648" using assms(2) by (simp add: initApp_def)
  from session_refines [OF initApp_rel this assms(3-5,1)] show ?thesis .
qed

lemma demo_calc: "calc_run [55, 10, 45, 50, 10] ([], [])
    = Inr (''7'' @ (NL # ''Rcv: '') @ [CHR 0x27, CHR ''7'', CHR 0x27, NL]
      @ [NL] @ (NL # ''Entered: 7 | Sum: 7 | Median: 0'') @ [NL]
      @ ''-'' @ (NL # ''Rcv: '') @ [CHR 0x27, CHR ''-'', CHR 0x27, NL]
      @ ''2'' @ (NL # ''Rcv: '') @ [CHR 0x27, CHR ''2'', CHR 0x27, NL]
      @ [NL] @ (NL # ''Entered: -2 | Sum: 5 | Median: 0'') @ [NL], ([], [- 2, 7]))"
  by code_simp

lemma calculator_refines_witness:
  "\<exists>calls a. session (replicate 12 NUL) (replicate 12 NUL) (replicate 12 NUL) [55, 10, 45, 50, 10] initApp = Inr (calls, a)
     \<and> text_of calls = (''7'' @ (NL # ''Rcv: '') @ [CHR 0x27, CHR ''7'', CHR 0x27, NL]
      @ [NL] @ (NL # ''Entered: 7 | Sum: 7 | Median: 0'') @ [NL]
      @ ''-'' @ (NL # ''Rcv: '') @ [CHR 0x27, CHR ''-'', CHR 0x27, NL]
      @ ''2'' @ (NL # ''Rcv: '') @ [CHR 0x27, CHR ''2'', CHR 0x27, NL]
      @ [NL] @ (NL # ''Entered: -2 | Sum: 5 | Median: 0'') @ [NL]) \<and> app_rel a ([], [- 2, 7])"
  by (rule calculator_refines [OF demo_calc]) simp_all

text \<open>
  C22. Both versions of \<open>int_to_str\<close> write the decimal text of every int but the most
  negative one into twelve characters, and \<open>atoi\<close> reads the same number back.
\<close>

theorem number_text_roundtrip:
  assumes "length str = 12" and "n \<noteq> 0x80000000"
  shows "\<exists>s. int_to_str n str = Inr s \<and> int_to_str2 n str = Inr s \<and> cstr s = decimal (sint n) \<and> atoi (cstr s) = Inr n"
  using lab1_text.writes [OF assms] lab1_text.reads_back [OF assms] int_to_str2_eq [of str n] assms(1) by auto

theorem number_text_roundtrip_witness:
  "\<exists>s. int_to_str (- 305) (replicate 12 NUL) = Inr s \<and> int_to_str2 (- 305) (replicate 12 NUL) = Inr s
     \<and> cstr s = decimal (- 305) \<and> atoi (cstr s) = Inr (- 305)"
  using number_text_roundtrip [of "replicate 12 NUL" "- 305"] by simp

text \<open>
  Printing the melody reads inside the table of periods exactly for keys from minus five to
  five, and key five prints the period 0 that the table lacks.
\<close>

lemma melody_keys:
  assumes "length stk = 12"
  shows "print_period_by_key at10 stk x =
    (if - 5 \<le> sint x \<and> sint x \<le> 5 then Inr (concat (map (period_text x) medolies) @ at10) else Inl OutOfBounds)
    \<and> period_text 5 9 = ''0 ''"
  using print_period_cases [OF assms] key5_prints_zero by simp

lemma melody_keys_witness:
  "print_period_by_key [] (replicate 12 NUL) 6 = Inl OutOfBounds \<and> period_text 5 9 = ''0 ''"
  using melody_keys [of "replicate 12 NUL" "[]" 6] by simp

lemma third_key_writes_outside:
  assumes "length (app_key s) = 3" and "app2_count s = 3" and "c = 10 \<or> c = 13"
  shows "reader2 at10 stk1 stk2 c s = Inl OutOfBounds"
  by (rule third_key_overruns [OF assms])

text \<open>
  Printing a received message of eight non-zero bytes reads past the end of the message.
\<close>

lemma full_frame_print_overruns:
  assumes "can_inv can" and "can_abs can = (i, n, d) # es" and "length d = 8" and "0 \<notin> set d"
    and "length (cm_buff stk) = 8"
  shows "receiver stk can = Inl OutOfBounds"
proof -
  obtain msg can' where m: "can_receive stk can = Inr (0, msg, can')" "view msg = (i, n, d)" "slot_ok msg"
    using can_receive_takes [OF assms(1,2,5)] by blast
  then have "take (unat (cm_length msg)) (cm_buff msg) = d" "length (cm_buff msg) = 8"
    by (simp_all add: view_def slot_ok_def)
  with assms(3) have "cm_buff msg = d" by (metis length_take min_def order_refl take_all_iff)
  with assms(4) show ?thesis using receiver_overruns [OF m(1)] by simp
qed

lemma full_frame_print_overruns_witness:
  "\<exists>can. receiver empty_msg can = Inl OutOfBounds"
proof -
  let ?e = "(1, 2, [1, 2, 3, 4, 5, 6, 7, 8]) :: can_entry"
  have inv: "can_inv (initCan None 0)" "can_abs (initCan None 0) = []"
    by (auto simp: can_inv_def ring_rep_def initCan_def CAN_BUFSIZE_def ring_abs_def can_abs_def empty_msg_def)
  have ok: "entry_ok ?e" by (simp add: entry_ok_def)
  obtain s where "can_inv s" "can_abs s = [?e]"
    using canf.put_room [OF inv(1) ok] inv(2) by (auto simp: CAN_BUFSIZE_def)
  then have "receiver empty_msg s = Inl OutOfBounds"
    using full_frame_print_overruns [of s 1 2 "[1, 2, 3, 4, 5, 6, 7, 8]" "[]" empty_msg] by (simp add: empty_msg_def)
  then show ?thesis by blast
qed

end
