(* ===== verification/Drv_Sio.thy ===== *)
theory Drv_Sio
  imports Stm_Board Drv_Sci
begin

section \<open>The port driver\<close>

text \<open>
  \<open>sioTinyTimber.c\<close>: the push button on pin 7 and the green light on pin 0 of a port. The object's
  port is passed beside it.
\<close>

record SysIO =
  sio_obj :: "nat option"
  sio_meth :: nat

definition initSysIO :: "nat option \<Rightarrow> nat \<Rightarrow> SysIO" where
  "initSysIO ob meth = \<lparr>sio_obj = ob, sio_meth = meth\<rparr>"

definition GPIO_Pin_0 :: u16 where "GPIO_Pin_0 = 0x0001"
definition GPIO_Pin_7 :: u16 where "GPIO_Pin_7 = 0x0080"
definition EXTI_Line7 :: u32 where "EXTI_Line7 = 0x00080"

definition sio_init :: "GPIO_TypeDef \<Rightarrow> nvic \<Rightarrow> (GPIO_TypeDef \<times> nvic) res" where
  "sio_init gpiob v =
     (let g = GPIO_WriteBit GPIO_Pin_0 False gpiob
      in bnd (NVIC_SetPriority 23 2 v) (\<lambda>v1. bnd (NVIC_EnableIRQ 23 v1) (\<lambda>v2. Inr (g, v2))))"

definition sio_read :: "GPIO_TypeDef \<Rightarrow> i32" where
  "sio_read port = ucast (GPIO_ReadInputDataBit GPIO_Pin_7 port)"

definition sio_write :: "i32 \<Rightarrow> GPIO_TypeDef \<Rightarrow> GPIO_TypeDef" where
  "sio_write val port = GPIO_WriteBit GPIO_Pin_0 (val \<noteq> 0) port"

definition sio_toggle :: "GPIO_TypeDef \<Rightarrow> GPIO_TypeDef" where
  "sio_toggle port = GPIO_ToggleBits GPIO_Pin_0 port"

definition sio_trig :: "i32 \<Rightarrow> EXTI_TypeDef \<Rightarrow> EXTI_TypeDef" where
  "sio_trig rise e = EXTI_Init (EXTI_StructInit\<lparr>EXTI_Line := EXTI_Line7, EXTI_Mode := EXTI_Mode_Interrupt,
     EXTI_Trigger := (if rise \<noteq> 0 then EXTI_Trigger_Rising else EXTI_Trigger_Falling), EXTI_LineCmd := True\<rparr>) e"

definition sio_interrupt :: "SysIO \<Rightarrow> EXTI_TypeDef \<Rightarrow> string list \<times> sends \<times> EXTI_TypeDef" where
  "sio_interrupt self e =
     (if EXTI_GetITStatus EXTI_Line7 e
      then ([], case sio_obj self of None \<Rightarrow> [] | Some ob \<Rightarrow> [(ob, sio_meth self, 0)],
            EXTI_ClearITPendingBit EXTI_Line7 e)
      else ([''Strange: Not a GPIOB bit7 IRQ!''], [], e))"

subsection \<open>What the operations do to the pins\<close>

lemma sio_write_bit: "bit (ODR (sio_write val port)) n = (if n = 0 then val \<noteq> 0 else bit (ODR port) n)"
  by (auto simp: sio_write_def GPIO_WriteBit_def GPIO_SetBits_def GPIO_ResetBits_def GPIO_Pin_0_def bit_simps reg_bits
      dest: bit_imp_le_length)

lemma sio_toggle_bit: "bit (ODR (sio_toggle port)) n = (if n = 0 then \<not> bit (ODR port) 0 else bit (ODR port) n)"
  by (auto simp: sio_toggle_def GPIO_ToggleBits_def GPIO_Pin_0_def bit_simps reg_bits)

lemma sio_trig_edges:
  "bit (ex_IMR (sio_trig rise e)) 7" "bit (ex_RTSR (sio_trig rise e)) 7 \<longleftrightarrow> rise \<noteq> 0"
  "bit (ex_FTSR (sio_trig rise e)) 7 \<longleftrightarrow> rise = 0" "\<not> bit (ex_EMR (sio_trig rise e)) 7"
  by (simp_all add: sio_trig_def EXTI_Init_def EXTI_StructInit_def EXTI_Line7_def Let_def bit_simps reg_bits)

end
