(* ===== verification/Drv_Properties.thy ===== *)
theory Drv_Properties
  imports Drv_Can Drv_Sio TT_Support
begin

section \<open>Drivers: what they guarantee, and where they do not\<close>

text \<open>Concrete states for the witnesses.\<close>

abbreviation zero_mailbox :: can_mailbox where
  "zero_mailbox \<equiv> \<lparr>mb_IR = 0, mb_DTR = 0, mb_DLR = 0, mb_DHR = 0\<rparr>"

abbreviation demo_can :: CAN_TypeDef where
  "demo_can \<equiv> \<lparr>can_MCR = 0, can_MSR = 0, can_TSR = 0x1C000000, can_RF0R = 1, can_RF1R = 0, can_IER = 0, can_ESR = 0,
     can_BTR = 0, sTxMailBox = (\<lambda>_. zero_mailbox), sFIFOMailBox = (\<lambda>_. zero_mailbox), can_FMR = 0, can_FM1R = 0,
     can_FS1R = 0, can_FFA1R = 0, can_FA1R = 0, sFilterRegister = replicate 28 (0, 0)\<rparr>"

abbreviation demo_frame :: CanMsgFrame where
  "demo_frame \<equiv> \<lparr>StdId = 0, ExtId = 0, IDE = 0, RTR = 0, DLC = 0, Data = replicate 8 0\<rparr>"

abbreviation demo_rx :: CanRxMsg where
  "demo_rx \<equiv> \<lparr>StdId = 0, ExtId = 0, IDE = 0, RTR = 0, DLC = 0, Data = replicate 8 0, FMI = 0\<rparr>"

abbreviation demo_msg :: CANMsg where
  "demo_msg \<equiv> \<lparr>msgId = 5, nodeId = 3, cm_length = 2, cm_buff = [7, 9, 0, 0, 0, 0, 0, 0]\<rparr>"

abbreviation demo_usart :: USART_TypeDef where
  "demo_usart \<equiv> \<lparr>us_SR = 0x80, us_TDR = 0, us_RDR = 0, us_BRR = 0, us_CR1 = 0, us_CR2 = 0, us_CR3 = 0, us_GTPR = 0\<rparr>"

text \<open>
  C16. A message given to \<open>can_send\<close> with a valid identifier and put into a mailbox
  is what the receiver stores when the frame arrives: the receive interrupt appends identifier and
  the first eight bytes at most to the ring, sends one message with the identifier to the
  application and releases the hardware FIFO.
\<close>

theorem can_delivers:
  assumes "length (cm_buff msg) = 8" and "length (Data stk) = 8" and "msgId msg < 128" and "nodeId msg < 16"
    and "can_send stk msg c = Inr (0, out, msg', c')"
    and "on_the_bus (sTxMailBox c' (unat (free_mailbox (can_TSR c)))) (sFIFOMailBox d 0)"
    and "can_inv s" and "r_count s < CAN_BUFSIZE" and "can_obj s = Some ob"
  shows "\<exists>out' s' d'. can_interrupt stk' s d
           = Inr (out', [(ob, can_meth s, push_bit 4 (ucast (msgId msg)) + ucast (nodeId msg))], s', d')
      \<and> can_inv s' \<and> bit (can_RF0R d') 5
      \<and> can_abs s' = can_abs s @ [(msgId msg, nodeId msg, take (unat (min 8 (cm_length msg))) (cm_buff msg))]"
proof -
  let ?n = "unat (free_mailbox (can_TSR c))" and ?rx = "read_mailbox (sFIFOMailBox d 0) stk'"
  have "c' = upd_tx ?n (fill_mailbox (sent_frame stk msg)) c"
    using assms(5) can_send_frame [OF assms(1,2), of c] by (simp split: if_splits)
  then have bus: "on_the_bus (fill_mailbox (sent_frame stk msg) (sTxMailBox c ?n)) (sFIFOMailBox d 0)"
    using assms(6) by (simp add: upd_tx_def)
  note e2e = can_end_to_end [OF assms(1-4) bus, of stk']
  obtain s' where s': "can_store ?rx s = Inr ([(ob, can_meth s, push_bit 4 (ucast (msgId msg)) + ucast (nodeId msg))], s')"
      "can_inv s'" "can_abs s' = can_abs s @ [rx_entry ?rx]"
    using can_store_appends [OF assms(7) e2e(1) assms(8)] assms(9) e2e(2) by auto
  then show ?thesis using assms(8) e2e(2)
    by (simp add: can_interrupt_def CAN_Receive_def CAN_FIFORelease_def Let_def bit_simps reg_bits)
qed

theorem can_delivers_witness:
  "\<exists>out' s' d'. can_interrupt demo_rx (initCan (Some 1) 2) (demo_can\<lparr>sFIFOMailBox := (\<lambda>_.
         (fill_mailbox (sent_frame demo_frame demo_msg) zero_mailbox)\<lparr>mb_IR := 0x0A600000\<rparr>)\<rparr>)
       = Inr (out', [(1, 2, push_bit 4 (ucast (5 :: u8)) + ucast (3 :: u8))], s', d')
     \<and> can_inv s' \<and> bit (can_RF0R d') 5 \<and> can_abs s' = [(5, 3, [7, 9])]"
proof -
  let ?d = "demo_can\<lparr>sFIFOMailBox := (\<lambda>_. (fill_mailbox (sent_frame demo_frame demo_msg) zero_mailbox)\<lparr>mb_IR := 0x0A600000\<rparr>)\<rparr>"
  have a: "can_send demo_frame demo_msg demo_can
      = Inr (0, [], demo_msg, upd_tx 0 (fill_mailbox (sent_frame demo_frame demo_msg)) demo_can)"
    by (subst can_send_frame) (simp_all add: free_mailbox_def CAN_TxStatus_NoMailBox_def)
  have b: "on_the_bus (sTxMailBox (upd_tx 0 (fill_mailbox (sent_frame demo_frame demo_msg)) demo_can)
      (unat (free_mailbox (can_TSR demo_can)))) (sFIFOMailBox ?d 0)"
    by (simp add: on_the_bus_def upd_tx_def free_mailbox_def fill_mailbox_def sent_frame_def Let_def)
  have c: "r_count (initCan (Some 1) 2) < CAN_BUFSIZE" "can_obj (initCan (Some 1) 2) = Some 1"
      "can_meth (initCan (Some 1) 2) = 2"
    by (simp_all add: initCan_def CAN_BUFSIZE_def)
  show ?thesis
    using can_delivers [OF _ _ _ _ a b initCan_inv(1) c(1,2), of demo_rx] initCan_inv(2) c(3) by simp
qed



text \<open>
  C20. A received frame whose length code is above eight makes the receive interrupt copy past the
  eight byte buffers.
\<close>

theorem can_long_frame_overruns:
  assumes "can_inv s" and "r_count s < CAN_BUFSIZE" and "8 < unat (mb_DTR (sFIFOMailBox c 0) AND 0x0F)"
  shows "can_interrupt stk s c = Inl OutOfBounds"
proof -
  let ?rx = "read_mailbox (sFIFOMailBox c 0) stk"
  have "DLC ?rx AND 0x0F = ucast (mb_DTR (sFIFOMailBox c 0) AND 0x0F)"
    by (rule bit_word_eqI) (auto simp: read_mailbox_def Let_def bit_simps reg_bits)
  moreover have "unat (ucast (mb_DTR (sFIFOMailBox c 0) AND 0x0F) :: u8) = unat (mb_DTR (sFIFOMailBox c 0) AND 0x0F)"
  proof -
    have "mb_DTR (sFIFOMailBox c 0) AND 0x0F < 2 ^ 4" by (rule word_less_of_take_bit)
        (simp_all add: take_bit_eq_mask mask_values)
    then have "unat (mb_DTR (sFIFOMailBox c 0) AND 0x0F) < 2 ^ 8" by (simp add: word_less_nat_alt)
    then show ?thesis by (simp add: unsigned_ucast_eq take_bit_nat_eq_self)
  qed
  moreover have "length (Data ?rx) = 8" by (simp add: read_mailbox_def Let_def data_bytes_def)
  ultimately have "can_store ?rx s = Inl OutOfBounds" using assms by (intro can_store_long) simp_all
  then show ?thesis using assms(2) by (simp add: can_interrupt_def CAN_Receive_def Let_def)
qed

theorem can_long_frame_overruns_witness:
  "can_interrupt demo_rx (initCan None 0) (demo_can\<lparr>sFIFOMailBox := (\<lambda>_. zero_mailbox\<lparr>mb_DTR := 9\<rparr>)\<rparr>) = Inl OutOfBounds"
  by (rule can_long_frame_overruns [OF initCan_inv(1)]) (simp_all add: initCan_def CAN_BUFSIZE_def)

lemma can_full_keeps_fifo:
  assumes "r_count s = CAN_BUFSIZE" and "CAN_GetFlagStatus 0x12000003 c"
  shows "can_interrupt stk s c = Inr ([''Strange: CAN #1 FIFO0 Full!''], [], s, c)"
  using assms by (simp add: can_interrupt_def)

text \<open>
  C18. A string written to an idle serial driver goes out completely: while the transmitter is
  ready the transmit interrupts send the first 1024 bytes of the string with a carriage return
  before each line feed, in order, and then the interrupt is switched off.
\<close>

theorem sci_transmits:
  assumes "sci_inv s" and "ring_abs s = []" and "USART_GetFlagStatus USART_FLAG_TXE u" and "SCI_BUFSIZE < n"
  shows "\<exists>s1 u1 s2 u2. sci_write p s u = Inr (s1, u1)
      \<and> line_out n s1 u1 = Inr (take SCI_BUFSIZE (crlf p), s2, u2)
      \<and> sci_inv s2 \<and> ring_abs s2 = [] \<and> \<not> txe_enabled u2"
proof -
  obtain s1 where s1: "write_loop p s = Inr s1" "sci_inv s1" "ring_abs s1 = take SCI_BUFSIZE (crlf p)"
    using write_loop_appends [OF assms(1), of p] assms(2) by auto
  let ?u = "USART_ITConfig USART_IT_TXE True u"
  have w: "sci_write p s u = Inr (s1, ?u)" using assms(2) s1(1) by (simp add: sci_write_def Let_def)
  have "USART_GetFlagStatus USART_FLAG_TXE ?u"
    using assms(3) by (simp add: USART_GetFlagStatus_def txe_config)
  moreover have "r_count s1 < n"
    using s1(2) assms(4) by (simp add: sci_inv_def ring_rep_def)
  ultimately obtain s2 u2 where "line_out n s1 ?u = Inr (ring_abs s1, s2, u2)" "sci_inv s2" "ring_abs s2 = []" "\<not> txe_enabled u2"
    using line_out_all [OF s1(2), of ?u n] by (auto simp: txe_config)
  with w s1(3) show ?thesis by metis
qed

theorem sci_transmits_witness:
  "\<exists>s1 u1 s2 u2. sci_write [72, 10] (initSerial None 0) demo_usart = Inr (s1, u1)
      \<and> line_out 1025 s1 u1 = Inr ([72, 13, 10], s2, u2) \<and> sci_inv s2 \<and> ring_abs s2 = [] \<and> \<not> txe_enabled u2"
  using sci_transmits [of "initSerial None 0" demo_usart 1025 "[72, 10]"]
  by (simp add: SCI_BUFSIZE_def USART_GetFlagStatus_def USART_FLAG_TXE_def)

text \<open>
  \<open>DUMPD\<close> prints the decimal digits of its argument with a sign, within its
  buffer; only for the most negative integer the negation wraps and it reads before the digit
  table.
\<close>

lemma dumpd_prints:
  assumes "length buf = 100"
  shows "DUMPD buf v = (if sint v = - 2147483648 then Inl OutOfBounds
           else Inr ((if sint v < 0 then ''-'' else []) @ digits 10 (nat \<bar>sint v\<bar>)))
       \<and> number_value 10 (digits 10 (nat \<bar>sint v\<bar>)) = nat \<bar>sint v\<bar>"
proof (cases "sint v = - 2147483648")
  case True
  then have "sint v = sint (0x80000000 :: i32)" by simp
  then have "v = 0x80000000" by (rule signed_word_eqI)
  with True show ?thesis by (simp add: DUMPD_min number_value_digits)
next
  case False
  then show ?thesis using DUMPD_digits [OF assms] by (simp add: number_value_digits)
qed

lemma dumpd_prints_witness:
  "DUMPD (replicate 100 CHR ''x'') (- 42) = Inr ''-42''"
proof -
  have "digits 10 42 = ''42''" by (simp add: digits.simps hex_def)
  then show ?thesis using dumpd_prints [of "replicate 100 CHR ''x''" "- 42"] by simp
qed

text \<open>
  The frame \<open>SETSTACK\<close> and \<open>SETPC\<close> lay out at the top of a stack
  holds the exception return code, the base priority, the program counter and the Thumb bit at the
  offsets the switch reads and zeros elsewhere.
\<close>

lemma thread_frame:
  assumes "SETSTACK sp m = (cp, m')" and "k < CONTEXTSIZE"
  shows "cp = sp + 7984 \<and> SETPC cp fp m' (cp + push_bit 2 (of_nat k))
      = (if k = 0 then 0xFFFFFFE9 else if k = 1 then ucast ENABLED_PRIORITY else if k = 32 then fp
         else if k = 33 then 0x01000000 else 0)"
  using new_context(1,2) [OF assms(1)] assms(2) by simp

lemma thread_frame_witness:
  "SETPC 9984 77 (snd (SETSTACK 2000 (\<lambda>_. 5))) 10112 = 77"
proof -
  have "SETSTACK 2000 (\<lambda>_. 5) = (9984, snd (SETSTACK 2000 (\<lambda>_. 5)))"
    using new_context(1) [of 2000 "\<lambda>_. 5" "fst (SETSTACK 2000 (\<lambda>_. 5))" "snd (SETSTACK 2000 (\<lambda>_. 5))"]
    by (simp add: prod_eq_iff)
  from thread_frame [OF this, of 32 77] show ?thesis by (simp add: CONTEXTSIZE_def)
qed


lemma tx_status_bad_mailbox:
  assumes "2 < mb"
  shows "CAN_TransmitStatus mb tsr = CAN_TxStatus_Pending \<and> CAN_TxStatus_Pending \<noteq> CAN_TxStatus_Failed"
proof -
  have "mb \<noteq> 0" "mb \<noteq> 1" "mb \<noteq> 2" using assms by auto
  then show ?thesis by (simp add: CAN_TransmitStatus_def CAN_TxStatus_Failed_def CAN_TxStatus_Pending_def)
qed

text \<open>
  Configuring a port sets mode and pull of exactly the selected pins.
\<close>

lemma gpio_configures:
  assumes "q < 16" and "GPIO_PuPd ini AND 3 = GPIO_PuPd ini"
  shows "pin_field q (MODER (GPIO_Init ini g))
       = (if bit (GPIO_Pin ini) q then mode_code (GPIO_Mode ini) else pin_field q (MODER g))
    \<and> pin_field q (PUPDR (GPIO_Init ini g))
       = (if bit (GPIO_Pin ini) q then GPIO_PuPd ini else pin_field q (PUPDR g))"
  using GPIO_Init_pins [OF assms, of 16 g] assms(1) by (simp add: GPIO_Init_def)

lemma gpio_configures_witness:
  "pin_field 7 (MODER (GPIO_Init (GPIO_StructInit\<lparr>GPIO_Pin := 0x80, GPIO_Mode := GPIO_Mode_AN\<rparr>)
     \<lparr>MODER = 0, OTYPER = 0, OSPEEDR = 0, PUPDR = 0, IDR = 0, ODR = 0, LCKR = 0, AFR = [0, 0]\<rparr>)) = 3"
  using gpio_configures [of 7 "GPIO_StructInit\<lparr>GPIO_Pin := 0x80, GPIO_Mode := GPIO_Mode_AN\<rparr>"
     "\<lparr>MODER = 0, OTYPER = 0, OSPEEDR = 0, PUPDR = 0, IDR = 0, ODR = 0, LCKR = 0, AFR = [0, 0]\<rparr>"]
  by (simp add: GPIO_StructInit_def reg_bits)

end
