(* ===== verification/Stm_Rcc.thy ===== *)
theory Stm_Rcc
  imports Prelude
begin

section \<open>Clocks and resets\<close>

text \<open>
  \<open>lib/md407/src/stm32f4xx_rcc.c\<close>, built for \<open>STM32F40_41xxx\<close>. Registers hold what the program writes; what the
  oscillators report while they are polled is an argument. A one written to the upper part of \<open>CIR\<close> clears a
  pending bit, \<open>RMVF\<close> the reset flags.
\<close>

record RCC_TypeDef =
  rc_CR :: u32
  rc_PLLCFGR :: u32
  rc_CFGR :: u32
  rc_CIR :: u32
  rc_AHB1RSTR :: u32
  rc_AHB2RSTR :: u32
  rc_AHB3RSTR :: u32
  rc_APB1RSTR :: u32
  rc_APB2RSTR :: u32
  rc_AHB1ENR :: u32
  rc_AHB2ENR :: u32
  rc_AHB3ENR :: u32
  rc_APB1ENR :: u32
  rc_APB2ENR :: u32
  rc_AHB1LPENR :: u32
  rc_AHB2LPENR :: u32
  rc_AHB3LPENR :: u32
  rc_APB1LPENR :: u32
  rc_APB2LPENR :: u32
  rc_BDCR :: u32
  rc_CSR :: u32
  rc_PLLI2SCFGR :: u32
  rc_PLLSAICFGR :: u32
  rc_DCKCFGR :: u32

record RCC_ClocksTypeDef =
  SYSCLK_Frequency :: u32
  HCLK_Frequency :: u32
  PCLK1_Frequency :: u32
  PCLK2_Frequency :: u32

definition HSE_VALUE :: u32 where "HSE_VALUE = 8000000"
definition HSI_VALUE :: u32 where "HSI_VALUE = 16000000"
definition HSE_STARTUP_TIMEOUT :: nat where "HSE_STARTUP_TIMEOUT = 0x05000"

text \<open>A write through the bit-band alias of a bit, and of one byte of a register.\<close>

definition bit_band :: "nat \<Rightarrow> u32 \<Rightarrow> u32 \<Rightarrow> u32" where
  "bit_band n v r = (if bit v 0 then set_bit n r else unset_bit n r)"

definition put_byte :: "nat \<Rightarrow> u8 \<Rightarrow> u32 \<Rightarrow> u32" where
  "put_byte i v r = (r AND NOT (push_bit (8 * i) 0xFF)) OR push_bit (8 * i) (ucast v)"

definition on_off :: "bool \<Rightarrow> u32" where "on_off b = (if b then 1 else 0)"

subsection \<open>Oscillators and phase locked loops\<close>

definition RCC_DeInit :: "RCC_TypeDef \<Rightarrow> RCC_TypeDef" where
  "RCC_DeInit r =
     (let r1 = r\<lparr>rc_CR := rc_CR r OR 0x00000001\<rparr>;
          r2 = r1\<lparr>rc_CFGR := 0\<rparr>;
          r3 = r2\<lparr>rc_CR := rc_CR r2 AND 0xEAF6FFFF\<rparr>;
          r4 = r3\<lparr>rc_PLLCFGR := 0x24003010, rc_PLLI2SCFGR := 0x20003000, rc_PLLSAICFGR := 0x24003000\<rparr>;
          r5 = r4\<lparr>rc_CR := rc_CR r4 AND 0xFFFBFFFF\<rparr>
      in r5\<lparr>rc_CIR := 0, rc_DCKCFGR := 0\<rparr>)"

definition RCC_HSEConfig :: "u8 \<Rightarrow> RCC_TypeDef \<Rightarrow> RCC_TypeDef" where
  "RCC_HSEConfig hse r = (let r1 = r\<lparr>rc_CR := put_byte 2 0 (rc_CR r)\<rparr> in r1\<lparr>rc_CR := put_byte 2 hse (rc_CR r1)\<rparr>)"

text \<open>\<open>RCC_GetFlagStatus\<close>: the upper bits of the flag's code select the register.\<close>

definition RCC_GetFlagStatus :: "u8 \<Rightarrow> RCC_TypeDef \<Rightarrow> bool" where
  "RCC_GetFlagStatus flag r =
     (let tmp = drop_bit 5 flag;
          statusreg = (if tmp = 1 then rc_CR r else if tmp = 2 then rc_BDCR r else rc_CSR r)
      in statusreg AND push_bit (unat (flag AND 0x1F)) 1 \<noteq> 0)"

definition RCC_FLAG_HSERDY :: u8 where "RCC_FLAG_HSERDY = 0x31"

text \<open>\<open>cr i\<close> is what \<open>CR\<close> reads as at the \<open>i\<close>-th look; the loop stops at the time-out, and looks once more.\<close>

fun hse_wait :: "nat \<Rightarrow> (nat \<Rightarrow> u32) \<Rightarrow> RCC_TypeDef \<Rightarrow> nat \<Rightarrow> nat" where
  "hse_wait 0 cr r startupcounter = startupcounter"
| "hse_wait (Suc f) cr r startupcounter =
     (let hsestatus = RCC_GetFlagStatus RCC_FLAG_HSERDY (r\<lparr>rc_CR := cr startupcounter\<rparr>);
          n = startupcounter + 1
      in if n \<noteq> HSE_STARTUP_TIMEOUT \<and> \<not> hsestatus then hse_wait f cr r n else n)"

definition RCC_WaitForHSEStartUp :: "(nat \<Rightarrow> u32) \<Rightarrow> RCC_TypeDef \<Rightarrow> bool" where
  "RCC_WaitForHSEStartUp cr r =
     RCC_GetFlagStatus RCC_FLAG_HSERDY (r\<lparr>rc_CR := cr (hse_wait HSE_STARTUP_TIMEOUT cr r 0)\<rparr>)"

definition RCC_AdjustHSICalibrationValue :: "u8 \<Rightarrow> RCC_TypeDef \<Rightarrow> RCC_TypeDef" where
  "RCC_AdjustHSICalibrationValue v r = r\<lparr>rc_CR := (rc_CR r AND NOT 0x000000F8) OR push_bit 3 (ucast v)\<rparr>"
definition RCC_HSICmd :: "bool \<Rightarrow> RCC_TypeDef \<Rightarrow> RCC_TypeDef" where
  "RCC_HSICmd b r = r\<lparr>rc_CR := bit_band 0 (on_off b) (rc_CR r)\<rparr>"

definition RCC_LSEConfig :: "u8 \<Rightarrow> RCC_TypeDef \<Rightarrow> RCC_TypeDef" where
  "RCC_LSEConfig lse r =
     (let r1 = r\<lparr>rc_BDCR := put_byte 0 0 (put_byte 0 0 (rc_BDCR r))\<rparr>
      in if lse = 1 then r1\<lparr>rc_BDCR := put_byte 0 1 (rc_BDCR r1)\<rparr>
         else if lse = 4 then r1\<lparr>rc_BDCR := put_byte 0 (4 OR 1) (rc_BDCR r1)\<rparr>
         else r1)"

definition RCC_LSICmd :: "bool \<Rightarrow> RCC_TypeDef \<Rightarrow> RCC_TypeDef" where
  "RCC_LSICmd b r = r\<lparr>rc_CSR := bit_band 0 (on_off b) (rc_CSR r)\<rparr>"

definition RCC_PLLConfig :: "u32 \<Rightarrow> u32 \<Rightarrow> u32 \<Rightarrow> u32 \<Rightarrow> u32 \<Rightarrow> RCC_TypeDef \<Rightarrow> RCC_TypeDef" where
  "RCC_PLLConfig source m n p q r =
     r\<lparr>rc_PLLCFGR := m OR push_bit 6 n OR push_bit 16 (drop_bit 1 p - 1) OR source OR push_bit 24 q\<rparr>"

definition RCC_PLLCmd :: "bool \<Rightarrow> RCC_TypeDef \<Rightarrow> RCC_TypeDef" where
  "RCC_PLLCmd b r = r\<lparr>rc_CR := bit_band 24 (on_off b) (rc_CR r)\<rparr>"
definition RCC_PLLI2SConfig :: "u32 \<Rightarrow> u32 \<Rightarrow> RCC_TypeDef \<Rightarrow> RCC_TypeDef" where
  "RCC_PLLI2SConfig n rr r = r\<lparr>rc_PLLI2SCFGR := push_bit 6 n OR push_bit 28 rr\<rparr>"
definition RCC_PLLI2SCmd :: "bool \<Rightarrow> RCC_TypeDef \<Rightarrow> RCC_TypeDef" where
  "RCC_PLLI2SCmd b r = r\<lparr>rc_CR := bit_band 26 (on_off b) (rc_CR r)\<rparr>"
definition RCC_PLLSAIConfig :: "u32 \<Rightarrow> u32 \<Rightarrow> u32 \<Rightarrow> RCC_TypeDef \<Rightarrow> RCC_TypeDef" where
  "RCC_PLLSAIConfig n q rr r = r\<lparr>rc_PLLSAICFGR := push_bit 6 n OR push_bit 24 q OR push_bit 28 rr\<rparr>"
definition RCC_PLLSAICmd :: "bool \<Rightarrow> RCC_TypeDef \<Rightarrow> RCC_TypeDef" where
  "RCC_PLLSAICmd b r = r\<lparr>rc_CR := bit_band 28 (on_off b) (rc_CR r)\<rparr>"
definition RCC_ClockSecuritySystemCmd :: "bool \<Rightarrow> RCC_TypeDef \<Rightarrow> RCC_TypeDef" where
  "RCC_ClockSecuritySystemCmd b r = r\<lparr>rc_CR := bit_band 19 (on_off b) (rc_CR r)\<rparr>"
definition RCC_MCO1Config :: "u32 \<Rightarrow> u32 \<Rightarrow> RCC_TypeDef \<Rightarrow> RCC_TypeDef" where
  "RCC_MCO1Config source dv r = r\<lparr>rc_CFGR := (rc_CFGR r AND 0xF89FFFFF) OR (source OR dv)\<rparr>"
definition RCC_MCO2Config :: "u32 \<Rightarrow> u32 \<Rightarrow> RCC_TypeDef \<Rightarrow> RCC_TypeDef" where
  "RCC_MCO2Config source dv r = r\<lparr>rc_CFGR := (rc_CFGR r AND 0x07FFFFFF) OR (source OR dv)\<rparr>"

subsection \<open>System and bus clocks\<close>

definition RCC_SYSCLKConfig :: "u32 \<Rightarrow> RCC_TypeDef \<Rightarrow> RCC_TypeDef" where
  "RCC_SYSCLKConfig source r = r\<lparr>rc_CFGR := (rc_CFGR r AND NOT 0x00000003) OR source\<rparr>"
definition RCC_GetSYSCLKSource :: "RCC_TypeDef \<Rightarrow> u8" where
  "RCC_GetSYSCLKSource r = ucast (rc_CFGR r AND 0x0000000C)"
definition RCC_HCLKConfig :: "u32 \<Rightarrow> RCC_TypeDef \<Rightarrow> RCC_TypeDef" where
  "RCC_HCLKConfig sysclk r = r\<lparr>rc_CFGR := (rc_CFGR r AND NOT 0x000000F0) OR sysclk\<rparr>"
definition RCC_PCLK1Config :: "u32 \<Rightarrow> RCC_TypeDef \<Rightarrow> RCC_TypeDef" where
  "RCC_PCLK1Config hclk r = r\<lparr>rc_CFGR := (rc_CFGR r AND NOT 0x00001C00) OR hclk\<rparr>"
definition RCC_PCLK2Config :: "u32 \<Rightarrow> RCC_TypeDef \<Rightarrow> RCC_TypeDef" where
  "RCC_PCLK2Config hclk r = r\<lparr>rc_CFGR := (rc_CFGR r AND NOT 0x0000E000) OR push_bit 3 hclk\<rparr>"

definition APBAHBPrescTable :: "u8 list" where
  "APBAHBPrescTable = [0, 0, 0, 0, 1, 2, 3, 4, 1, 2, 3, 4, 6, 7, 8, 9]"

definition presc_at :: "u32 \<Rightarrow> nat" where "presc_at i = unat (APBAHBPrescTable ! unat i)"

definition udiv :: "u32 \<Rightarrow> u32 \<Rightarrow> u32 res" where
  "udiv a b = (if b = 0 then Inl DivByZero else Inr (a div b))"

definition sysclk_of :: "RCC_TypeDef \<Rightarrow> u32 res" where
  "sysclk_of r =
     (let tmp = rc_CFGR r AND 0x0000000C
      in if tmp = 0x00 then Inr HSI_VALUE
         else if tmp = 0x04 then Inr HSE_VALUE
         else if tmp = 0x08
           then let pllsource = drop_bit 22 (rc_PLLCFGR r AND 0x00400000);
                    pllm = rc_PLLCFGR r AND 0x0000003F;
                    n = drop_bit 6 (rc_PLLCFGR r AND 0x00007FC0)
                in bnd (udiv (if pllsource \<noteq> 0 then HSE_VALUE else HSI_VALUE) pllm) (\<lambda>v.
                   let pllvco = v * n;
                       pllp = (drop_bit 16 (rc_PLLCFGR r AND 0x00030000) + 1) * 2
                   in udiv pllvco pllp)
         else Inr HSI_VALUE)"

definition RCC_GetClocksFreq :: "RCC_TypeDef \<Rightarrow> RCC_ClocksTypeDef res" where
  "RCC_GetClocksFreq r =
     bnd (sysclk_of r) (\<lambda>sysclk.
       let hclk = drop_bit (presc_at (drop_bit 4 (rc_CFGR r AND 0x000000F0))) sysclk
       in Inr \<lparr>SYSCLK_Frequency = sysclk, HCLK_Frequency = hclk,
               PCLK1_Frequency = drop_bit (presc_at (drop_bit 10 (rc_CFGR r AND 0x00001C00))) hclk,
               PCLK2_Frequency = drop_bit (presc_at (drop_bit 13 (rc_CFGR r AND 0x0000E000))) hclk\<rparr>)"

subsection \<open>Clocks of single peripherals\<close>

definition RCC_RTCCLKConfig :: "u32 \<Rightarrow> RCC_TypeDef \<Rightarrow> RCC_TypeDef" where
  "RCC_RTCCLKConfig source r =
     (let r1 = (if source AND 0x00000300 = 0x00000300
                then r\<lparr>rc_CFGR := (rc_CFGR r AND NOT 0x001F0000) OR (source AND 0xFFFFCFF)\<rparr> else r)
      in r1\<lparr>rc_BDCR := rc_BDCR r1 OR (source AND 0x00000FFF)\<rparr>)"

definition RCC_RTCCLKCmd :: "bool \<Rightarrow> RCC_TypeDef \<Rightarrow> RCC_TypeDef" where
  "RCC_RTCCLKCmd b r = r\<lparr>rc_BDCR := bit_band 15 (on_off b) (rc_BDCR r)\<rparr>"
definition RCC_BackupResetCmd :: "bool \<Rightarrow> RCC_TypeDef \<Rightarrow> RCC_TypeDef" where
  "RCC_BackupResetCmd b r = r\<lparr>rc_BDCR := bit_band 16 (on_off b) (rc_BDCR r)\<rparr>"
definition RCC_I2SCLKConfig :: "u32 \<Rightarrow> RCC_TypeDef \<Rightarrow> RCC_TypeDef" where
  "RCC_I2SCLKConfig source r = r\<lparr>rc_CFGR := bit_band 23 source (rc_CFGR r)\<rparr>"
definition RCC_SAIPLLI2SClkDivConfig :: "u32 \<Rightarrow> RCC_TypeDef \<Rightarrow> RCC_TypeDef" where
  "RCC_SAIPLLI2SClkDivConfig q r = r\<lparr>rc_DCKCFGR := (rc_DCKCFGR r AND NOT 0x0000001F) OR (q - 1)\<rparr>"
definition RCC_SAIPLLSAIClkDivConfig :: "u32 \<Rightarrow> RCC_TypeDef \<Rightarrow> RCC_TypeDef" where
  "RCC_SAIPLLSAIClkDivConfig q r = r\<lparr>rc_DCKCFGR := (rc_DCKCFGR r AND NOT 0x00001F00) OR push_bit 8 (q - 1)\<rparr>"
definition RCC_SAIBlockACLKConfig :: "u32 \<Rightarrow> RCC_TypeDef \<Rightarrow> RCC_TypeDef" where
  "RCC_SAIBlockACLKConfig s r = r\<lparr>rc_DCKCFGR := (rc_DCKCFGR r AND NOT 0x00300000) OR s\<rparr>"
definition RCC_SAIBlockBCLKConfig :: "u32 \<Rightarrow> RCC_TypeDef \<Rightarrow> RCC_TypeDef" where
  "RCC_SAIBlockBCLKConfig s r = r\<lparr>rc_DCKCFGR := (rc_DCKCFGR r AND NOT 0x00C00000) OR s\<rparr>"
definition RCC_LTDCCLKDivConfig :: "u32 \<Rightarrow> RCC_TypeDef \<Rightarrow> RCC_TypeDef" where
  "RCC_LTDCCLKDivConfig d r = r\<lparr>rc_DCKCFGR := (rc_DCKCFGR r AND NOT 0x00030000) OR d\<rparr>"
definition RCC_TIMCLKPresConfig :: "u32 \<Rightarrow> RCC_TypeDef \<Rightarrow> RCC_TypeDef" where
  "RCC_TIMCLKPresConfig p r = r\<lparr>rc_DCKCFGR := bit_band 24 p (rc_DCKCFGR r)\<rparr>"

definition RCC_AHB1PeriphClockCmd :: "u32 \<Rightarrow> bool \<Rightarrow> RCC_TypeDef \<Rightarrow> RCC_TypeDef" where
  "RCC_AHB1PeriphClockCmd p b r = r\<lparr>rc_AHB1ENR := put_bits b p (rc_AHB1ENR r)\<rparr>"
definition RCC_AHB2PeriphClockCmd :: "u32 \<Rightarrow> bool \<Rightarrow> RCC_TypeDef \<Rightarrow> RCC_TypeDef" where
  "RCC_AHB2PeriphClockCmd p b r = r\<lparr>rc_AHB2ENR := put_bits b p (rc_AHB2ENR r)\<rparr>"
definition RCC_AHB3PeriphClockCmd :: "u32 \<Rightarrow> bool \<Rightarrow> RCC_TypeDef \<Rightarrow> RCC_TypeDef" where
  "RCC_AHB3PeriphClockCmd p b r = r\<lparr>rc_AHB3ENR := put_bits b p (rc_AHB3ENR r)\<rparr>"
definition RCC_APB1PeriphClockCmd :: "u32 \<Rightarrow> bool \<Rightarrow> RCC_TypeDef \<Rightarrow> RCC_TypeDef" where
  "RCC_APB1PeriphClockCmd p b r = r\<lparr>rc_APB1ENR := put_bits b p (rc_APB1ENR r)\<rparr>"
definition RCC_APB2PeriphClockCmd :: "u32 \<Rightarrow> bool \<Rightarrow> RCC_TypeDef \<Rightarrow> RCC_TypeDef" where
  "RCC_APB2PeriphClockCmd p b r = r\<lparr>rc_APB2ENR := put_bits b p (rc_APB2ENR r)\<rparr>"

definition RCC_AHB1PeriphResetCmd :: "u32 \<Rightarrow> bool \<Rightarrow> RCC_TypeDef \<Rightarrow> RCC_TypeDef" where
  "RCC_AHB1PeriphResetCmd p b r = r\<lparr>rc_AHB1RSTR := put_bits b p (rc_AHB1RSTR r)\<rparr>"
definition RCC_AHB2PeriphResetCmd :: "u32 \<Rightarrow> bool \<Rightarrow> RCC_TypeDef \<Rightarrow> RCC_TypeDef" where
  "RCC_AHB2PeriphResetCmd p b r = r\<lparr>rc_AHB2RSTR := put_bits b p (rc_AHB2RSTR r)\<rparr>"
definition RCC_AHB3PeriphResetCmd :: "u32 \<Rightarrow> bool \<Rightarrow> RCC_TypeDef \<Rightarrow> RCC_TypeDef" where
  "RCC_AHB3PeriphResetCmd p b r = r\<lparr>rc_AHB3RSTR := put_bits b p (rc_AHB3RSTR r)\<rparr>"
definition RCC_APB1PeriphResetCmd :: "u32 \<Rightarrow> bool \<Rightarrow> RCC_TypeDef \<Rightarrow> RCC_TypeDef" where
  "RCC_APB1PeriphResetCmd p b r = r\<lparr>rc_APB1RSTR := put_bits b p (rc_APB1RSTR r)\<rparr>"
definition RCC_APB2PeriphResetCmd :: "u32 \<Rightarrow> bool \<Rightarrow> RCC_TypeDef \<Rightarrow> RCC_TypeDef" where
  "RCC_APB2PeriphResetCmd p b r = r\<lparr>rc_APB2RSTR := put_bits b p (rc_APB2RSTR r)\<rparr>"

definition RCC_AHB1PeriphClockLPModeCmd :: "u32 \<Rightarrow> bool \<Rightarrow> RCC_TypeDef \<Rightarrow> RCC_TypeDef" where
  "RCC_AHB1PeriphClockLPModeCmd p b r = r\<lparr>rc_AHB1LPENR := put_bits b p (rc_AHB1LPENR r)\<rparr>"
definition RCC_AHB2PeriphClockLPModeCmd :: "u32 \<Rightarrow> bool \<Rightarrow> RCC_TypeDef \<Rightarrow> RCC_TypeDef" where
  "RCC_AHB2PeriphClockLPModeCmd p b r = r\<lparr>rc_AHB2LPENR := put_bits b p (rc_AHB2LPENR r)\<rparr>"
definition RCC_AHB3PeriphClockLPModeCmd :: "u32 \<Rightarrow> bool \<Rightarrow> RCC_TypeDef \<Rightarrow> RCC_TypeDef" where
  "RCC_AHB3PeriphClockLPModeCmd p b r = r\<lparr>rc_AHB3LPENR := put_bits b p (rc_AHB3LPENR r)\<rparr>"
definition RCC_APB1PeriphClockLPModeCmd :: "u32 \<Rightarrow> bool \<Rightarrow> RCC_TypeDef \<Rightarrow> RCC_TypeDef" where
  "RCC_APB1PeriphClockLPModeCmd p b r = r\<lparr>rc_APB1LPENR := put_bits b p (rc_APB1LPENR r)\<rparr>"
definition RCC_APB2PeriphClockLPModeCmd :: "u32 \<Rightarrow> bool \<Rightarrow> RCC_TypeDef \<Rightarrow> RCC_TypeDef" where
  "RCC_APB2PeriphClockLPModeCmd p b r = r\<lparr>rc_APB2LPENR := put_bits b p (rc_APB2LPENR r)\<rparr>"

subsection \<open>Interrupts and flags\<close>

definition RCC_ITConfig :: "u8 \<Rightarrow> bool \<Rightarrow> RCC_TypeDef \<Rightarrow> RCC_TypeDef" where
  "RCC_ITConfig it b r = r\<lparr>rc_CIR := put_bits b (push_bit 8 (ucast it)) (rc_CIR r)\<rparr>"
definition RCC_ClearFlag :: "RCC_TypeDef \<Rightarrow> RCC_TypeDef" where
  "RCC_ClearFlag r = r\<lparr>rc_CSR := (rc_CSR r OR 0x01000000) AND NOT 0xFE000000\<rparr>"
definition RCC_GetITStatus :: "u8 \<Rightarrow> RCC_TypeDef \<Rightarrow> bool" where
  "RCC_GetITStatus it r = (rc_CIR r AND ucast it \<noteq> 0)"
definition RCC_ClearITPendingBit :: "u8 \<Rightarrow> RCC_TypeDef \<Rightarrow> RCC_TypeDef" where
  "RCC_ClearITPendingBit it r = r\<lparr>rc_CIR := rc_CIR r AND NOT (ucast it)\<rparr>"

subsection \<open>The clock tree\<close>

text \<open>Masks as fields of the given width and place.\<close>

lemma field_masks:
  "x AND (0x3F :: u32) = take_bit 6 x" "drop_bit 6 (x AND (0x7FC0 :: u32)) = take_bit 9 (drop_bit 6 x)"
  "drop_bit 16 (x AND (0x30000 :: u32)) = take_bit 2 (drop_bit 16 x)"
  "drop_bit 22 (x AND (0x400000 :: u32)) = take_bit 1 (drop_bit 22 x)"
  "drop_bit 4 (x AND (0xF0 :: u32)) = take_bit 4 (drop_bit 4 x)"
  "drop_bit 10 (x AND (0x1C00 :: u32)) = take_bit 3 (drop_bit 10 x)"
  "drop_bit 13 (x AND (0xE000 :: u32)) = take_bit 3 (drop_bit 13 x)"
proof -
  have m: "(0x3F :: u32) = mask 6" "(0x7FC0 :: u32) = push_bit 6 (mask 9)" "(0x30000 :: u32) = push_bit 16 (mask 2)"
    "(0x400000 :: u32) = push_bit 22 (mask 1)" "(0xF0 :: u32) = push_bit 4 (mask 4)"
    "(0x1C00 :: u32) = push_bit 10 (mask 3)" "(0xE000 :: u32) = push_bit 13 (mask 3)"
    by (simp_all add: mask_eq_exp_minus_1 push_bit_eq_mult)
  show "x AND (0x3F :: u32) = take_bit 6 x" "drop_bit 6 (x AND (0x7FC0 :: u32)) = take_bit 9 (drop_bit 6 x)"
    "drop_bit 16 (x AND (0x30000 :: u32)) = take_bit 2 (drop_bit 16 x)"
    "drop_bit 22 (x AND (0x400000 :: u32)) = take_bit 1 (drop_bit 22 x)"
    "drop_bit 4 (x AND (0xF0 :: u32)) = take_bit 4 (drop_bit 4 x)"
    "drop_bit 10 (x AND (0x1C00 :: u32)) = take_bit 3 (drop_bit 10 x)"
    "drop_bit 13 (x AND (0xE000 :: u32)) = take_bit 3 (drop_bit 13 x)"
    by (rule bit_word_eqI, simp only: m, (auto simp: bit_simps even_drop_bit_iff_not_bit simp del: push_bit_of_1 mult_exp_mod_exp_eq)[1])+
qed

lemma pll_fields:
  fixes m n p q :: u32
  assumes "source = 0 \<or> source = push_bit 22 1"
  defines "w \<equiv> take_bit 6 m OR push_bit 6 (take_bit 9 n) OR push_bit 16 (take_bit 2 p) OR source OR push_bit 24 (take_bit 4 q)"
  shows "take_bit 6 w = take_bit 6 m" "take_bit 9 (drop_bit 6 w) = take_bit 9 n"
    "take_bit 2 (drop_bit 16 w) = take_bit 2 p" "take_bit 1 (drop_bit 22 w) = drop_bit 22 source"
proof -
  have s: "bit source k \<longleftrightarrow> source \<noteq> 0 \<and> k = 22" for k
    using assms(1) by (auto simp: bit_simps simp del: push_bit_of_1)
  show "take_bit 6 w = take_bit 6 m" "take_bit 9 (drop_bit 6 w) = take_bit 9 n"
    "take_bit 2 (drop_bit 16 w) = take_bit 2 p" "take_bit 1 (drop_bit 22 w) = drop_bit 22 source"
    unfolding w_def by (rule bit_word_eqI, (auto simp: bit_simps s even_drop_bit_iff_not_bit)[1])+
qed

lemma prescaler_fields:
  fixes c i j k :: u32
  defines "d \<equiv> (((((c AND NOT 0xF0) OR push_bit 4 (take_bit 4 i)) AND NOT 0x1C00) OR push_bit 10 (take_bit 3 j)) AND NOT 0xE000)
     OR push_bit 3 (push_bit 10 (take_bit 3 k))"
  shows "take_bit 4 (drop_bit 4 d) = take_bit 4 i" "take_bit 3 (drop_bit 10 d) = take_bit 3 j"
    "take_bit 3 (drop_bit 13 d) = take_bit 3 k" "d AND 0xC = c AND 0xC"
proof -
  have m: "(0xF0 :: u32) = push_bit 4 (mask 4)" "(0x1C00 :: u32) = push_bit 10 (mask 3)"
    "(0xE000 :: u32) = push_bit 13 (mask 3)" "(0xC :: u32) = push_bit 2 (mask 2)"
    by (simp_all add: mask_eq_exp_minus_1 push_bit_eq_mult)
  show "take_bit 4 (drop_bit 4 d) = take_bit 4 i" "take_bit 3 (drop_bit 10 d) = take_bit 3 j"
    "take_bit 3 (drop_bit 13 d) = take_bit 3 k" "d AND 0xC = c AND 0xC"
    unfolding d_def by (rule bit_word_eqI, simp only: m, (auto simp: bit_simps even_drop_bit_iff_not_bit simp del: push_bit_of_1 mult_exp_mod_exp_eq)[1])+
qed

lemma small_take_bit: "m < 2 ^ w \<Longrightarrow> take_bit w m = (m :: u32)"
proof -
  assume "m < 2 ^ w"
  then have "unat m < unat (of_nat (2 ^ w) :: u32)" by (simp add: word_less_nat_alt)
  also have "\<dots> \<le> 2 ^ w" by (simp only: unsigned_of_nat of_nat_id take_bit_nat_less_eq_self)
  finally show ?thesis by (intro word_unat_eq_iff [THEN iffD2]) (simp add: unsigned_take_bit_eq take_bit_nat_eq_self)
qed

definition pll_base :: "u32 \<Rightarrow> u32" where "pll_base source = (if source = 0 then HSI_VALUE else HSE_VALUE)"

text \<open>The frequencies a choice of source, factors and prescalers stands for.\<close>

definition clock_tree :: "u32 \<Rightarrow> u32 \<Rightarrow> u32 \<Rightarrow> u32 \<Rightarrow> u32 \<Rightarrow> u32 \<Rightarrow> u32 \<Rightarrow> RCC_ClocksTypeDef" where
  "clock_tree source m n p i j k =
     (let sysclk = pll_base source div m * n div p; hclk = drop_bit (presc_at i) sysclk
      in \<lparr>SYSCLK_Frequency = sysclk, HCLK_Frequency = hclk,
          PCLK1_Frequency = drop_bit (presc_at j) hclk, PCLK2_Frequency = drop_bit (presc_at k) hclk\<rparr>)"

definition configure_clocks :: "u32 \<Rightarrow> u32 \<Rightarrow> u32 \<Rightarrow> u32 \<Rightarrow> u32 \<Rightarrow> u32 \<Rightarrow> u32 \<Rightarrow> u32 \<Rightarrow> RCC_TypeDef \<Rightarrow> RCC_TypeDef" where
  "configure_clocks source m n p q i j k r =
     RCC_PCLK2Config (push_bit 10 k) (RCC_PCLK1Config (push_bit 10 j) (RCC_HCLKConfig (push_bit 4 i) (RCC_PLLConfig source m n p q r)))"

lemma clocks_read_back:
  assumes "rc_CFGR r AND 0xC = 8" and src: "source = 0 \<or> source = push_bit 22 1"
    and "0 < m" "m < 64" "n < 512" "q < 16" and p: "p = 2 \<or> p = 4 \<or> p = 6 \<or> p = 8"
    and "i < 16" "j < 8" "k < 8"
  shows "RCC_GetClocksFreq (configure_clocks source m n p q i j k r) = Inr (clock_tree source m n p i j k)"
proof -
  define p' where "p' = drop_bit 1 p - 1"
  have p': "take_bit 2 p' = p'" "(p' + 1) * 2 = p" "p \<noteq> 0"
    using p by (auto simp: p'_def drop_bit_eq_div)
  have t: "take_bit 6 m = m" "take_bit 9 n = n" "take_bit 4 q = q" "take_bit 4 i = i" "take_bit 3 j = j" "take_bit 3 k = k"
    using assms by (simp_all add: small_take_bit)
  note pf = pll_fields [OF src, of m n p' q, unfolded t p'(1)]
  note cf = prescaler_fields [of "rc_CFGR r" i j k, unfolded t]
  let ?c = "configure_clocks source m n p q i j k r"
  have c: "rc_PLLCFGR ?c = m OR push_bit 6 n OR push_bit 16 p' OR source OR push_bit 24 q"
    "rc_CFGR ?c = ((((rc_CFGR r AND NOT 0xF0) OR push_bit 4 i) AND NOT 0x1C00 OR push_bit 10 j) AND NOT 0xE000) OR push_bit 3 (push_bit 10 k)"
    by (simp_all add: configure_clocks_def RCC_PCLK2Config_def RCC_PCLK1Config_def RCC_HCLKConfig_def RCC_PLLConfig_def p'_def)
  have "drop_bit 22 source = 0 \<longleftrightarrow> source = 0" using src by auto
  then have "sysclk_of ?c = Inr (pll_base source div m * n div p)"
    using assms(1,3) p'(3) unfolding sysclk_of_def Let_def field_masks c pf cf p'(2)
    by (simp add: udiv_def pll_base_def)
  then show ?thesis
    unfolding RCC_GetClocksFreq_def field_masks c(2) cf by (simp add: clock_tree_def Let_def)
qed

end
