(* ===== verification/Stm_Dac.thy ===== *)
theory Stm_Dac
  imports Prelude
begin

section \<open>The digital to analogue converter\<close>

text \<open>
  \<open>lib/md407/src/stm32f4xx_dac.c\<close> and the rest of \<open>stm32f4xx_syscfg.c\<close>. The data registers lie one behind the other
  from \<open>DHR12R1\<close> on and are written through computed addresses; \<open>da_DHR\<close> is the list of these nine words, an
  alignment outside it is a fault. A one written to \<open>SR\<close> clears the flag.
\<close>

record DAC_TypeDef =
  da_CR :: u32
  da_SWTRIGR :: u32
  da_DHR :: "u32 list"
  da_DOR :: "u32 list"
  da_SR :: u32

record DAC_InitTypeDef =
  DAC_Trigger :: u32
  DAC_WaveGeneration :: u32
  DAC_LFSRUnmask_TriangleAmplitude :: u32
  DAC_OutputBuffer :: u32

definition DAC_Init :: "u32 \<Rightarrow> DAC_InitTypeDef \<Rightarrow> DAC_TypeDef \<Rightarrow> DAC_TypeDef" where
  "DAC_Init ch ini d =
     (let tmpreg1 = da_CR d AND NOT (push_bit (unat ch) 0x00000FFE);
          tmpreg2 = DAC_Trigger ini OR DAC_WaveGeneration ini OR DAC_LFSRUnmask_TriangleAmplitude ini OR DAC_OutputBuffer ini
      in d\<lparr>da_CR := tmpreg1 OR push_bit (unat ch) tmpreg2\<rparr>)"

definition DAC_StructInit :: DAC_InitTypeDef where
  "DAC_StructInit = \<lparr>DAC_Trigger = 0, DAC_WaveGeneration = 0, DAC_LFSRUnmask_TriangleAmplitude = 0, DAC_OutputBuffer = 0\<rparr>"

definition DAC_Cmd :: "u32 \<Rightarrow> bool \<Rightarrow> DAC_TypeDef \<Rightarrow> DAC_TypeDef" where
  "DAC_Cmd ch b d = d\<lparr>da_CR := put_bits b (push_bit (unat ch) 1) (da_CR d)\<rparr>"
definition DAC_SoftwareTriggerCmd :: "u32 \<Rightarrow> bool \<Rightarrow> DAC_TypeDef \<Rightarrow> DAC_TypeDef" where
  "DAC_SoftwareTriggerCmd ch b d = d\<lparr>da_SWTRIGR := put_bits b (push_bit (unat (drop_bit 4 ch)) 1) (da_SWTRIGR d)\<rparr>"
definition DAC_DualSoftwareTriggerCmd :: "bool \<Rightarrow> DAC_TypeDef \<Rightarrow> DAC_TypeDef" where
  "DAC_DualSoftwareTriggerCmd b d = d\<lparr>da_SWTRIGR := (if b then da_SWTRIGR d OR 3 else da_SWTRIGR d AND 0xFFFFFFFC)\<rparr>"
definition DAC_WaveGenerationCmd :: "u32 \<Rightarrow> u32 \<Rightarrow> bool \<Rightarrow> DAC_TypeDef \<Rightarrow> DAC_TypeDef" where
  "DAC_WaveGenerationCmd ch wave b d = d\<lparr>da_CR := put_bits b (push_bit (unat ch) wave) (da_CR d)\<rparr>"

text \<open>The store to \<open>DAC_BASE + off\<close>, for the word registers from \<open>0x08\<close> to \<open>0x28\<close>.\<close>

definition dac_store :: "nat \<Rightarrow> u32 \<Rightarrow> DAC_TypeDef \<Rightarrow> DAC_TypeDef res" where
  "dac_store off v d =
     (if off mod 4 \<noteq> 0 \<or> off < 0x08 then Inl BadPointer
      else bnd (aset (da_DHR d) (off div 4 - 2) v) (\<lambda>rs. Inr (d\<lparr>da_DHR := rs\<rparr>)))"

definition DAC_SetChannel1Data :: "u32 \<Rightarrow> u16 \<Rightarrow> DAC_TypeDef \<Rightarrow> DAC_TypeDef res" where
  "DAC_SetChannel1Data align v d = dac_store (unat (0x08 + align)) (ucast v) d"
definition DAC_SetChannel2Data :: "u32 \<Rightarrow> u16 \<Rightarrow> DAC_TypeDef \<Rightarrow> DAC_TypeDef res" where
  "DAC_SetChannel2Data align v d = dac_store (unat (0x14 + align)) (ucast v) d"
definition DAC_SetDualChannelData :: "u32 \<Rightarrow> u16 \<Rightarrow> u16 \<Rightarrow> DAC_TypeDef \<Rightarrow> DAC_TypeDef res" where
  "DAC_SetDualChannelData align v2 v1 d =
     dac_store (unat (0x20 + align)) (push_bit (if align = 0x08 then 8 else 16) (ucast v2) OR ucast v1) d"

definition DAC_GetDataOutputValue :: "u32 \<Rightarrow> DAC_TypeDef \<Rightarrow> u16 res" where
  "DAC_GetDataOutputValue ch d =
     (let off = unat (drop_bit 2 ch)
      in if off mod 4 \<noteq> 0 then Inl BadPointer else bnd (aget (da_DOR d) (off div 4)) (\<lambda>w. Inr (ucast w)))"

definition DAC_DMACmd :: "u32 \<Rightarrow> bool \<Rightarrow> DAC_TypeDef \<Rightarrow> DAC_TypeDef" where
  "DAC_DMACmd ch b d = d\<lparr>da_CR := put_bits b (push_bit (unat ch) 0x00001000) (da_CR d)\<rparr>"
definition DAC_ITConfig :: "u32 \<Rightarrow> u32 \<Rightarrow> bool \<Rightarrow> DAC_TypeDef \<Rightarrow> DAC_TypeDef" where
  "DAC_ITConfig ch it b d = d\<lparr>da_CR := put_bits b (push_bit (unat ch) it) (da_CR d)\<rparr>"
definition DAC_GetFlagStatus :: "u32 \<Rightarrow> u32 \<Rightarrow> DAC_TypeDef \<Rightarrow> bool" where
  "DAC_GetFlagStatus ch flag d = (da_SR d AND push_bit (unat ch) flag \<noteq> 0)"
definition DAC_ClearFlag :: "u32 \<Rightarrow> u32 \<Rightarrow> DAC_TypeDef \<Rightarrow> DAC_TypeDef" where
  "DAC_ClearFlag ch flag d = d\<lparr>da_SR := da_SR d AND NOT (push_bit (unat ch) flag)\<rparr>"
definition DAC_GetITStatus :: "u32 \<Rightarrow> u32 \<Rightarrow> DAC_TypeDef \<Rightarrow> bool" where
  "DAC_GetITStatus ch it d =
     (da_SR d AND push_bit (unat ch) it \<noteq> 0 \<and> da_CR d AND push_bit (unat ch) it \<noteq> 0)"
definition DAC_ClearITPendingBit :: "u32 \<Rightarrow> u32 \<Rightarrow> DAC_TypeDef \<Rightarrow> DAC_TypeDef" where
  "DAC_ClearITPendingBit ch it d = d\<lparr>da_SR := da_SR d AND NOT (push_bit (unat ch) it)\<rparr>"

text \<open>The alignments of the header keep both channels inside the registers.\<close>

lemma DAC_store_aligned:
  assumes "length (da_DHR d) = 9" and "align = 0x00 \<or> align = 0x04 \<or> align = 0x08"
  shows "\<exists>d'. DAC_SetChannel1Data align v d = Inr d'" "\<exists>d'. DAC_SetChannel2Data align v d = Inr d'"
    "\<exists>d'. DAC_SetDualChannelData align v2 v d = Inr d'"
  using assms
  by (auto simp: DAC_SetChannel1Data_def DAC_SetChannel2Data_def DAC_SetDualChannelData_def dac_store_def aset_def bnd_def)

subsection \<open>System configuration\<close>

record SYSCFG_TypeDef =
  sy_MEMRMP :: u32
  sy_PMC :: u32
  sy_EXTICR :: "u32 list"
  sy_CMPCR :: u32

definition SYSCFG_MemoryRemapConfig :: "u8 \<Rightarrow> SYSCFG_TypeDef \<Rightarrow> SYSCFG_TypeDef" where
  "SYSCFG_MemoryRemapConfig v s = s\<lparr>sy_MEMRMP := ucast v\<rparr>"
definition SYSCFG_MemorySwappingBank :: "bool \<Rightarrow> SYSCFG_TypeDef \<Rightarrow> SYSCFG_TypeDef" where
  "SYSCFG_MemorySwappingBank b s = s\<lparr>sy_MEMRMP := put_bits b (push_bit 8 1) (sy_MEMRMP s)\<rparr>"
definition SYSCFG_ETH_MediaInterfaceConfig :: "u32 \<Rightarrow> SYSCFG_TypeDef \<Rightarrow> SYSCFG_TypeDef" where
  "SYSCFG_ETH_MediaInterfaceConfig m s = s\<lparr>sy_PMC := put_bits (bit m 0) (push_bit 23 1) (sy_PMC s)\<rparr>"
definition SYSCFG_CompensationCellCmd :: "bool \<Rightarrow> SYSCFG_TypeDef \<Rightarrow> SYSCFG_TypeDef" where
  "SYSCFG_CompensationCellCmd b s = s\<lparr>sy_CMPCR := put_bits b 1 (sy_CMPCR s)\<rparr>"
definition SYSCFG_GetCompensationCellStatus :: "SYSCFG_TypeDef \<Rightarrow> bool" where
  "SYSCFG_GetCompensationCellStatus s = (sy_CMPCR s AND 0x00000100 \<noteq> 0)"

end
