(* ===== verification/Stm_Core.thy ===== *)
theory Stm_Core
  imports Stm_Board
begin

section \<open>The processor core\<close>

text \<open>
  The rest of the functions of \<open>core_cm4.h\<close> on the interrupt controller, the system control block and the system
  timer. Writes to the set and clear registers act on one set of bits; a pending or active interrupt is the
  hardware's, so \<open>co_ISPR\<close> and \<open>co_IABR\<close> are what is read. A write to \<open>AIRCR\<close> keeps the priority group when the key
  is right.
\<close>

record core =
  co_nvic :: nvic
  co_ISPR :: "u32 list"
  co_IABR :: "u32 list"
  co_AIRCR :: u32
  co_CCR :: u32
  co_FPCCR :: u32
  co_CONTROL :: u32
  co_LOAD :: u32
  co_VAL :: u32
  co_CTRL :: u32

subsection \<open>Priorities\<close>

definition NVIC_SetPriorityGrouping :: "u32 \<Rightarrow> core \<Rightarrow> core" where
  "NVIC_SetPriorityGrouping g c =
     (let tmp = g AND 0x07;
          v = (co_AIRCR c AND NOT (0xFFFF0000 OR 0x700)) OR push_bit 16 0x5FA OR push_bit 8 tmp
      in c\<lparr>co_AIRCR := v\<rparr>)"

definition NVIC_GetPriorityGrouping :: "core \<Rightarrow> u32" where
  "NVIC_GetPriorityGrouping c = drop_bit 8 (co_AIRCR c AND 0x700)"

definition NVIC_GetPriority :: "int \<Rightarrow> core \<Rightarrow> u32 res" where
  "NVIC_GetPriority n c =
     bnd (if n < 0 then aget (nv_SHP (co_nvic c)) (nat (n mod 16) - 4) else aget (nv_IP (co_nvic c)) (nat n))
       (\<lambda>p. Inr (drop_bit 4 (ucast p)))"

definition preempt_bits :: "u32 \<Rightarrow> nat" where
  "preempt_bits g = (let t = unat (g AND 0x07) in if 4 < 7 - t then 4 else 7 - t)"
definition sub_bits :: "u32 \<Rightarrow> nat" where
  "sub_bits g = (let t = unat (g AND 0x07) in if t + 4 < 7 then 0 else t + 4 - 7)"

definition NVIC_EncodePriority :: "u32 \<Rightarrow> u32 \<Rightarrow> u32 \<Rightarrow> u32" where
  "NVIC_EncodePriority g preempt sub =
     push_bit (sub_bits g) (preempt AND (push_bit (preempt_bits g) 1 - 1)) OR (sub AND (push_bit (sub_bits g) 1 - 1))"

definition NVIC_DecodePriority :: "u32 \<Rightarrow> u32 \<Rightarrow> u32 \<times> u32" where
  "NVIC_DecodePriority prio g =
     (drop_bit (sub_bits g) prio AND (push_bit (preempt_bits g) 1 - 1), prio AND (push_bit (sub_bits g) 1 - 1))"

subsection \<open>Interrupts\<close>

definition NVIC_DisableIRQ :: "nat \<Rightarrow> core \<Rightarrow> core res" where
  "NVIC_DisableIRQ n c =
     bnd (aget (nv_ISER (co_nvic c)) (n div 32)) (\<lambda>r.
     bnd (aset (nv_ISER (co_nvic c)) (n div 32) (r AND NOT (push_bit (n mod 32) 1))) (\<lambda>rs.
     Inr (c\<lparr>co_nvic := (co_nvic c)\<lparr>nv_ISER := rs\<rparr>\<rparr>)))"

definition NVIC_GetPendingIRQ :: "nat \<Rightarrow> core \<Rightarrow> u32 res" where
  "NVIC_GetPendingIRQ n c =
     bnd (aget (co_ISPR c) (n div 32)) (\<lambda>r. Inr (if r AND push_bit (n mod 32) 1 \<noteq> 0 then 1 else 0))"
definition NVIC_SetPendingIRQ :: "nat \<Rightarrow> core \<Rightarrow> core res" where
  "NVIC_SetPendingIRQ n c =
     bnd (aget (co_ISPR c) (n div 32)) (\<lambda>r.
     bnd (aset (co_ISPR c) (n div 32) (r OR push_bit (n mod 32) 1)) (\<lambda>rs. Inr (c\<lparr>co_ISPR := rs\<rparr>)))"
definition NVIC_ClearPendingIRQ :: "nat \<Rightarrow> core \<Rightarrow> core res" where
  "NVIC_ClearPendingIRQ n c =
     bnd (aget (co_ISPR c) (n div 32)) (\<lambda>r.
     bnd (aset (co_ISPR c) (n div 32) (r AND NOT (push_bit (n mod 32) 1))) (\<lambda>rs. Inr (c\<lparr>co_ISPR := rs\<rparr>)))"
definition NVIC_GetActive :: "nat \<Rightarrow> core \<Rightarrow> u32 res" where
  "NVIC_GetActive n c =
     bnd (aget (co_IABR c) (n div 32)) (\<lambda>r. Inr (if r AND push_bit (n mod 32) 1 \<noteq> 0 then 1 else 0))"

definition SysTick_Config :: "u32 \<Rightarrow> core \<Rightarrow> (u32 \<times> core) res" where
  "SysTick_Config ticks c =
     (if 0xFFFFFF < ticks - 1 then Inr (1, c)
      else let c1 = c\<lparr>co_LOAD := ticks - 1\<rparr>
           in bnd (NVIC_SetPriority (- 1) (push_bit 4 1 - 1) (co_nvic c1)) (\<lambda>nv.
              Inr (0, c1\<lparr>co_nvic := nv, co_VAL := 0, co_CTRL := 4 OR 2 OR 1\<rparr>)))"

subsection \<open>Round trips\<close>

lemma mask_push: "push_bit n (1 :: u32) - 1 = mask n"
  by (simp add: mask_eq_exp_minus_1 push_bit_eq_mult)

lemma decode_encode_priority:
  "NVIC_DecodePriority (NVIC_EncodePriority g p s) g = (take_bit (preempt_bits g) p, take_bit (sub_bits g) s)"
proof -
  have "preempt_bits g \<le> 4" "sub_bits g \<le> 4"
  proof -
    have "unat (g AND 0x07) \<le> 7" using word_and_le1 [of g 7] by (simp add: word_le_nat_alt)
    then show "preempt_bits g \<le> 4" "sub_bits g \<le> 4" by (auto simp: preempt_bits_def sub_bits_def Let_def)
  qed
  then show ?thesis
    unfolding NVIC_DecodePriority_def NVIC_EncodePriority_def mask_push prod.inject
    by (intro conjI bit_word_eqI) (auto simp: bit_simps)
qed

text \<open>What \<open>NVIC_SetPriority\<close> stores is read back, cut to four bits.\<close>

lemma priority_read_back:
  assumes "0 \<le> n" and "NVIC_SetPriority n prio (co_nvic c) = Inr nv"
  shows "NVIC_GetPriority n (c\<lparr>co_nvic := nv\<rparr>) = Inr (take_bit 4 prio)"
proof -
  have l: "nat n < length (nv_IP (co_nvic c))" and nv: "nv = (co_nvic c)\<lparr>nv_IP := (nv_IP (co_nvic c))[nat n := ucast (push_bit 4 prio AND 0xFF)]\<rparr>"
    using assms by (auto simp: NVIC_SetPriority_def aset_def bnd_def Let_def split: if_splits)
  have "drop_bit 4 (ucast (ucast (push_bit 4 prio AND 0xFF) :: u8)) = (take_bit 4 prio :: u32)"
  proof -
    have m: "(0xFF :: u32) = mask 8" by (simp add: mask_eq_exp_minus_1)
    show ?thesis unfolding m by (rule bit_word_eqI) (auto simp: bit_simps)
  qed
  then show ?thesis using assms(1) l by (simp add: NVIC_GetPriority_def nv aget_def bnd_def)
qed

subsection \<open>Reset\<close>

text \<open>The registers in which the processor waits, forever, for the reset.\<close>

definition NVIC_SystemReset :: "core \<Rightarrow> core" where
  "NVIC_SystemReset c = c\<lparr>co_AIRCR := push_bit 16 0x5FA OR (co_AIRCR c AND 0x700) OR 0x04\<rparr>"

lemma reset_keeps_grouping:
  "NVIC_GetPriorityGrouping (NVIC_SystemReset c) = NVIC_GetPriorityGrouping c" "bit (co_AIRCR (NVIC_SystemReset c)) 2"
proof -
  have "drop_bit 8 ((push_bit 16 0x5FA OR (a AND 0x700) OR 0x04) AND 0x700) = (drop_bit 8 (a AND 0x700) :: u32)" for a
    by (simp add: bit.conj_disj_distrib2 and.assoc)
  then show "NVIC_GetPriorityGrouping (NVIC_SystemReset c) = NVIC_GetPriorityGrouping c"
    by (simp add: NVIC_GetPriorityGrouping_def NVIC_SystemReset_def)
  show "bit (co_AIRCR (NVIC_SystemReset c)) 2" by (simp add: NVIC_SystemReset_def bit_simps reg_bits)
qed

subsection \<open>The trace port\<close>

text \<open>
  \<open>it_sent\<close> is what has been written to port 0, \<open>it_rx\<close> the variable \<open>ITM_RxBuffer\<close> the debugger fills. What reads of the port
  give while a character waits is the sequence \<open>port\<close>; the wait is bounded by the first argument, and \<open>None\<close> is a wait that has not ended.
\<close>

record itm =
  it_TCR :: u32
  it_TER :: u32
  it_sent :: "u8 list"
  it_rx :: i32

definition ITM_RXBUFFER_EMPTY :: i32 where "ITM_RXBUFFER_EMPTY = 0x5AA55AA5"

fun itm_wait :: "nat \<Rightarrow> (nat \<Rightarrow> u32) \<Rightarrow> nat \<Rightarrow> nat option" where
  "itm_wait 0 port n = None"
| "itm_wait (Suc k) port n = (if port n = 0 then itm_wait k port (n + 1) else Some n)"

definition ITM_SendChar :: "nat \<Rightarrow> (nat \<Rightarrow> u32) \<Rightarrow> u32 \<Rightarrow> itm \<Rightarrow> (u32 \<times> itm) option" where
  "ITM_SendChar k port ch it =
     (if it_TCR it AND 1 \<noteq> 0 \<and> it_TER it AND 1 \<noteq> 0
      then map_option (\<lambda>_. (ch, it\<lparr>it_sent := it_sent it @ [ucast ch]\<rparr>)) (itm_wait k port 0)
      else Some (ch, it))"

definition ITM_ReceiveChar :: "itm \<Rightarrow> i32 \<times> itm" where
  "ITM_ReceiveChar it =
     (if it_rx it \<noteq> ITM_RXBUFFER_EMPTY then (it_rx it, it\<lparr>it_rx := ITM_RXBUFFER_EMPTY\<rparr>) else (- 1, it))"

definition ITM_CheckChar :: "itm \<Rightarrow> i32" where
  "ITM_CheckChar it = (if it_rx it = ITM_RXBUFFER_EMPTY then 0 else 1)"

lemma itm_wait_ends: "(\<exists>m. itm_wait k port n = Some m) \<longleftrightarrow> (\<exists>i<k. port (n + i) \<noteq> 0)"
proof (induction k arbitrary: n)
  case (Suc k)
  have "(\<exists>i<Suc k. port (n + i) \<noteq> 0) \<longleftrightarrow> port n \<noteq> 0 \<or> (\<exists>i<k. port (Suc n + i) \<noteq> 0)"
    by (simp only: Ex_less_Suc2) simp
  then show ?case using Suc.IH [of "Suc n"] by simp
qed simp

lemma ITM_SendChar_ends:
  "(\<exists>r. ITM_SendChar k port ch it = Some r) \<longleftrightarrow> it_TCR it AND 1 = 0 \<or> it_TER it AND 1 = 0 \<or> (\<exists>i<k. port i \<noteq> 0)"
  using itm_wait_ends [of k port 0] by (auto simp: ITM_SendChar_def)

text \<open>A character is announced, received once, and gone.\<close>

lemma ITM_receives_once:
  assumes "c \<noteq> ITM_RXBUFFER_EMPTY" and "ITM_ReceiveChar (it\<lparr>it_rx := c\<rparr>) = (d, it')"
  shows "ITM_CheckChar (it\<lparr>it_rx := c\<rparr>) = 1" "d = c" "ITM_CheckChar it' = 0" "ITM_ReceiveChar it' = (- 1, it')"
  using assms by (auto simp: ITM_ReceiveChar_def ITM_CheckChar_def)

end
