(* ===== verification/Stm_Startup.thy ===== *)
theory Stm_Startup
  imports Stm_Rcc Stm_Dac Stm_Core Stm_Can Stm_Usart Stm_Tim
begin

section \<open>The board and its start-up\<close>

text \<open>
  \<open>lib/md407/src/startup.c\<close>, and the operations of the peripheral library that go through the clock controller. The
  peripherals are one state, in which two rules of the reference manual hold: a peripheral whose reset line is set
  has its reset values, and a store to a peripheral without a clock is lost. Port \<open>GPIOA\<close> is number 0, port \<open>GPIOB\<close>
  number 1. The file is built with \<open>__USE_dbgARM_MONITOR\<close> and \<open>__USE_UNALIGN_TRP\<close>; clearing the bss segment is the
  initial state of the programs' models.
\<close>

record board =
  bd_rcc :: RCC_TypeDef
  bd_gpio :: "GPIO_TypeDef list"
  bd_can1 :: CAN_TypeDef
  bd_can2 :: CAN_TypeDef
  bd_usart :: "USART_TypeDef list"
  bd_dac :: DAC_TypeDef
  bd_syscfg :: SYSCFG_TypeDef
  bd_tim :: "TIM_TypeDef list"
  bd_exti :: EXTI_TypeDef
  bd_core :: core

subsection \<open>Resets\<close>

definition gpio_reset :: "nat \<Rightarrow> GPIO_TypeDef \<Rightarrow> GPIO_TypeDef" where
  "gpio_reset i g =
     g\<lparr>MODER := (if i = 0 then 0xA8000000 else if i = 1 then 0x00000280 else 0), OTYPER := 0,
       OSPEEDR := (if i = 0 then 0x0C000000 else if i = 1 then 0x000000C0 else 0),
       PUPDR := (if i = 0 then 0x64000000 else if i = 1 then 0x00000100 else 0),
       ODR := 0, LCKR := 0, AFR := [0, 0]\<rparr>"

definition can_reset :: "CAN_TypeDef \<Rightarrow> CAN_TypeDef" where
  "can_reset c =
     c\<lparr>can_MCR := 0x00010002, can_MSR := 0x00000C02, can_TSR := 0x1C000000, can_RF0R := 0, can_RF1R := 0, can_IER := 0,
       can_ESR := 0, can_BTR := 0x01230000, can_FMR := 0x2A1C0E01, can_FM1R := 0, can_FS1R := 0, can_FFA1R := 0, can_FA1R := 0\<rparr>"

definition usart_reset :: USART_TypeDef where
  "usart_reset = \<lparr>us_SR = 0x00C0, us_TDR = 0, us_RDR = 0, us_BRR = 0, us_CR1 = 0, us_CR2 = 0, us_CR3 = 0, us_GTPR = 0\<rparr>"

definition dac_reset :: DAC_TypeDef where
  "dac_reset = \<lparr>da_CR = 0, da_SWTRIGR = 0, da_DHR = replicate 9 0, da_DOR = replicate 2 0, da_SR = 0\<rparr>"

definition syscfg_reset :: "SYSCFG_TypeDef \<Rightarrow> SYSCFG_TypeDef" where
  "syscfg_reset s = s\<lparr>sy_PMC := 0, sy_EXTICR := replicate 4 0, sy_CMPCR := 0\<rparr>"

text \<open>The reset line of \<open>USART1\<close> to \<open>UART8\<close>.\<close>

definition usart_line :: "RCC_TypeDef \<Rightarrow> nat \<Rightarrow> bool" where
  "usart_line r i \<longleftrightarrow>
     i = 0 \<and> bit (rc_APB2RSTR r) 4 \<or> i = 1 \<and> bit (rc_APB1RSTR r) 17 \<or> i = 2 \<and> bit (rc_APB1RSTR r) 18 \<or>
     i = 3 \<and> bit (rc_APB1RSTR r) 19 \<or> i = 4 \<and> bit (rc_APB1RSTR r) 20 \<or> i = 5 \<and> bit (rc_APB2RSTR r) 5 \<or>
     i = 6 \<and> bit (rc_APB1RSTR r) 30 \<or> i = 7 \<and> bit (rc_APB1RSTR r) 31"

text \<open>The reset line of the timer of this number.\<close>

definition tim_line :: "RCC_TypeDef \<Rightarrow> nat \<Rightarrow> bool" where
  "tim_line r n \<longleftrightarrow>
     n = 1 \<and> bit (rc_APB2RSTR r) 0 \<or> 2 \<le> n \<and> n \<le> 7 \<and> bit (rc_APB1RSTR r) (n - 2) \<or> n = 8 \<and> bit (rc_APB2RSTR r) 1 \<or>
     9 \<le> n \<and> n \<le> 11 \<and> bit (rc_APB2RSTR r) (n + 7) \<or> 12 \<le> n \<and> n \<le> 14 \<and> bit (rc_APB1RSTR r) (n - 6)"

definition settle :: "board \<Rightarrow> board" where
  "settle b =
     (let r = bd_rcc b
      in b\<lparr>bd_gpio := map (\<lambda>i. if bit (rc_AHB1RSTR r) i then gpio_reset i (bd_gpio b ! i) else bd_gpio b ! i) [0..<length (bd_gpio b)],
           bd_can1 := (if bit (rc_APB1RSTR r) 25 then can_reset (bd_can1 b) else bd_can1 b),
           bd_can2 := (if bit (rc_APB1RSTR r) 26 then can_reset (bd_can2 b) else bd_can2 b),
           bd_usart := map (\<lambda>i. if usart_line r i then usart_reset else bd_usart b ! i) [0..<length (bd_usart b)],
           bd_tim := map (\<lambda>i. if tim_line r (i + 1) then tim_reset (i + 1) else bd_tim b ! i) [0..<length (bd_tim b)],
           bd_dac := (if bit (rc_APB1RSTR r) 29 then dac_reset else bd_dac b),
           bd_syscfg := (if bit (rc_APB2RSTR r) 14 then syscfg_reset (bd_syscfg b) else bd_syscfg b)\<rparr>)"

definition with_rcc :: "(RCC_TypeDef \<Rightarrow> RCC_TypeDef) \<Rightarrow> board \<Rightarrow> board" where
  "with_rcc f b = settle (b\<lparr>bd_rcc := f (bd_rcc b)\<rparr>)"

definition pulse :: "(bool \<Rightarrow> RCC_TypeDef \<Rightarrow> RCC_TypeDef) \<Rightarrow> board \<Rightarrow> board" where
  "pulse f b = with_rcc (f False) (with_rcc (f True) b)"

definition GPIO_DeInit :: "nat \<Rightarrow> board \<Rightarrow> board" where
  "GPIO_DeInit i b = (if i < 11 then pulse (RCC_AHB1PeriphResetCmd (push_bit i 1)) b else b)"

definition CAN_DeInit :: "nat \<Rightarrow> board \<Rightarrow> board" where
  "CAN_DeInit n b = pulse (RCC_APB1PeriphResetCmd (if n = 1 then 0x02000000 else 0x04000000)) b"

text \<open>By the number in the port's name.\<close>

definition USART_DeInit :: "nat \<Rightarrow> board \<Rightarrow> board" where
  "USART_DeInit n b =
     (if n = 1 then pulse (RCC_APB2PeriphResetCmd 0x00000010) b
      else if n = 2 then pulse (RCC_APB1PeriphResetCmd 0x00020000) b
      else if n = 3 then pulse (RCC_APB1PeriphResetCmd 0x00040000) b
      else if n = 4 then pulse (RCC_APB1PeriphResetCmd 0x00080000) b
      else if n = 5 then pulse (RCC_APB1PeriphResetCmd 0x00100000) b
      else if n = 6 then pulse (RCC_APB2PeriphResetCmd 0x00000020) b
      else if n = 7 then pulse (RCC_APB1PeriphResetCmd 0x40000000) b
      else if n = 8 then pulse (RCC_APB1PeriphResetCmd 0x80000000) b
      else b)"

definition TIM_DeInit :: "nat \<Rightarrow> board \<Rightarrow> board" where
  "TIM_DeInit n b =
     (if n = 1 then pulse (RCC_APB2PeriphResetCmd 0x00000001) b
      else if n = 2 then pulse (RCC_APB1PeriphResetCmd 0x00000001) b
      else if n = 3 then pulse (RCC_APB1PeriphResetCmd 0x00000002) b
      else if n = 4 then pulse (RCC_APB1PeriphResetCmd 0x00000004) b
      else if n = 5 then pulse (RCC_APB1PeriphResetCmd 0x00000008) b
      else if n = 6 then pulse (RCC_APB1PeriphResetCmd 0x00000010) b
      else if n = 7 then pulse (RCC_APB1PeriphResetCmd 0x00000020) b
      else if n = 8 then pulse (RCC_APB2PeriphResetCmd 0x00000002) b
      else if n = 9 then pulse (RCC_APB2PeriphResetCmd 0x00010000) b
      else if n = 10 then pulse (RCC_APB2PeriphResetCmd 0x00020000) b
      else if n = 11 then pulse (RCC_APB2PeriphResetCmd 0x00040000) b
      else if n = 12 then pulse (RCC_APB1PeriphResetCmd 0x00000040) b
      else if n = 13 then pulse (RCC_APB1PeriphResetCmd 0x00000080) b
      else if n = 14 then pulse (RCC_APB1PeriphResetCmd 0x00000100) b
      else b)"

definition DAC_DeInit :: "board \<Rightarrow> board" where
  "DAC_DeInit b = pulse (RCC_APB1PeriphResetCmd 0x20000000) b"
definition SYSCFG_DeInit :: "board \<Rightarrow> board" where
  "SYSCFG_DeInit b = pulse (RCC_APB2PeriphResetCmd 0x00004000) b"

subsection \<open>Stores that need a clock\<close>

definition on_gpio :: "nat \<Rightarrow> (GPIO_TypeDef \<Rightarrow> GPIO_TypeDef res) \<Rightarrow> board \<Rightarrow> board res" where
  "on_gpio i f b =
     (if bit (rc_AHB1ENR (bd_rcc b)) i
      then bnd (aget (bd_gpio b) i) (\<lambda>g. bnd (f g) (\<lambda>g'. bnd (aset (bd_gpio b) i g') (\<lambda>gs. Inr (b\<lparr>bd_gpio := gs\<rparr>))))
      else Inr b)"

definition on_can1 :: "(CAN_TypeDef \<Rightarrow> CAN_TypeDef res) \<Rightarrow> board \<Rightarrow> board res" where
  "on_can1 f b =
     (if bit (rc_APB1ENR (bd_rcc b)) 25 then bnd (f (bd_can1 b)) (\<lambda>c. Inr (b\<lparr>bd_can1 := c\<rparr>)) else Inr b)"

definition on_dac :: "(DAC_TypeDef \<Rightarrow> DAC_TypeDef res) \<Rightarrow> board \<Rightarrow> board res" where
  "on_dac f b =
     (if bit (rc_APB1ENR (bd_rcc b)) 29 then bnd (f (bd_dac b)) (\<lambda>d. Inr (b\<lparr>bd_dac := d\<rparr>)) else Inr b)"

definition on_syscfg :: "(SYSCFG_TypeDef \<Rightarrow> SYSCFG_TypeDef res) \<Rightarrow> board \<Rightarrow> board res" where
  "on_syscfg f b =
     (if bit (rc_APB2ENR (bd_rcc b)) 14 then bnd (f (bd_syscfg b)) (\<lambda>s. Inr (b\<lparr>bd_syscfg := s\<rparr>)) else Inr b)"

subsection \<open>The initialisation\<close>

definition pin_cfg :: "u32 \<Rightarrow> GPIOMode_TypeDef \<Rightarrow> u32 \<Rightarrow> u32 \<Rightarrow> u32 \<Rightarrow> GPIO_InitTypeDef" where
  "pin_cfg pin mode otype pupd speed =
     GPIO_StructInit\<lparr>GPIO_Pin := pin, GPIO_Mode := mode, GPIO_OType := otype, GPIO_PuPd := pupd, GPIO_Speed := speed\<rparr>"

definition startup_usart_init :: "board \<Rightarrow> board" where "startup_usart_init b = b"

definition can_filter :: CAN_FilterInitTypeDef where
  "can_filter =
     \<lparr>CAN_FilterIdHigh = 0, CAN_FilterIdLow = 0, CAN_FilterMaskIdHigh = 0, CAN_FilterMaskIdLow = 0,
      CAN_FilterFIFOAssignment = 0, CAN_FilterNumber = 0, CAN_FilterMode = 0, CAN_FilterScale = 1, CAN_FilterActivation = True\<rparr>"

definition startup_can_init :: "board \<Rightarrow> board res" where
  "startup_can_init b =
     (let b1 = CAN_DeInit 2 (CAN_DeInit 1 (GPIO_DeInit 1 b));
          b2 = with_rcc (RCC_APB1PeriphClockCmd 0x02000000 True) b1;
          b3 = with_rcc (RCC_APB1PeriphClockCmd 0x04000000 True) b2;
          b4 = with_rcc (RCC_AHB1PeriphClockCmd 0x00000002 True) b3
      in bnd (on_gpio 1 (GPIO_PinAFConfig 9 9) b4) (\<lambda>b5.
         bnd (on_gpio 1 (GPIO_PinAFConfig 8 9) b5) (\<lambda>b6.
         bnd (on_gpio 1 (\<lambda>g. Inr (GPIO_Init (pin_cfg 0x0200 GPIO_Mode_AF 0 0 2) g)) b6) (\<lambda>b7.
         bnd (on_gpio 1 (\<lambda>g. Inr (GPIO_Init (pin_cfg 0x0100 GPIO_Mode_AF 0 1 2) g)) b7) (\<lambda>b8.
         bnd (on_gpio 1 (GPIO_PinAFConfig 6 9) b8) (\<lambda>b9.
         bnd (on_gpio 1 (GPIO_PinAFConfig 5 9) b9) (\<lambda>b10.
         bnd (on_gpio 1 (\<lambda>g. Inr (GPIO_Init (pin_cfg 0x0040 GPIO_Mode_AF 0 0 2) g)) b10) (\<lambda>b11.
         bnd (on_gpio 1 (\<lambda>g. Inr (GPIO_Init (pin_cfg 0x0020 GPIO_Mode_AF 0 1 2) g)) b11) (\<lambda>b12.
         on_can1 (CAN_FilterInit can_filter) b12)))))))))"

definition startup_dac_init :: "board \<Rightarrow> board res" where
  "startup_dac_init b =
     (let b1 = with_rcc (RCC_APB1PeriphClockCmd 0x20000000 True) b
      in bnd (on_gpio 0 (\<lambda>g. Inr (GPIO_Init (GPIO_StructInit\<lparr>GPIO_Pin := 0x0020, GPIO_Mode := GPIO_Mode_AN, GPIO_PuPd := 0\<rparr>) g)) b1) (\<lambda>b2.
         let b3 = DAC_DeInit b2;
             ini = DAC_StructInit\<lparr>DAC_Trigger := 0, DAC_WaveGeneration := 0, DAC_OutputBuffer := 0\<rparr>
         in bnd (on_dac (\<lambda>d. Inr (DAC_Init 0x10 ini d)) b3) (\<lambda>b4.
            bnd (on_dac (\<lambda>d. Inr (DAC_Cmd 0x10 True d)) b4) (\<lambda>b5.
            on_dac (DAC_SetChannel2Data 0x08 0) b5))))"

definition startup_sio_init :: "board \<Rightarrow> board res" where
  "startup_sio_init b =
     (let b1 = with_rcc (RCC_APB2PeriphClockCmd 0x00004000 True) b
      in bnd (on_syscfg (\<lambda>s. bnd (SYSCFG_EXTILineConfig 1 7 (sy_EXTICR s)) (\<lambda>rs. Inr (s\<lparr>sy_EXTICR := rs\<rparr>))) b1) (\<lambda>b2.
         let ini = EXTI_StructInit\<lparr>EXTI_Line := 0x80, EXTI_Mode := EXTI_Mode_Interrupt, EXTI_Trigger := EXTI_Trigger_Falling,
                                   EXTI_LineCmd := True\<rparr>;
             b3 = b2\<lparr>bd_exti := EXTI_Init ini (EXTI_DeInit (bd_exti b2))\<rparr>
         in bnd (on_gpio 1 (\<lambda>g. Inr (GPIO_Init (pin_cfg 0x0002 GPIO_Mode_OUT 1 0 1) g)) b3) (\<lambda>b4.
            bnd (on_gpio 1 (\<lambda>g. Inr (GPIO_Init (pin_cfg 0x0001 GPIO_Mode_OUT 1 0 1) g)) b4) (\<lambda>b5.
            bnd (on_gpio 1 (\<lambda>g. Inr (GPIO_WriteBit 0x0002 True g)) b5) (\<lambda>b6.
            bnd (on_gpio 1 (\<lambda>g. Inr (GPIO_WriteBit 0x0001 True g)) b6) (\<lambda>b7.
            on_gpio 1 (\<lambda>g. Inr (GPIO_Init (pin_cfg 0x0080 GPIO_Mode_IN 0 0 1) g)) b7))))))"

definition startup_sys_init :: "board \<Rightarrow> board" where
  "startup_sys_init b =
     (let c = bd_core b;
          c1 = c\<lparr>co_CONTROL := co_CONTROL c AND NOT 0x03\<rparr>;
          c2 = c1\<lparr>co_CCR := 0x210\<rparr>;
          c3 = c2\<lparr>co_CCR := co_CCR c2 OR 0x008\<rparr>
      in b\<lparr>bd_core := c3\<lparr>co_FPCCR := 0x80000000\<rparr>\<rparr>)"

definition startup_timer_init :: "board \<Rightarrow> board" where
  "startup_timer_init b =
     with_rcc (RCC_APB1PeriphClockLPModeCmd 0x00000008 True) (with_rcc (RCC_APB1PeriphClockCmd 0x00000008 True) b)"

definition startup_Init :: "board \<Rightarrow> board res" where
  "startup_Init b =
     bnd (startup_can_init (startup_usart_init b)) (\<lambda>b1. bnd (startup_dac_init b1) (\<lambda>b2. bnd (startup_sio_init b2) (\<lambda>b3. Inr (startup_timer_init (startup_sys_init b3)))))"

subsection \<open>Resets and clocks, one by one\<close>

text \<open>No reset line is set, and the register arrays have the sizes of the device.\<close>

definition board_ready :: "board \<Rightarrow> bool" where
  "board_ready b \<longleftrightarrow> rc_AHB1RSTR (bd_rcc b) = 0 \<and> rc_APB1RSTR (bd_rcc b) = 0 \<and> rc_APB2RSTR (bd_rcc b) = 0
     \<and> length (bd_gpio b) = 9 \<and> length (sy_EXTICR (bd_syscfg b)) = 4 \<and> length (sFilterRegister (bd_can1 b)) = 28"

lemma map_nth_upd: "map (\<lambda>i. if i = k then f i (xs ! i) else xs ! i) [0..<length xs] = xs[k := f k (xs ! k)]"
  by (rule nth_equalityI) (auto simp: nth_list_update)

lemma usart_line_clear: "rc_APB1RSTR r = 0 \<Longrightarrow> rc_APB2RSTR r = 0 \<Longrightarrow> \<not> usart_line r i"
  unfolding usart_line_def by simp

lemma tim_line_clear: "rc_APB1RSTR r = 0 \<Longrightarrow> rc_APB2RSTR r = 0 \<Longrightarrow> \<not> tim_line r i"
  unfolding tim_line_def by simp

lemma no_reset_id:
  "rc_AHB1RSTR (bd_rcc b) = 0 \<Longrightarrow> rc_APB1RSTR (bd_rcc b) = 0 \<Longrightarrow> rc_APB2RSTR (bd_rcc b) = 0 \<Longrightarrow> settle b = b"
  by (simp add: settle_def usart_line_clear tim_line_clear map_nth Let_def)

lemma put_bits_pulse: "put_bits False m (put_bits True m (0 :: u32)) = 0"
  by (rule bit_word_eqI) (simp add: bit_put_bits)

lemma put_bits_zero: "put_bits True m (0 :: u32) = m"
  by (simp add: put_bits_def)

lemmas clock_cmd_defs = RCC_AHB1PeriphClockCmd_def RCC_APB1PeriphClockCmd_def RCC_APB2PeriphClockCmd_def
  RCC_APB1PeriphClockLPModeCmd_def

lemma with_rcc_clock:
  assumes "board_ready b"
  shows "with_rcc (RCC_AHB1PeriphClockCmd p on) b = b\<lparr>bd_rcc := RCC_AHB1PeriphClockCmd p on (bd_rcc b)\<rparr>"
    and "with_rcc (RCC_APB1PeriphClockCmd p on) b = b\<lparr>bd_rcc := RCC_APB1PeriphClockCmd p on (bd_rcc b)\<rparr>"
    and "with_rcc (RCC_APB2PeriphClockCmd p on) b = b\<lparr>bd_rcc := RCC_APB2PeriphClockCmd p on (bd_rcc b)\<rparr>"
    and "with_rcc (RCC_APB1PeriphClockLPModeCmd p on) b = b\<lparr>bd_rcc := RCC_APB1PeriphClockLPModeCmd p on (bd_rcc b)\<rparr>"
  using assms by (simp_all add: with_rcc_def no_reset_id clock_cmd_defs board_ready_def)

lemma settle_gpio:
  assumes "rc_AHB1RSTR (bd_rcc b) = push_bit i 1" "rc_APB1RSTR (bd_rcc b) = 0" "rc_APB2RSTR (bd_rcc b) = 0" "i < 32"
  shows "settle b = b\<lparr>bd_gpio := (bd_gpio b)[i := gpio_reset i (bd_gpio b ! i)]\<rparr>"
proof -
  have "bit (rc_AHB1RSTR (bd_rcc b)) k \<longleftrightarrow> k = i" for k
    using assms(1,4) by (auto simp: bit_simps)
  then show ?thesis
    using assms map_nth_upd [of i gpio_reset "bd_gpio b"]
    by (simp add: settle_def usart_line_clear tim_line_clear map_nth Let_def del: push_bit_of_1)
qed

lemma bit_one_at: "n < 32 \<Longrightarrow> bit (push_bit n (1 :: u32)) k \<longleftrightarrow> k = n"
  by (auto simp: bit_simps)

lemma tim_line_one:
  assumes "rc_APB2RSTR r = 0" and "\<And>k. bit (rc_APB1RSTR r) k \<longleftrightarrow> k = j"
  shows "9 \<le> j \<Longrightarrow> \<not> tim_line r n" and "j < 6 \<Longrightarrow> tim_line r n \<longleftrightarrow> n = j + 2"
proof -
  have "tim_line r n \<longleftrightarrow> 2 \<le> n \<and> n \<le> 7 \<and> n - 2 = j \<or> 12 \<le> n \<and> n \<le> 14 \<and> n - 6 = j"
    unfolding tim_line_def assms by simp
  then show "9 \<le> j \<Longrightarrow> \<not> tim_line r n" and "j < 6 \<Longrightarrow> tim_line r n \<longleftrightarrow> n = j + 2"
    by linarith+
qed

lemma settle_apb1:
  assumes "rc_AHB1RSTR (bd_rcc b) = 0" "rc_APB2RSTR (bd_rcc b) = 0"
    and "rc_APB1RSTR (bd_rcc b) = 0x02000000 \<or> rc_APB1RSTR (bd_rcc b) = 0x04000000 \<or> rc_APB1RSTR (bd_rcc b) = 0x20000000"
  shows "settle b = b\<lparr>bd_can1 := (if rc_APB1RSTR (bd_rcc b) = 0x02000000 then can_reset (bd_can1 b) else bd_can1 b),
    bd_can2 := (if rc_APB1RSTR (bd_rcc b) = 0x04000000 then can_reset (bd_can2 b) else bd_can2 b),
    bd_dac := (if rc_APB1RSTR (bd_rcc b) = 0x20000000 then dac_reset else bd_dac b)\<rparr>"
proof -
  from assms(3) show ?thesis
  proof (elim disjE)
    assume r: "rc_APB1RSTR (bd_rcc b) = 0x02000000"
    then have "bit (rc_APB1RSTR (bd_rcc b)) k \<longleftrightarrow> k = 25" for k
      using bit_one_at [of 25 k] by simp
    from tim_line_one(1) [OF assms(2) this] this show ?thesis using assms(1,2) r
      by (simp add: settle_def usart_line_def map_nth Let_def)
  next
    assume r: "rc_APB1RSTR (bd_rcc b) = 0x04000000"
    then have "bit (rc_APB1RSTR (bd_rcc b)) k \<longleftrightarrow> k = 26" for k
      using bit_one_at [of 26 k] by simp
    from tim_line_one(1) [OF assms(2) this] this show ?thesis using assms(1,2) r
      by (simp add: settle_def usart_line_def map_nth Let_def)
  next
    assume r: "rc_APB1RSTR (bd_rcc b) = 0x20000000"
    then have "bit (rc_APB1RSTR (bd_rcc b)) k \<longleftrightarrow> k = 29" for k
      using bit_one_at [of 29 k] by simp
    from tim_line_one(1) [OF assms(2) this] this show ?thesis using assms(1,2) r
      by (simp add: settle_def usart_line_def map_nth Let_def)
  qed
qed

lemma settle_timer:
  assumes "rc_AHB1RSTR (bd_rcc b) = 0" "rc_APB2RSTR (bd_rcc b) = 0" "rc_APB1RSTR (bd_rcc b) = push_bit j 1" "j < 6"
  shows "settle b = b\<lparr>bd_tim := (bd_tim b)[j + 1 := tim_reset (j + 2)]\<rparr>"
proof -
  have k: "bit (rc_APB1RSTR (bd_rcc b)) k \<longleftrightarrow> k = j" for k
    using assms bit_one_at [of j k] by simp
  have "map (\<lambda>i. if tim_line (bd_rcc b) (i + 1) then tim_reset (i + 1) else bd_tim b ! i) [0..<length (bd_tim b)] =
      (bd_tim b)[j + 1 := tim_reset (j + 2)]"
    using tim_line_one(2) [OF assms(2) k assms(4)]
    by (intro nth_equalityI) (auto simp: nth_list_update)
  then show ?thesis using assms k by (simp add: settle_def usart_line_def map_nth Let_def)
qed

lemma GPIO_DeInit_ready:
  assumes "board_ready b" and "i < 9"
  shows "GPIO_DeInit i b = b\<lparr>bd_gpio := (bd_gpio b)[i := gpio_reset i (bd_gpio b ! i)]\<rparr>"
proof -
  have "with_rcc (RCC_AHB1PeriphResetCmd (push_bit i 1) True) b =
      b\<lparr>bd_rcc := (bd_rcc b)\<lparr>rc_AHB1RSTR := push_bit i 1\<rparr>, bd_gpio := (bd_gpio b)[i := gpio_reset i (bd_gpio b ! i)]\<rparr>"
    using assms settle_gpio [of "b\<lparr>bd_rcc := (bd_rcc b)\<lparr>rc_AHB1RSTR := push_bit i 1\<rparr>\<rparr>" i]
    by (simp add: with_rcc_def RCC_AHB1PeriphResetCmd_def put_bits_zero board_ready_def del: push_bit_of_1)
  then show ?thesis
    using assms put_bits_pulse [of "push_bit i 1"]
    by (simp add: GPIO_DeInit_def pulse_def with_rcc_def [of "RCC_AHB1PeriphResetCmd _ False"] RCC_AHB1PeriphResetCmd_def no_reset_id
        board_ready_def put_bits_zero del: push_bit_of_1)
qed

lemma APB1_pulse_ready:
  assumes "board_ready b" and "m = 0x02000000 \<or> m = 0x04000000 \<or> m = 0x20000000"
  shows "pulse (RCC_APB1PeriphResetCmd m) b =
    b\<lparr>bd_can1 := (if m = 0x02000000 then can_reset (bd_can1 b) else bd_can1 b),
      bd_can2 := (if m = 0x04000000 then can_reset (bd_can2 b) else bd_can2 b),
      bd_dac := (if m = 0x20000000 then dac_reset else bd_dac b)\<rparr>"
proof -
  let ?b = "b\<lparr>bd_rcc := (bd_rcc b)\<lparr>rc_APB1RSTR := m\<rparr>\<rparr>"
  have "with_rcc (RCC_APB1PeriphResetCmd m True) b = settle ?b"
    using assms(1) by (simp add: with_rcc_def RCC_APB1PeriphResetCmd_def put_bits_zero board_ready_def)
  also have "\<dots> = ?b\<lparr>bd_can1 := (if m = 0x02000000 then can_reset (bd_can1 b) else bd_can1 b),
      bd_can2 := (if m = 0x04000000 then can_reset (bd_can2 b) else bd_can2 b),
      bd_dac := (if m = 0x20000000 then dac_reset else bd_dac b)\<rparr>"
    using assms by (subst settle_apb1) (simp_all add: board_ready_def)
  finally show ?thesis
    using assms(1) put_bits_pulse [of m]
    by (simp add: pulse_def with_rcc_def [of "RCC_APB1PeriphResetCmd _ False"] RCC_APB1PeriphResetCmd_def no_reset_id
        board_ready_def put_bits_zero)
qed

text \<open>The timer of the kernel, and its neighbours on the bus, come back with their reset values.\<close>

lemma TIM_DeInit_ready:
  assumes "board_ready b" and "j < 6"
  shows "TIM_DeInit (j + 2) b = b\<lparr>bd_tim := (bd_tim b)[j + 1 := tim_reset (j + 2)]\<rparr>"
proof -
  have "TIM_DeInit (j + 2) b = pulse (RCC_APB1PeriphResetCmd (push_bit j 1)) b"
  proof -
    consider "j = 0" | "j = 1" | "j = 2" | "j = 3" | "j = 4" | "j = 5" using assms(2) by linarith
    then show ?thesis by cases (simp_all add: TIM_DeInit_def)
  qed
  moreover have "with_rcc (RCC_APB1PeriphResetCmd (push_bit j 1) True) b =
      b\<lparr>bd_rcc := (bd_rcc b)\<lparr>rc_APB1RSTR := push_bit j 1\<rparr>, bd_tim := (bd_tim b)[j + 1 := tim_reset (j + 2)]\<rparr>"
    using assms settle_timer [of "b\<lparr>bd_rcc := (bd_rcc b)\<lparr>rc_APB1RSTR := push_bit j 1\<rparr>\<rparr>" j]
    by (simp add: with_rcc_def RCC_APB1PeriphResetCmd_def put_bits_zero board_ready_def del: push_bit_of_1)
  ultimately show ?thesis
    using assms(1) put_bits_pulse [of "push_bit j 1"]
    by (simp add: pulse_def with_rcc_def [of "RCC_APB1PeriphResetCmd _ False"] RCC_APB1PeriphResetCmd_def no_reset_id
        board_ready_def put_bits_zero del: push_bit_of_1)
qed

subsection \<open>Port B\<close>

lemma GPIO_Init_single:
  assumes "GPIO_Pin ini = push_bit p 1" and "p < 16"
  shows "GPIO_Init ini g = GPIO_Init_pin ini p g"
proof -
  have idle: "GPIO_Init_pin ini q h = h" if "q \<noteq> p" "q < 16" for q h
    using that assms pin_selected [of q "GPIO_Pin ini"] bit_one_at [of p q]
    by (simp add: GPIO_Init_pin_def del: push_bit_of_1)
  have "fold (GPIO_Init_pin ini) [0..<n] g = (if p < n then GPIO_Init_pin ini p g else g)" if "n \<le> 16" for n
    using that
  proof (induction n)
    case (Suc n)
    then show ?case using idle [of n] by (cases "n = p") auto
  qed simp
  then show ?thesis using assms(2) by (simp add: GPIO_Init_def)
qed

lemma pin_cfg_init:
  assumes "p < 16"
  shows "GPIO_Init (pin_cfg (push_bit p 1) mode ot pu sp) g =
    (let g1 = g\<lparr>MODER := set_field 3 (2 * p) (mode_code mode) (MODER g), PUPDR := set_field 3 (2 * p) pu (PUPDR g)\<rparr>
     in if mode = GPIO_Mode_OUT \<or> mode = GPIO_Mode_AF
        then g1\<lparr>OSPEEDR := set_field 3 (2 * p) sp (OSPEEDR g), OTYPER := set_field 1 p ot (OTYPER g)\<rparr> else g1)"
proof -
  have "GPIO_Pin (pin_cfg (push_bit p 1) mode ot pu sp) = push_bit p 1" by (simp add: pin_cfg_def)
  note i = GPIO_Init_single [OF this assms, of g]
  show ?thesis unfolding i by (simp add: GPIO_Init_pin_def pin_cfg_def Let_def del: push_bit_of_1)
qed

lemmas single_pins = pin_cfg_init [of 0, simplified] pin_cfg_init [of 1, simplified] pin_cfg_init [of 5, simplified]
  pin_cfg_init [of 6, simplified] pin_cfg_init [of 7, simplified] pin_cfg_init [of 8, simplified] pin_cfg_init [of 9, simplified]

definition portB_can :: "GPIO_TypeDef \<Rightarrow> GPIO_TypeDef" where
  "portB_can g = (gpio_reset 1 g)\<lparr>MODER := 0xA2A80, OSPEEDR := 0xA28C0, PUPDR := 0x10500, AFR := [0x09900000, 0x99]\<rparr>"

definition portB_done :: "GPIO_TypeDef \<Rightarrow> GPIO_TypeDef" where
  "portB_done g = (portB_can g)\<lparr>MODER := 0xA2A85, OTYPER := 3, OSPEEDR := 0xA28C5, ODR := 3\<rparr>"

text \<open>What \<open>startup_can_init\<close> does to the port, and \<open>startup_sio_init\<close> after it.\<close>

definition portB_can_prog :: "GPIO_TypeDef \<Rightarrow> GPIO_TypeDef res" where
  "portB_can_prog = (\<lambda>g. bnd (GPIO_PinAFConfig 9 9 g) (\<lambda>g. bnd (GPIO_PinAFConfig 8 9 g) (\<lambda>g.
   bnd (GPIO_PinAFConfig 6 9 (GPIO_Init (pin_cfg 0x0100 GPIO_Mode_AF 0 1 2) (GPIO_Init (pin_cfg 0x0200 GPIO_Mode_AF 0 0 2) g))) (\<lambda>g.
   bnd (GPIO_PinAFConfig 5 9 g) (\<lambda>g.
   Inr (GPIO_Init (pin_cfg 0x0020 GPIO_Mode_AF 0 1 2) (GPIO_Init (pin_cfg 0x0040 GPIO_Mode_AF 0 0 2) g)))))))"

definition portB_sio_prog :: "GPIO_TypeDef \<Rightarrow> GPIO_TypeDef res" where
  "portB_sio_prog = (\<lambda>g. Inr (GPIO_Init (pin_cfg 0x0080 GPIO_Mode_IN 0 0 1) (GPIO_WriteBit 0x0001 True (GPIO_WriteBit 0x0002 True
     (GPIO_Init (pin_cfg 0x0001 GPIO_Mode_OUT 1 0 1) (GPIO_Init (pin_cfg 0x0002 GPIO_Mode_OUT 1 0 1) g))))))"

lemma portB_can_chain: "portB_can_prog (gpio_reset 1 g) = Inr (portB_can g)"
  by (simp add: portB_can_prog_def GPIO_PinAFConfig_def gpio_reset_def aget_def aset_def bnd_def set_field_def single_pins Let_def
      portB_can_def)

lemma portB_sio_chain: "portB_sio_prog (portB_can g) = Inr (portB_done g)"
  by (simp add: portB_sio_prog_def gpio_reset_def set_field_def single_pins Let_def portB_can_def portB_done_def GPIO_WriteBit_def
      GPIO_SetBits_def)

subsection \<open>The initialisation as a whole\<close>

text \<open>Two operations in a row on the same port are one.\<close>

lemma bnd_Inr: "bnd m Inr = m"
  by (cases m) simp_all

lemma on_gpio_fuse: "bnd (on_gpio i f b) (\<lambda>b'. bnd (on_gpio i h b') k) = bnd (on_gpio i (\<lambda>g. bnd (f g) h) b) k"
proof (cases "bit (rc_AHB1ENR (bd_rcc b)) i \<and> i < length (bd_gpio b)")
  case True
  then show ?thesis by (auto simp: on_gpio_def aget_def aset_def bnd_def split: sum.splits)
qed (auto simp: on_gpio_def aget_def bnd_def)

lemma on_gpio_value:
  assumes "bit (rc_AHB1ENR (bd_rcc b)) i" and "i < length (bd_gpio b)" and "f (bd_gpio b ! i) = Inr g"
  shows "on_gpio i f b = Inr (b\<lparr>bd_gpio := (bd_gpio b)[i := g]\<rparr>)"
  using assms by (simp add: on_gpio_def aget_def aset_def bnd_def)

definition filter_open :: "CAN_TypeDef \<Rightarrow> CAN_TypeDef" where
  "filter_open c =
     (can_reset c)\<lparr>can_FMR := 0x2A1C0E00, can_FA1R := 1, can_FS1R := 1, sFilterRegister := (sFilterRegister c)[0 := (0, 0)]\<rparr>"

lemma filter_init:
  "length (sFilterRegister c) = 28 \<Longrightarrow> CAN_FilterInit can_filter (can_reset c) = Inr (filter_open c)"
  by (simp add: CAN_FilterInit_def can_filter_def can_reset_def filter_open_def filter_bank_def aset_def bnd_def Let_def)

lemma bit_or_at: "n < 32 \<Longrightarrow> bit (x OR push_bit n (1 :: u32)) n" "n < 32 \<Longrightarrow> bit (push_bit n (1 :: u32) OR x) n"
  by (simp_all add: bit_simps)

lemma startup_can_init_ready:
  assumes "board_ready b"
  shows "startup_can_init b = Inr (b\<lparr>
    bd_rcc := (bd_rcc b)\<lparr>rc_APB1ENR := rc_APB1ENR (bd_rcc b) OR 0x06000000, rc_AHB1ENR := rc_AHB1ENR (bd_rcc b) OR 2\<rparr>,
    bd_gpio := (bd_gpio b)[1 := portB_can (bd_gpio b ! 1)], bd_can1 := filter_open (bd_can1 b), bd_can2 := can_reset (bd_can2 b)\<rparr>)"
proof -
  let ?b1 = "b\<lparr>bd_gpio := (bd_gpio b)[1 := gpio_reset 1 (bd_gpio b ! 1)], bd_can1 := can_reset (bd_can1 b), bd_can2 := can_reset (bd_can2 b)\<rparr>"
  have r: "board_ready (b\<lparr>bd_gpio := (bd_gpio b)[1 := gpio_reset 1 (bd_gpio b ! 1)]\<rparr>)"
    "board_ready (b\<lparr>bd_gpio := (bd_gpio b)[1 := gpio_reset 1 (bd_gpio b ! 1)], bd_can1 := can_reset (bd_can1 b)\<rparr>)"
    "board_ready ?b1"
    using assms by (simp_all add: board_ready_def can_reset_def)
  have d: "CAN_DeInit 2 (CAN_DeInit 1 (GPIO_DeInit 1 b)) = ?b1"
    using GPIO_DeInit_ready [OF assms, of 1] APB1_pulse_ready [OF r(1), where m = "0x02000000"]
      APB1_pulse_ready [OF r(2), where m = "0x04000000"]
    by (simp add: CAN_DeInit_def)
  let ?b4 = "?b1\<lparr>bd_rcc := (bd_rcc b)\<lparr>rc_APB1ENR := rc_APB1ENR (bd_rcc b) OR 0x06000000,
    rc_AHB1ENR := rc_AHB1ENR (bd_rcc b) OR 2\<rparr>\<rparr>"
  have c: "with_rcc (RCC_AHB1PeriphClockCmd 2 True) (with_rcc (RCC_APB1PeriphClockCmd 0x04000000 True)
      (with_rcc (RCC_APB1PeriphClockCmd 0x02000000 True) ?b1)) = ?b4"
    using assms by (simp add: with_rcc_def clock_cmd_defs no_reset_id board_ready_def put_bits_def can_reset_def or.assoc)
  have g: "bit (rc_AHB1ENR (bd_rcc ?b4)) 1" "bit (rc_APB1ENR (bd_rcc ?b4)) 25"
    using bit_or_at(1) [of 1 "rc_AHB1ENR (bd_rcc b)"] bit_or_at(1) [of 25 "rc_APB1ENR (bd_rcc b)"]
    by (simp_all add: bit_or_iff)
  have l: "1 < length (bd_gpio b)" using assms by (simp add: board_ready_def)
  have p: "on_gpio 1 portB_can_prog ?b4 = Inr (?b4\<lparr>bd_gpio := (bd_gpio b)[1 := portB_can (bd_gpio b ! 1)]\<rparr>)"
    using on_gpio_value [of ?b4 1 portB_can_prog "portB_can (bd_gpio b ! 1)"] g(1) l portB_can_chain by simp
  have f: "CAN_FilterInit can_filter (can_reset (bd_can1 b)) = Inr (filter_open (bd_can1 b))"
    using assms by (simp add: filter_init board_ready_def)
  show ?thesis
    using p [unfolded portB_can_prog_def] f g(2) unfolding startup_can_init_def Let_def d c on_gpio_fuse
    by (simp add: on_can1_def bnd_assoc)
qed

lemma board_ready_rcc:
  "board_ready b \<Longrightarrow> board_ready (b\<lparr>bd_rcc := (bd_rcc b)\<lparr>rc_APB1ENR := x\<rparr>\<rparr>)"
  "board_ready b \<Longrightarrow> board_ready (b\<lparr>bd_rcc := (bd_rcc b)\<lparr>rc_APB2ENR := x\<rparr>\<rparr>)"
  by (simp_all add: board_ready_def)

definition dac_pin :: GPIO_InitTypeDef where
  "dac_pin = GPIO_StructInit\<lparr>GPIO_Pin := 0x0020, GPIO_Mode := GPIO_Mode_AN, GPIO_PuPd := 0\<rparr>"

lemma startup_dac_init_ready:
  assumes "board_ready b"
  shows "startup_dac_init b = Inr (b\<lparr>bd_rcc := (bd_rcc b)\<lparr>rc_APB1ENR := rc_APB1ENR (bd_rcc b) OR 0x20000000\<rparr>,
    bd_gpio := (if bit (rc_AHB1ENR (bd_rcc b)) 0 then (bd_gpio b)[0 := GPIO_Init dac_pin (bd_gpio b ! 0)] else bd_gpio b),
    bd_dac := dac_reset\<lparr>da_CR := 0x00010000\<rparr>\<rparr>)"
proof -
  let ?b1 = "b\<lparr>bd_rcc := (bd_rcc b)\<lparr>rc_APB1ENR := rc_APB1ENR (bd_rcc b) OR 0x20000000\<rparr>\<rparr>"
  let ?gs = "if bit (rc_AHB1ENR (bd_rcc b)) 0 then (bd_gpio b)[0 := GPIO_Init dac_pin (bd_gpio b ! 0)] else bd_gpio b"
  have c: "with_rcc (RCC_APB1PeriphClockCmd 0x20000000 True) b = ?b1"
    using with_rcc_clock(2) [OF assms] by (simp add: RCC_APB1PeriphClockCmd_def put_bits_def)
  have g: "on_gpio 0 (\<lambda>g. Inr (GPIO_Init dac_pin g)) ?b1 = Inr (?b1\<lparr>bd_gpio := ?gs\<rparr>)"
    using assms by (simp add: on_gpio_def aget_def aset_def board_ready_def)
  have "board_ready (?b1\<lparr>bd_gpio := ?gs\<rparr>)" using assms by (simp add: board_ready_def)
  then have d: "DAC_DeInit (?b1\<lparr>bd_gpio := ?gs\<rparr>) = ?b1\<lparr>bd_gpio := ?gs, bd_dac := dac_reset\<rparr>"
    using APB1_pulse_ready [of "?b1\<lparr>bd_gpio := ?gs\<rparr>" "0x20000000"] by (simp add: DAC_DeInit_def)
  have k: "bit (rc_APB1ENR (bd_rcc b) OR 0x20000000) 29" using bit_or_at(1) [of 29 "rc_APB1ENR (bd_rcc b)"] by simp
  have u: "(replicate 9 (0 :: u32))[5 := 0] = replicate 9 0" by (simp add: list_update_same_conv)
  have v: "DAC_Cmd 0x10 True (DAC_Init 0x10 (DAC_StructInit\<lparr>DAC_Trigger := 0, DAC_WaveGeneration := 0, DAC_OutputBuffer := 0\<rparr>) dac_reset)
      = dac_reset\<lparr>da_CR := 0x00010000\<rparr>" "DAC_SetChannel2Data 0x08 0 (dac_reset\<lparr>da_CR := 0x00010000\<rparr>) = Inr (dac_reset\<lparr>da_CR := 0x00010000\<rparr>)"
    by (simp_all add: DAC_Cmd_def DAC_Init_def DAC_StructInit_def dac_reset_def put_bits_def DAC_SetChannel2Data_def dac_store_def aset_def u)
  show ?thesis
    unfolding startup_dac_init_def Let_def c dac_pin_def [symmetric] g using d v k by (simp add: on_dac_def)
qed

text \<open>\<open>PB7\<close> drives line 7, on falling edges.\<close>

definition button_exti :: "EXTI_TypeDef \<Rightarrow> EXTI_TypeDef" where
  "button_exti e =
     e\<lparr>ex_IMR := 0x80, ex_EMR := 0, ex_RTSR := 0, ex_FTSR := 0x80, ex_PR := ex_PR e AND NOT 0x007FFFFF\<rparr>"

definition button_line :: "SYSCFG_TypeDef \<Rightarrow> SYSCFG_TypeDef" where
  "button_line s = s\<lparr>sy_EXTICR := (sy_EXTICR s)[1 := set_field 0xF 12 1 (sy_EXTICR s ! 1)]\<rparr>"

lemma startup_sio_init_ready:
  assumes "board_ready b" and "bit (rc_AHB1ENR (bd_rcc b)) 1" and "bd_gpio b ! 1 = portB_can g"
  shows "startup_sio_init b = Inr (b\<lparr>bd_rcc := (bd_rcc b)\<lparr>rc_APB2ENR := rc_APB2ENR (bd_rcc b) OR 0x4000\<rparr>,
    bd_syscfg := button_line (bd_syscfg b), bd_exti := button_exti (bd_exti b), bd_gpio := (bd_gpio b)[1 := portB_done g]\<rparr>)"
proof -
  let ?b1 = "b\<lparr>bd_rcc := (bd_rcc b)\<lparr>rc_APB2ENR := rc_APB2ENR (bd_rcc b) OR 0x4000\<rparr>\<rparr>"
  let ?b3 = "?b1\<lparr>bd_syscfg := button_line (bd_syscfg b), bd_exti := button_exti (bd_exti b)\<rparr>"
  have c: "with_rcc (RCC_APB2PeriphClockCmd 0x4000 True) b = ?b1"
    using with_rcc_clock(3) [OF assms(1)] by (simp add: RCC_APB2PeriphClockCmd_def put_bits_def)
  have l: "length (bd_gpio b) = 9" "length (sy_EXTICR (bd_syscfg b)) = 4" using assms(1) by (simp_all add: board_ready_def)
  have y: "bit (rc_APB2ENR (bd_rcc b) OR 0x4000) 14" using bit_or_at(1) [of 14 "rc_APB2ENR (bd_rcc b)"] by simp
  have s: "on_syscfg (\<lambda>s. bnd (SYSCFG_EXTILineConfig 1 7 (sy_EXTICR s)) (\<lambda>rs. Inr (s\<lparr>sy_EXTICR := rs\<rparr>))) ?b1
      = Inr (?b1\<lparr>bd_syscfg := button_line (bd_syscfg b)\<rparr>)"
    using l y by (simp add: on_syscfg_def SYSCFG_EXTILineConfig_def aget_def aset_def button_line_def Let_def)
  have e: "EXTI_Init (EXTI_StructInit\<lparr>EXTI_Line := 0x80, EXTI_Mode := EXTI_Mode_Interrupt, EXTI_Trigger := EXTI_Trigger_Falling,
      EXTI_LineCmd := True\<rparr>) (EXTI_DeInit x) = button_exti x" for x
    by (simp add: EXTI_Init_def EXTI_StructInit_def EXTI_DeInit_def button_exti_def Let_def)
  have p: "on_gpio 1 portB_sio_prog ?b3 = Inr (?b3\<lparr>bd_gpio := (bd_gpio b)[1 := portB_done g]\<rparr>)"
    using on_gpio_value [of ?b3 1 portB_sio_prog "portB_done g"] assms(2,3) l portB_sio_chain by simp
  have f: "bnd (on_gpio 1 f x) (on_gpio 1 h) = on_gpio 1 (\<lambda>g. bnd (f g) h) x" for f h x
    using on_gpio_fuse [of 1 f x h Inr] by (simp add: bnd_Inr)
  show ?thesis
    using p [unfolded portB_sio_prog_def] s e unfolding startup_sio_init_def Let_def c on_gpio_fuse f by simp
qed

end
