(* ===== verification/Stm_Switch.thy ===== *)
theory Stm_Switch
  imports Stm_Rcc Stm_Dac Stm_Board Stm_Usart
begin

section \<open>Registers of independent switches\<close>

text \<open>
  Most registers of the board are rows of fields that operations set one by one. The locale \<open>register_bank\<close> says what
  their users rely on: a field holds what it was last set to, and setting a field leaves the others. The rows whose
  fields are turned on and off by a mask are its extension \<open>switches\<close>.
\<close>

locale register_bank =
  fixes put :: "'k \<Rightarrow> 'v \<Rightarrow> 's \<Rightarrow> 's" and get :: "'k \<Rightarrow> 's \<Rightarrow> 'w" and meant :: "'v \<Rightarrow> 'w"
    and ok :: "'k \<Rightarrow> bool" and valid :: "'v \<Rightarrow> bool"
  assumes get_put: "ok k \<Longrightarrow> valid v \<Longrightarrow> get k (put k v s) = meant v"
    and get_other: "ok k \<Longrightarrow> ok k' \<Longrightarrow> k \<noteq> k' \<Longrightarrow> valid v \<Longrightarrow> get k' (put k v s) = get k' s"
begin

lemma get_any: "ok k \<Longrightarrow> ok k' \<Longrightarrow> valid v \<Longrightarrow> get k' (put k v s) = (if k = k' then meant v else get k' s)"
  by (simp add: get_put get_other)

text \<open>The last command for a field decides.\<close>

lemma get_commands:
  assumes "\<forall>c\<in>set cs. ok (fst c) \<and> valid (snd c)" and "ok k"
  shows "get k (fold (\<lambda>(k, v). put k v) cs s) = (case map_of (rev cs) k of Some v \<Rightarrow> meant v | None \<Rightarrow> get k s)"
  using assms
proof (induction cs arbitrary: s)
  case (Cons c cs)
  then show ?case by (cases c) (auto simp: map_add_def get_any split: option.splits)
qed simp

end

locale switches = register_bank put on "\<lambda>b. b" ok "\<lambda>_. True"
  for put :: "'k \<Rightarrow> bool \<Rightarrow> 's \<Rightarrow> 's" and on :: "'k \<Rightarrow> 's \<Rightarrow> bool" and ok :: "'k \<Rightarrow> bool"
begin

lemma on_enabled:
  assumes "\<forall>k\<in>set ks. ok k" and "ok k"
  shows "on k (fold (\<lambda>k. put k True) ks s) \<longleftrightarrow> k \<in> set ks \<or> on k s"
  using assms by (induction ks arbitrary: s) (auto simp: get_any)

end

subsection \<open>The registers that are switches\<close>

lemma bit_of_one: "n < 32 \<Longrightarrow> bit (push_bit n (1 :: u32)) k \<longleftrightarrow> k = n"
  by (auto simp: bit_simps)

lemma bit_put_switch: "n < 32 \<Longrightarrow> k < 32 \<Longrightarrow> bit (put_bits b (push_bit n (1 :: u32)) r) k = (if k = n then b else bit r k)"
  by (simp add: bit_put_bits bit_of_one del: push_bit_of_1)

interpretation ahb1_clock: switches "\<lambda>n. RCC_AHB1PeriphClockCmd (push_bit n 1)" "\<lambda>n r. bit (rc_AHB1ENR r) n" "\<lambda>n. n < 32"
  by unfold_locales (simp_all add: RCC_AHB1PeriphClockCmd_def bit_put_switch del: push_bit_of_1)

interpretation apb1_clock: switches "\<lambda>n. RCC_APB1PeriphClockCmd (push_bit n 1)" "\<lambda>n r. bit (rc_APB1ENR r) n" "\<lambda>n. n < 32"
  by unfold_locales (simp_all add: RCC_APB1PeriphClockCmd_def bit_put_switch del: push_bit_of_1)

interpretation apb2_clock: switches "\<lambda>n. RCC_APB2PeriphClockCmd (push_bit n 1)" "\<lambda>n r. bit (rc_APB2ENR r) n" "\<lambda>n. n < 32"
  by unfold_locales (simp_all add: RCC_APB2PeriphClockCmd_def bit_put_switch del: push_bit_of_1)

interpretation apb1_reset: switches "\<lambda>n. RCC_APB1PeriphResetCmd (push_bit n 1)" "\<lambda>n r. bit (rc_APB1RSTR r) n" "\<lambda>n. n < 32"
  by unfold_locales (simp_all add: RCC_APB1PeriphResetCmd_def bit_put_switch del: push_bit_of_1)

text \<open>The two channels of the converter.\<close>

interpretation dac_channel: switches DAC_Cmd "\<lambda>ch d. bit (da_CR d) (unat ch)" "\<lambda>ch. ch = 0 \<or> ch = 0x10"
  by unfold_locales (auto simp: DAC_Cmd_def bit_put_switch bit_put_bits bit_1_iff bit_of_one simp del: push_bit_of_1)

text \<open>The output pins of a port.\<close>

interpretation port_pin: switches "\<lambda>n. GPIO_WriteBit (push_bit n 1)" "\<lambda>n g. bit (ODR g) n" "\<lambda>n. n < 16"
  by unfold_locales (auto simp: GPIO_WriteBit_def GPIO_SetBits_def GPIO_ResetBits_def bit_simps)

text \<open>The interrupts the serial driver uses.\<close>

definition usart_it_on :: "u16 \<Rightarrow> USART_TypeDef \<Rightarrow> bool" where
  "usart_it_on it u = (us_CR1 u AND it_mask it \<noteq> 0)"

interpretation usart_it: switches USART_ITConfig usart_it_on "\<lambda>it. it = USART_IT_TXE \<or> it = USART_IT_RXNE"
proof
  fix k k' b s
  have m: "it_mask USART_IT_TXE = 0x80" "it_mask USART_IT_RXNE = 0x20" "it_reg USART_IT_TXE = 1" "it_reg USART_IT_RXNE = 1"
    by (simp_all add: it_mask_def it_reg_def USART_IT_TXE_def USART_IT_RXNE_def)
  show "k = USART_IT_TXE \<or> k = USART_IT_RXNE \<Longrightarrow> usart_it_on k (USART_ITConfig k b s) = b"
    by (auto simp: usart_it_on_def USART_ITConfig_def m put_bits_and)
  show "k = USART_IT_TXE \<or> k = USART_IT_RXNE \<Longrightarrow> k' = USART_IT_TXE \<or> k' = USART_IT_RXNE \<Longrightarrow> k \<noteq> k' \<Longrightarrow>
      usart_it_on k' (USART_ITConfig k b s) = usart_it_on k' s"
    by (auto simp: usart_it_on_def USART_ITConfig_def m put_bits_other)
qed

end
