(* ===== verification/Stm_Channels.thy ===== *)
theory Stm_Channels
  imports Stm_Tim Stm_Switch
begin

section \<open>The channels of a timer\<close>

text \<open>
  The output, compare and capture operations come in four copies, one for each channel, that differ in masks and
  shifts. Here they are shown to be banks of independent channels: what a channel is set to it holds, and setting it
  leaves the other three as they are.
\<close>

subsection \<open>Compare values\<close>

definition set_compare :: "nat \<Rightarrow> u32 \<Rightarrow> TIM_TypeDef \<Rightarrow> TIM_TypeDef" where
  "set_compare c = (if c = 0 then TIM_SetCompare1 else if c = 1 then TIM_SetCompare2 else if c = 2 then TIM_SetCompare3 else TIM_SetCompare4)"
definition get_capture :: "nat \<Rightarrow> TIM_TypeDef \<Rightarrow> u32" where
  "get_capture c = (if c = 0 then TIM_GetCapture1 else if c = 1 then TIM_GetCapture2 else if c = 2 then TIM_GetCapture3 else TIM_GetCapture4)"

lemmas compare_defs = TIM_SetCompare1_def TIM_SetCompare2_def TIM_SetCompare3_def TIM_SetCompare4_def
  TIM_GetCapture1_def TIM_GetCapture2_def TIM_GetCapture3_def TIM_GetCapture4_def

interpretation compare: register_bank set_compare get_capture "\<lambda>v. v" "\<lambda>c. c < 4" "\<lambda>_. True"
  by unfold_locales (auto simp: set_compare_def get_capture_def compare_defs)

subsection \<open>Outputs\<close>

text \<open>Mode, enabled and polarity bit, and pulse of an output.\<close>

definition mode_reg :: "nat \<Rightarrow> TIM_TypeDef \<Rightarrow> u16" where
  "mode_reg c t = (if c < 2 then tim_CCMR1 t else tim_CCMR2 t)"

definition oc_field :: "nat \<Rightarrow> TIM_TypeDef \<Rightarrow> u16 \<times> bool \<times> bool \<times> u32" where
  "oc_field c t =
     (take_bit 3 (drop_bit (8 * (c mod 2) + 4) (mode_reg c t)), bit (tim_CCER t) (4 * c), bit (tim_CCER t) (4 * c + 1),
      get_capture c t)"

definition oc_init :: "nat \<Rightarrow> nat \<Rightarrow> TIM_OCInitTypeDef \<Rightarrow> TIM_TypeDef \<Rightarrow> TIM_TypeDef" where
  "oc_init n c =
     (if c = 0 then TIM_OC1Init n else if c = 1 then TIM_OC2Init n else if c = 2 then TIM_OC3Init n else TIM_OC4Init n)"

definition oc_meant :: "TIM_OCInitTypeDef \<Rightarrow> u16 \<times> bool \<times> bool \<times> u32" where
  "oc_meant ini = (drop_bit 4 (TIM_OCMode ini), TIM_OutputState ini = 1, TIM_OCPolarity ini = 2, TIM_Pulse ini)"

text \<open>The values the header names.\<close>

definition oc_valid :: "TIM_OCInitTypeDef \<Rightarrow> bool" where
  "oc_valid ini \<longleftrightarrow>
     TIM_OCMode ini = push_bit 4 (take_bit 3 (drop_bit 4 (TIM_OCMode ini))) \<and>
     TIM_OutputState ini \<in> {0, 1} \<and> TIM_OCPolarity ini \<in> {0, 2} \<and> TIM_OutputNState ini \<in> {0, 4} \<and> TIM_OCNPolarity ini \<in> {0, 8}"

lemma two_values: "v \<in> {0, m} \<Longrightarrow> v = (if v = m then m else 0)"
  by auto

lemmas oc_inits = TIM_OC1Init_def TIM_OC2Init_def TIM_OC3Init_def TIM_OC4Init_def

lemma CCER_OCInit:
  assumes "oc_valid ini" and "c < 4" and "k < 4"
  shows "bit (tim_CCER (oc_init n c ini t)) (4 * k) = (if k = c then TIM_OutputState ini = 1 else bit (tim_CCER t) (4 * k))"
    and "bit (tim_CCER (oc_init n c ini t)) (4 * k + 1) = (if k = c then TIM_OCPolarity ini = 2 else bit (tim_CCER t) (4 * k + 1))"
proof -
  define s p ns np where d: "s = (TIM_OutputState ini = 1)" "p = (TIM_OCPolarity ini = 2)" "ns = (TIM_OutputNState ini = 4)"
    "np = (TIM_OCNPolarity ini = 8)"
  have v: "TIM_OutputState ini = (if s then 1 else 0)" "TIM_OCPolarity ini = (if p then 2 else 0)"
    "TIM_OutputNState ini = (if ns then 4 else 0)" "TIM_OCNPolarity ini = (if np then 8 else 0)"
    using assms(1) unfolding d oc_valid_def by auto
  have c: "c = 0 \<or> c = 1 \<or> c = 2 \<or> c = 3" and k: "k = 0 \<or> k = 1 \<or> k = 2 \<or> k = 3" using assms(2,3) by auto
  show "bit (tim_CCER (oc_init n c ini t)) (4 * k) = (if k = c then TIM_OutputState ini = 1 else bit (tim_CCER t) (4 * k))"
    using c k by (elim disjE) (simp_all add: oc_init_def oc_inits Let_def v bit_simps)
  show "bit (tim_CCER (oc_init n c ini t)) (4 * k + 1) = (if k = c then TIM_OCPolarity ini = 2 else bit (tim_CCER t) (4 * k + 1))"
    using c k by (elim disjE) (simp_all add: oc_init_def oc_inits Let_def v bit_simps)
qed

lemma three_bits: "bit x 0 = bit y 0 \<Longrightarrow> bit x 1 = bit y 1 \<Longrightarrow> bit x 2 = bit y 2 \<Longrightarrow> take_bit 3 x = (take_bit 3 y :: u16)"
  by (rule bit_word_eqI) (auto simp: bit_simps numeral_3_eq_3 less_Suc_eq numeral_2_eq_2)

lemma mode_field_eqI:
  assumes "\<And>i. i \<in> {4, 5, 6} \<Longrightarrow> bit (mode_reg k t) (8 * (k mod 2) + i) = bit (mode_reg k t') (8 * (k mod 2) + i)"
  shows "take_bit 3 (drop_bit (8 * (k mod 2) + 4) (mode_reg k t)) = take_bit 3 (drop_bit (8 * (k mod 2) + 4) (mode_reg k t'))"
  using assms [of 4] assms [of 5] assms [of 6]
  by (intro three_bits) (simp_all add: bit_drop_bit_eq add.commute add.left_commute)

lemma mode_OCInit:
  assumes "oc_valid ini" and "c < 4" and "k < 4"
  shows "take_bit 3 (drop_bit (8 * (k mod 2) + 4) (mode_reg k (oc_init n c ini t))) =
    (if k = c then drop_bit 4 (TIM_OCMode ini) else take_bit 3 (drop_bit (8 * (k mod 2) + 4) (mode_reg k t)))"
proof -
  obtain w where w: "TIM_OCMode ini = push_bit 4 (take_bit 3 w)" using assms(1) unfolding oc_valid_def by blast
  have c: "c = 0 \<or> c = 1 \<or> c = 2 \<or> c = 3" and k: "k = 0 \<or> k = 1 \<or> k = 2 \<or> k = 3" using assms(2,3) by auto
  have "take_bit 3 (drop_bit (8 * (c mod 2) + 4) (mode_reg c (oc_init n c ini t))) = take_bit 3 w"
    by (rule three_bits; use c in \<open>elim disjE; auto simp: mode_reg_def oc_init_def oc_inits Let_def bit_simps w split: prod.splits\<close>)
  moreover have "drop_bit 4 (TIM_OCMode ini) = take_bit 3 w" unfolding w by (rule bit_word_eqI) (auto simp: bit_simps)
  moreover have "take_bit 3 (drop_bit (8 * (k mod 2) + 4) (mode_reg k (oc_init n c ini t))) =
      take_bit 3 (drop_bit (8 * (k mod 2) + 4) (mode_reg k t))" if "k \<noteq> c"
    by (rule mode_field_eqI; use c k that in \<open>elim disjE; auto simp: mode_reg_def oc_init_def oc_inits Let_def bit_simps w split: prod.splits\<close>)
  ultimately show ?thesis by auto
qed

lemma pulse_OCInit:
  assumes "c < 4" and "k < 4"
  shows "get_capture k (oc_init n c ini t) = (if k = c then TIM_Pulse ini else get_capture k t)"
  using assms by (auto simp: get_capture_def compare_defs oc_init_def oc_inits Let_def split: prod.splits)

text \<open>On every timer, whichever of the four functions is called.\<close>

interpretation outputs: register_bank "oc_init n" oc_field oc_meant "\<lambda>c. c < 4" oc_valid for n
  by unfold_locales (simp_all add: oc_field_def oc_meant_def mode_OCInit CCER_OCInit CCER_OCInit(2) [simplified] pulse_OCInit)

text \<open>Changing the mode alone turns the output off and keeps everything else of all channels.\<close>

lemma SelectOCxM_field:
  assumes "c < 4" and "k < 4" and "mode = push_bit 4 (take_bit 3 w)"
  shows "\<exists>t'. TIM_SelectOCxM (4 * word_of_nat c) mode t = Inr t' \<and>
    oc_field k t' = (case oc_field k t of (m, e, p, v) \<Rightarrow> if k = c then (take_bit 3 w, False, p, v) else (m, e, p, v))"
proof -
  have c: "c = 0 \<or> c = 1 \<or> c = 2 \<or> c = 3" and k: "k = 0 \<or> k = 1 \<or> k = 2 \<or> k = 3" using assms(1,2) by auto
  obtain t' where t': "TIM_SelectOCxM (4 * word_of_nat c) mode t = Inr t'"
    using c by (auto simp: TIM_SelectOCxM_def Let_def)
  have "take_bit 3 (drop_bit (8 * (k mod 2) + 4) (mode_reg k t')) =
      (if k = c then take_bit 3 w else take_bit 3 (drop_bit (8 * (k mod 2) + 4) (mode_reg k t)))"
  proof (cases "k = c")
    case True
    have "take_bit 3 (drop_bit (8 * (k mod 2) + 4) (mode_reg k t')) = take_bit 3 w"
      by (rule three_bits; use c True t' in \<open>elim disjE; auto simp: TIM_SelectOCxM_def Let_def mode_reg_def bit_simps assms(3)\<close>)
    then show ?thesis using True by simp
  next
    case False
    have "take_bit 3 (drop_bit (8 * (k mod 2) + 4) (mode_reg k t')) = take_bit 3 (drop_bit (8 * (k mod 2) + 4) (mode_reg k t))"
      by (rule mode_field_eqI; use c k False t' in \<open>elim disjE; auto simp: TIM_SelectOCxM_def Let_def mode_reg_def bit_simps assms(3)\<close>)
    then show ?thesis using False by simp
  qed
  moreover have "bit (tim_CCER t') (4 * k) \<longleftrightarrow> k \<noteq> c \<and> bit (tim_CCER t) (4 * k)" "bit (tim_CCER t') (4 * k + 1) = bit (tim_CCER t) (4 * k + 1)"
    using c k t' by (elim disjE; auto simp: TIM_SelectOCxM_def Let_def bit_simps)+
  moreover have "get_capture k t' = get_capture k t"
    using c t' by (elim disjE) (auto simp: TIM_SelectOCxM_def Let_def get_capture_def compare_defs)
  ultimately show ?thesis using t' by (auto simp: oc_field_def)
qed

subsection \<open>Captures\<close>

text \<open>Selected input, prescaler and filter of an input, its enabled bit and its two polarity bits.\<close>

definition ic_field :: "nat \<Rightarrow> TIM_TypeDef \<Rightarrow> u16 \<times> bool \<times> bool \<times> bool" where
  "ic_field c t =
     (take_bit 8 (drop_bit (8 * (c mod 2)) (mode_reg c t)), bit (tim_CCER t) (4 * c), bit (tim_CCER t) (4 * c + 1),
      bit (tim_CCER t) (4 * c + 3))"

definition ic_init :: "nat \<Rightarrow> TIM_ICInitTypeDef \<Rightarrow> TIM_TypeDef \<Rightarrow> TIM_TypeDef" where
  "ic_init c ini = TIM_ICInit (ini\<lparr>TIM_Channel := 4 * word_of_nat c\<rparr>)"

definition ic_meant :: "TIM_ICInitTypeDef \<Rightarrow> u16 \<times> bool \<times> bool \<times> bool" where
  "ic_meant ini =
     (TIM_ICSelection ini OR TIM_ICPrescaler ini OR push_bit 4 (TIM_ICFilter ini), True, bit (TIM_ICPolarity ini) 1,
      bit (TIM_ICPolarity ini) 3)"

text \<open>The values the header names: the polarity is rising, falling or both edges.\<close>

definition ic_valid :: "TIM_ICInitTypeDef \<Rightarrow> bool" where
  "ic_valid ini \<longleftrightarrow>
     TIM_ICSelection ini = take_bit 2 (TIM_ICSelection ini) \<and>
     TIM_ICPrescaler ini = push_bit 2 (take_bit 2 (drop_bit 2 (TIM_ICPrescaler ini))) \<and>
     TIM_ICFilter ini = take_bit 4 (TIM_ICFilter ini) \<and> TIM_ICPolarity ini \<in> {0x0000, 0x0002, 0x000A}"

lemmas ic_inits = TIM_ICInit_def TI1_Config_def TI2_Config_def TI3_Config_def TI4_Config_def TIM_SetIC1Prescaler_def
  TIM_SetIC2Prescaler_def TIM_SetIC3Prescaler_def TIM_SetIC4Prescaler_def

lemma eight_bits:
  assumes "bit x 0 = bit y 0" "bit x 1 = bit y 1" "bit x 2 = bit y 2" "bit x 3 = bit y 3"
    and "bit x 4 = bit y 4" "bit x 5 = bit y 5" "bit x 6 = bit y 6" "bit x 7 = bit y 7"
  shows "take_bit 8 x = (take_bit 8 y :: u16)"
proof (rule bit_word_eqI)
  fix i :: nat
  have "i = 0 \<or> i = 1 \<or> i = 2 \<or> i = 3 \<or> i = 4 \<or> i = 5 \<or> i = 6 \<or> i = 7 \<or> 8 \<le> i" by linarith
  then show "bit (take_bit 8 x) i = bit (take_bit 8 y) i" by (elim disjE) (simp_all add: bit_take_bit_iff assms assms(2) [simplified])
qed

lemma CCER_ICInit:
  assumes "ic_valid ini" and "c < 4" and "k < 4"
  shows "bit (tim_CCER (ic_init c ini t)) (4 * k) = (if k = c then True else bit (tim_CCER t) (4 * k))"
    and "bit (tim_CCER (ic_init c ini t)) (4 * k + 1) = (if k = c then bit (TIM_ICPolarity ini) 1 else bit (tim_CCER t) (4 * k + 1))"
    and "bit (tim_CCER (ic_init c ini t)) (4 * k + 3) = (if k = c then bit (TIM_ICPolarity ini) 3 else bit (tim_CCER t) (4 * k + 3))"
proof -
  have c: "c = 0 \<or> c = 1 \<or> c = 2 \<or> c = 3" and k: "k = 0 \<or> k = 1 \<or> k = 2 \<or> k = 3" using assms(2,3) by auto
  have p: "TIM_ICPolarity ini = 0x0000 \<or> TIM_ICPolarity ini = 0x0002 \<or> TIM_ICPolarity ini = 0x000A"
    using assms(1) by (auto simp: ic_valid_def)
  show "bit (tim_CCER (ic_init c ini t)) (4 * k) = (if k = c then True else bit (tim_CCER t) (4 * k))"
    "bit (tim_CCER (ic_init c ini t)) (4 * k + 1) = (if k = c then bit (TIM_ICPolarity ini) 1 else bit (tim_CCER t) (4 * k + 1))"
    "bit (tim_CCER (ic_init c ini t)) (4 * k + 3) = (if k = c then bit (TIM_ICPolarity ini) 3 else bit (tim_CCER t) (4 * k + 3))"
    using c k p by (elim disjE; simp add: ic_init_def ic_inits Let_def bit_simps)+
qed

lemma mode_ICInit:
  assumes "ic_valid ini" and "c < 4" and "k < 4"
  shows "take_bit 8 (drop_bit (8 * (k mod 2)) (mode_reg k (ic_init c ini t))) =
    (if k = c then TIM_ICSelection ini OR TIM_ICPrescaler ini OR push_bit 4 (TIM_ICFilter ini)
     else take_bit 8 (drop_bit (8 * (k mod 2)) (mode_reg k t)))"
proof -
  obtain u v w where w: "TIM_ICSelection ini = take_bit 2 u" "TIM_ICPrescaler ini = push_bit 2 (take_bit 2 v)" "TIM_ICFilter ini = take_bit 4 w"
    using assms(1) unfolding ic_valid_def by blast
  have c: "c = 0 \<or> c = 1 \<or> c = 2 \<or> c = 3" and k: "k = 0 \<or> k = 1 \<or> k = 2 \<or> k = 3" using assms(2,3) by auto
  have "take_bit 8 (take_bit 2 u OR push_bit 2 (take_bit 2 v) OR push_bit 4 (take_bit 4 w)) =
      take_bit 2 u OR push_bit 2 (take_bit 2 v) OR push_bit 4 (take_bit 4 w)"
    by (rule bit_word_eqI) (auto simp: bit_simps)
  moreover have "take_bit 8 (drop_bit (8 * (c mod 2)) (mode_reg c (ic_init c ini t))) =
      take_bit 8 (take_bit 2 u OR push_bit 2 (take_bit 2 v) OR push_bit 4 (take_bit 4 w))"
    by (rule eight_bits; use c in \<open>elim disjE; simp add: mode_reg_def ic_init_def ic_inits Let_def bit_simps w\<close>)
  moreover have "take_bit 8 (drop_bit (8 * (k mod 2)) (mode_reg k (ic_init c ini t))) =
      take_bit 8 (drop_bit (8 * (k mod 2)) (mode_reg k t))" if "k \<noteq> c"
    by (rule eight_bits; use c k that in \<open>elim disjE; simp add: mode_reg_def ic_init_def ic_inits Let_def bit_simps w\<close>)
  ultimately show ?thesis using w by auto
qed

interpretation captures: register_bank ic_init ic_field ic_meant "\<lambda>c. c < 4" ic_valid
  by unfold_locales
    (simp_all add: ic_field_def ic_meant_def mode_ICInit CCER_ICInit CCER_ICInit(2) [simplified] CCER_ICInit(3) [simplified])

text \<open>Measuring a pulse width is two captures, on both edges of the one input.\<close>

lemma PWMIConfig_captures:
  assumes "TIM_Channel ini = 0x0000 \<or> TIM_Channel ini = 0x0004"
  defines "other \<equiv> ini\<lparr>TIM_ICPolarity := if TIM_ICPolarity ini = 0 then 2 else 0, TIM_ICSelection := if TIM_ICSelection ini = 1 then 2 else 1\<rparr>"
  shows "TIM_PWMIConfig ini t = (if TIM_Channel ini = 0 then ic_init 1 other (ic_init 0 ini t) else ic_init 0 other (ic_init 1 ini t))"
  using assms by (auto simp: TIM_PWMIConfig_def ic_init_def TIM_ICInit_def other_def Let_def)

subsection \<open>Switches of a timer\<close>

lemma bit_put_switch16: "n < 16 \<Longrightarrow> k < 16 \<Longrightarrow> bit (put_bits b (push_bit n (1 :: u16)) r) k = (if k = n then b else bit r k)"
  by (auto simp: bit_put_bits bit_simps)

interpretation timer_it: switches "\<lambda>n. TIM_ITConfig (push_bit n 1)" "\<lambda>n t. bit (tim_DIER t) n" "\<lambda>n. n < 16"
  by unfold_locales (simp_all add: TIM_ITConfig_def bit_put_switch16 del: push_bit_of_1)

interpretation timer_dma: switches "\<lambda>n. TIM_DMACmd (push_bit n 1)" "\<lambda>n t. bit (tim_DIER t) n" "\<lambda>n. n < 16"
  by unfold_locales (simp_all add: TIM_DMACmd_def bit_put_switch16 del: push_bit_of_1)

end
