(* ===== verification/Board_Properties.thy ===== *)
theory Board_Properties
  imports Stm_Startup Stm_Channels
begin

section \<open>Properties of the board\<close>













end
