(* ===== verification/Lsh_Parse.thy ===== *)
theory Lsh_Parse
  imports C_Text
begin

section \<open>The shell: parsing a command line\<close>

text \<open>
  \<open>OS-lab1/code/parse.c\<close>. Tokens are copied into the static buffer \<open>cbuf\<close>; a token is the index of
  its first character there. \<open>pbuf\<close> holds the argument lists, each ended by a null pointer, and
  \<open>cmdbuf\<close> the commands. None of the three is bounds-checked by the code: running over the end is a
  fault here. The line is given as its characters before the zero.
\<close>

record pgm_node =
  pgmlist :: nat
  pgm_next :: "nat option"

record pstate =
  cbuf :: string
  cbuf_p :: nat
  pbuf :: "nat option list"
  pbuf_p :: nat
  cmdbuf :: "pgm_node list"
  cmds :: "nat option"

record Command =
  pgm :: "nat option"
  rstdin :: "nat option"
  rstdout :: "nat option"
  background :: bool

definition isspec :: "char \<Rightarrow> bool" where
  "isspec c \<longleftrightarrow> c = CHR ''|'' \<or> c = CHR ''&'' \<or> c = CHR ''<'' \<or> c = CHR ''>''"

definition IDCHARS :: string where "IDCHARS = ''_-.,/~+''"

fun isidentifier :: "string \<Rightarrow> bool" where
  "isidentifier [] = True"
| "isidentifier (c # s) = ((is_alnum c \<or> c \<in> set IDCHARS) \<and> isidentifier s)"

text \<open>\<open>init\<close>: the free list runs through the array.\<close>

definition init :: "pstate \<Rightarrow> pstate" where
  "init ps = ps\<lparr>cmdbuf := map (\<lambda>(i, c). c\<lparr>pgm_next := (if i < 19 then Some (i + 1) else None)\<rparr>) (enumerate 0 (cmdbuf ps)),
     cmds := Some 0, cbuf_p := 0, pbuf_p := 0\<rparr>"

definition put_char :: "char \<Rightarrow> pstate \<Rightarrow> pstate res" where
  "put_char c ps = bnd (aset (cbuf ps) (cbuf_p ps) c) (\<lambda>b. Inr (ps\<lparr>cbuf := b, cbuf_p := cbuf_p ps + 1\<rparr>))"

text \<open>
  \<open>do c = *cp++ = *s++; while (!isspace(c) && !isspec(c) && c != '\0')\<close>: the number of characters
  read before the one that ends the loop.
\<close>

fun word_loop :: "string \<Rightarrow> pstate \<Rightarrow> (nat \<times> pstate) res" where
  "word_loop [] ps = bnd (put_char NUL ps) (\<lambda>ps'. Inr (0, ps'))"
| "word_loop (c # s) ps =
     bnd (put_char c ps) (\<lambda>ps'.
       if is_space c \<or> isspec c then Inr (0, ps')
       else bnd (word_loop s ps') (\<lambda>(n, ps''). Inr (Suc n, ps'')))"

text \<open>The characters consumed, the token, the buffers.\<close>

definition nexttoken :: "string \<Rightarrow> pstate \<Rightarrow> (nat \<times> nat \<times> pstate) res" where
  "nexttoken s ps =
     (let tok = cbuf_p ps; k = length (takeWhile is_space s)
      in case dropWhile is_space s of
           [] \<Rightarrow> Inr (0, tok, ps)
         | c # r \<Rightarrow>
             if isspec c
             then bnd (put_char c ps) (\<lambda>ps1. bnd (put_char NUL ps1) (\<lambda>ps2. Inr (k + 1, tok, ps2)))
             else bnd (put_char c ps) (\<lambda>ps1. bnd (word_loop r ps1) (\<lambda>(n, ps2).
                  bnd (put_char NUL (ps2\<lparr>cbuf_p := cbuf_p ps2 - 1\<rparr>)) (\<lambda>ps3. Inr (k + 1 + n, tok, ps3)))))"

definition push_arg :: "nat option \<Rightarrow> pstate \<Rightarrow> pstate res" where
  "push_arg a ps = bnd (aset (pbuf ps) (pbuf_p ps) a) (\<lambda>b. Inr (ps\<lparr>pbuf := b, pbuf_p := pbuf_p ps + 1\<rparr>))"

text \<open>What the two recursions over the line need to know of a token.\<close>

lemma nexttoken_Nil: "nexttoken [] ps = Inr (0, cbuf_p ps, ps)"
  by (simp add: nexttoken_def)

lemma nexttoken_drop_less:
  "nexttoken s ps = Inr (n, tok, ps') \<Longrightarrow> n \<noteq> 0 \<Longrightarrow> length (drop n s) < length s"
  by (cases s) (auto simp: nexttoken_Nil)

lemma bnd_cong [fundef_cong]:
  "m = m' \<Longrightarrow> (\<And>x. m' = Inr x \<Longrightarrow> f x = g x) \<Longrightarrow> bnd m f = bnd m' g"
  by (cases m') simp_all

function acmd_loop :: "string \<Rightarrow> nat \<Rightarrow> pstate \<Rightarrow> (nat \<times> pstate) res" where
  "acmd_loop s cnt ps =
     bnd (nexttoken s ps) (\<lambda>(n, tok, ps1).
       if n = 0 then bnd (push_arg None ps1) (\<lambda>ps2. Inr (cnt, ps2))
       else bnd (aget (cbuf ps1) tok) (\<lambda>c.
         if isspec c then bnd (push_arg None ps1) (\<lambda>ps2. Inr (cnt, ps2))
         else bnd (push_arg (Some tok) ps1) (\<lambda>ps2. acmd_loop (drop n s) (cnt + n) ps2)))"
  by pat_completeness auto

termination
  by (relation "measure (\<lambda>(s, _, _). length s)") (auto dest: nexttoken_drop_less)

declare acmd_loop.simps [simp del]

text \<open>The characters consumed and the command; the 21st command dereferences the end of the free list.\<close>

definition acmd :: "string \<Rightarrow> pstate \<Rightarrow> (nat \<times> nat \<times> pstate) res" where
  "acmd s ps =
     bnd (deref (cmds ps)) (\<lambda>cmd0.
     bnd (aget (cmdbuf ps) cmd0) (\<lambda>node.
     bnd (aset (cmdbuf ps) cmd0 \<lparr>pgmlist = pbuf_p ps, pgm_next = None\<rparr>) (\<lambda>b.
     bnd (acmd_loop s 0 (ps\<lparr>cmds := pgm_next node, cmdbuf := b\<rparr>)) (\<lambda>(cnt, ps'). Inr (cnt, cmd0, ps')))))"

lemma acmd_drop_less:
  "acmd t ps = Inr (n, c, ps') \<Longrightarrow> 0 < n \<Longrightarrow> length (drop n t) < length t"
proof (cases t)
  case Nil
  moreover assume "acmd t ps = Inr (n, c, ps')" "0 < n"
  ultimately show ?thesis by (auto simp: acmd_def acmd_loop.simps nexttoken_Nil)
qed simp

text \<open>The string a token points to.\<close>

definition str_at :: "string \<Rightarrow> nat \<Rightarrow> string res" where
  "str_at b p = (if NUL \<in> set (drop p b) then Inr (cstr (drop p b)) else Inl OutOfBounds)"

text \<open>
  The body of \<open>parse\<close>: \<open>True\<close> is the label \<open>newcmd\<close>, \<open>False\<close> the label \<open>newtoken\<close>. A missing file name is
  not noticed: \<open>nexttoken\<close> never returns a negative number.
\<close>

function parse_from :: "bool \<Rightarrow> string \<Rightarrow> Command \<Rightarrow> pstate \<Rightarrow> (int \<times> Command \<times> pstate) res" where
  "parse_from True t c ps =
     bnd (acmd t ps) (\<lambda>(n, cmd0, ps1).
       if n \<le> 0 then Inr (- 1, c, ps1)
       else bnd (aget (cmdbuf ps1) cmd0) (\<lambda>node.
            bnd (aset (cmdbuf ps1) cmd0 (node\<lparr>pgm_next := pgm c\<rparr>)) (\<lambda>b.
              parse_from False (drop n t) (c\<lparr>pgm := Some cmd0\<rparr>) (ps1\<lparr>cmdbuf := b\<rparr>))))"
| "parse_from False t c ps =
     bnd (nexttoken t ps) (\<lambda>(n, tok, ps1).
       if n = 0 then Inr (1, c, ps1)
       else bnd (aget (cbuf ps1) tok) (\<lambda>ch.
         if ch = CHR ''|'' then parse_from True (drop n t) c ps1
         else if ch = CHR ''&''
         then bnd (nexttoken (drop n t) ps1) (\<lambda>(n2, tok2, ps2).
                if n2 = 0 then Inr (1, c\<lparr>background := True\<rparr>, ps2) else Inr (- 1, c, ps2))
         else if ch = CHR ''<''
         then if rstdin c \<noteq> None then Inr (- 1, c, ps1)
              else bnd (nexttoken (drop n t) ps1) (\<lambda>(n2, tok2, ps2).
                   bnd (str_at (cbuf ps2) tok2) (\<lambda>name.
                     if \<not> isidentifier name then Inr (- 1, c\<lparr>rstdin := Some tok2\<rparr>, ps2)
                     else parse_from False (drop n2 (drop n t)) (c\<lparr>rstdin := Some tok2\<rparr>) ps2))
         else if ch = CHR ''>''
         then if rstdout c \<noteq> None then Inr (- 1, c, ps1)
              else bnd (nexttoken (drop n t) ps1) (\<lambda>(n2, tok2, ps2).
                   bnd (str_at (cbuf ps2) tok2) (\<lambda>name.
                     if \<not> isidentifier name then Inr (- 1, c\<lparr>rstdout := Some tok2\<rparr>, ps2)
                     else parse_from False (drop n2 (drop n t)) (c\<lparr>rstdout := Some tok2\<rparr>) ps2))
         else Inr (- 1, c, ps1)))"
  by pat_completeness auto

termination
proof (relation "measure (\<lambda>(_, t, _, _). length t)", goal_cases)
  case (2 t c ps x n cmd0 ps1)
  then show ?case using acmd_drop_less by fastforce
next
  case (3 t c ps x n y tok ps1)
  then show ?case using nexttoken_drop_less by fastforce
next
  case (4 t c ps x n y tok ps1 z x2 n2 y2 tok2 ps2)
  then have "length (drop n t) < length t" using nexttoken_drop_less by fastforce
  then show ?case by (simp add: length_drop)
next
  case (5 t c ps x n y tok ps1 z x2 n2 y2 tok2 ps2)
  then have "length (drop n t) < length t" using nexttoken_drop_less by fastforce
  then show ?case by (simp add: length_drop)
qed simp

declare parse_from.simps [simp del]

definition parse :: "string \<Rightarrow> pstate \<Rightarrow> (int \<times> Command \<times> pstate) res" where
  "parse buf ps = parse_from True buf \<lparr>pgm = None, rstdin = None, rstdout = None, background = False\<rparr> (init ps)"

text \<open>The static buffers before the first line.\<close>

definition pstate0 :: pstate where
  "pstate0 = \<lparr>cbuf = replicate 256 NUL, cbuf_p = 0, pbuf = replicate 50 None, pbuf_p = 0,
     cmdbuf = replicate 20 \<lparr>pgmlist = 0, pgm_next = None\<rparr>, cmds = None\<rparr>"

end
