(* ===== verification/Lsh_Grammar.thy ===== *)
theory Lsh_Grammar
  imports Lsh_Parse
begin

section \<open>The shell: the grammar the parser implements\<close>

text \<open>
  The abstract side of the parser: a line is a list of tokens, a command a list of programs (each
  a list of words) with optional redirections and a background mark. \<open>parse_refines\<close> shows that the
  pointers of \<open>parse.c\<close> represent exactly that, as long as the static buffers suffice, which lines of
  at most 39 characters guarantee.
\<close>

datatype tok = Word string | Spec char

definition wordchar :: "char \<Rightarrow> bool" where "wordchar c \<longleftrightarrow> \<not> is_space c \<and> \<not> isspec c"

lemma dropWhile_shorter: "dropWhile P s = c # r \<Longrightarrow> length r < length s"
  using length_dropWhile_le [of P s] by simp

function tokens :: "string \<Rightarrow> tok list" where
  "tokens s = (case dropWhile is_space s of
       [] \<Rightarrow> []
     | c # r \<Rightarrow> if isspec c then Spec c # tokens r else Word (c # takeWhile wordchar r) # tokens (dropWhile wordchar r))"
  by pat_completeness auto

termination
proof (relation "measure length", simp)
  fix s c and r :: string
  assume a: "dropWhile is_space s = c # r"
  show "(r, s) \<in> measure length" using dropWhile_shorter [OF a] by simp
  show "(dropWhile wordchar r, s) \<in> measure length"
    using dropWhile_shorter [OF a] length_dropWhile_le [of wordchar r] by simp
qed

declare tokens.simps [simp del]

lemma tokens_Nil: "dropWhile is_space s = [] \<Longrightarrow> tokens s = []"
  by (subst tokens.simps) (simp only: list.case)

lemma tokens_Spec: "dropWhile is_space s = c # r \<Longrightarrow> isspec c \<Longrightarrow> tokens s = Spec c # tokens r"
  by (subst tokens.simps) (simp only: list.case if_True)

lemma tokens_Word:
  "dropWhile is_space s = c # r \<Longrightarrow> \<not> isspec c \<Longrightarrow>
     tokens s = Word (c # takeWhile wordchar r) # tokens (dropWhile wordchar r)"
  by (subst tokens.simps) (simp only: list.case if_False)

lemmas tokens_simps = tokens_Nil tokens_Spec tokens_Word

record parsed =
  progs :: "string list list"
  p_in :: "string option"
  p_out :: "string option"
  p_bg :: bool

fun is_word :: "tok \<Rightarrow> bool" where
  "is_word (Word w) = True"
| "is_word (Spec c) = False"

fun the_word :: "tok \<Rightarrow> string" where
  "the_word (Word w) = w"
| "the_word (Spec c) = []"

function parse_toks :: "bool \<Rightarrow> tok list \<Rightarrow> parsed \<Rightarrow> parsed option" where
  "parse_toks True ts sp =
     (if takeWhile is_word ts = [] then None
      else parse_toks False (dropWhile is_word ts) (sp\<lparr>progs := progs sp @ [map the_word (takeWhile is_word ts)]\<rparr>))"
| "parse_toks False [] sp = Some sp"
| "parse_toks False (t # ts) sp =
     (if t = Spec CHR ''|'' then parse_toks True ts sp
      else if t = Spec CHR ''&'' then if ts = [] then Some (sp\<lparr>p_bg := True\<rparr>) else None
      else if t = Spec CHR ''<''
      then if p_in sp \<noteq> None then None
           else case ts of
                  Word w # ts' \<Rightarrow> if isidentifier w then parse_toks False ts' (sp\<lparr>p_in := Some w\<rparr>) else None
                | _ \<Rightarrow> None
      else if t = Spec CHR ''>''
      then if p_out sp \<noteq> None then None
           else case ts of
                  Word w # ts' \<Rightarrow> if isidentifier w then parse_toks False ts' (sp\<lparr>p_out := Some w\<rparr>) else None
                | _ \<Rightarrow> None
      else None)"
  by pat_completeness auto

termination
proof (relation "measure (\<lambda>(_, ts, _). length ts)", goal_cases)
  case (2 ts sp)
  then have "dropWhile is_word ts \<noteq> ts"
    by (metis append_self_conv2 takeWhile_dropWhile_id append_same_eq)
  then show ?case using length_dropWhile_le [of is_word ts]
    by (metis (no_types, lifting) append_Nil case_prod_conv in_measure le_neq_implies_less length_append
        length_greater_0_conv 2 less_add_same_cancel2 takeWhile_dropWhile_id)
qed auto

text \<open>A redirection without a file name at the end of the line is treated separately.\<close>

definition dangling :: "tok list \<Rightarrow> bool" where
  "dangling ts \<longleftrightarrow> ts \<noteq> [] \<and> (last ts = Spec CHR ''<'' \<or> last ts = Spec CHR ''>'')"

definition grammar :: "string \<Rightarrow> parsed option" where
  "grammar s = parse_toks True (tokens s) \<lparr>progs = [], p_in = None, p_out = None, p_bg = False\<rparr>"

subsection \<open>Tokens\<close>

lemma isspec_facts: "isspec c \<Longrightarrow> \<not> is_space c" "\<not> isspec NUL" "isspec c \<Longrightarrow> c \<noteq> NUL"
  by (auto simp: isspec_def is_space_def)

fun tlen :: "tok \<Rightarrow> nat" where
  "tlen (Word w) = length w"
| "tlen (Spec c) = 1"

lemma tokens_length: "sum_list (map tlen (tokens s)) \<le> length s"
proof (induction s rule: tokens.induct)
  case (1 s)
  show ?case
  proof (cases "dropWhile is_space s")
    case Nil
    then show ?thesis using tokens_Nil by simp
  next
    case (Cons c r)
    have "length (takeWhile wordchar r) + length (dropWhile wordchar r) = length r"
      by (metis length_append takeWhile_dropWhile_id)
    with 1 [OF Cons] dropWhile_shorter [OF Cons] tokens_Spec [OF Cons] tokens_Word [OF Cons] show ?thesis
      by (cases "isspec c") simp_all
  qed
qed

lemma tokens_word:
  "NUL \<notin> set s \<Longrightarrow> Word w \<in> set (tokens s) \<Longrightarrow> w \<noteq> [] \<and> NUL \<notin> set w \<and> \<not> isspec (hd w)"
proof (induction s rule: tokens.induct)
  case (1 s)
  show ?case
  proof (cases "dropWhile is_space s")
    case Nil
    with "1.prems" show ?thesis by (simp add: tokens_Nil)
  next
    case (Cons c r)
    then have "set (c # r) \<subseteq> set s" by (metis set_dropWhileD subsetI)
    then have cr: "c \<noteq> NUL" "NUL \<notin> set r" using "1.prems"(1) by auto
    then have sub: "NUL \<notin> set (dropWhile wordchar r)" "NUL \<notin> set (takeWhile wordchar r)"
      by (auto dest: set_dropWhileD set_takeWhileD)
    show ?thesis
    proof (cases "isspec c")
      case True
      then show ?thesis using 1(1) [OF Cons True cr(2)] "1.prems"(2) tokens_Spec [OF Cons] by simp
    next
      case False
      then show ?thesis using 1(2) [OF Cons False sub(1)] "1.prems"(2) tokens_Word [OF Cons] sub cr by auto
    qed
  qed
qed

text \<open>The frame of every write: what lies below the two write positions stays.\<close>

definition extends :: "pstate \<Rightarrow> pstate \<Rightarrow> bool" where
  "extends ps ps' \<longleftrightarrow> cbuf_p ps \<le> cbuf_p ps' \<and> take (cbuf_p ps) (cbuf ps') = take (cbuf_p ps) (cbuf ps)
     \<and> pbuf_p ps \<le> pbuf_p ps' \<and> take (pbuf_p ps) (pbuf ps') = take (pbuf_p ps) (pbuf ps)
     \<and> length (cbuf ps') = length (cbuf ps) \<and> length (pbuf ps') = length (pbuf ps)"

lemma extends_refl [simp]: "extends ps ps" by (simp add: extends_def)

lemma take_le_eq: "m \<le> n \<Longrightarrow> take n xs = take n ys \<Longrightarrow> take m xs = take m ys"
  by (metis min.absorb1 take_take)

lemma extends_trans: "extends a b \<Longrightarrow> extends b c \<Longrightarrow> extends a c"
proof -
  assume a: "extends a b" and b: "extends b c"
  have "take (cbuf_p a) (cbuf c) = take (cbuf_p a) (cbuf b)" "take (pbuf_p a) (pbuf c) = take (pbuf_p a) (pbuf b)"
    using a b take_le_eq [of "cbuf_p a" "cbuf_p b" "cbuf c" "cbuf b"]
      take_le_eq [of "pbuf_p a" "pbuf_p b" "pbuf c" "pbuf b"] by (simp_all only: extends_def simp_thms)
  with a b show ?thesis by (simp add: extends_def)
qed

definition tok_rep :: "pstate \<Rightarrow> nat \<Rightarrow> string \<Rightarrow> bool" where
  "tok_rep ps p w \<longleftrightarrow> p + length w < cbuf_p ps \<and> cbuf_p ps \<le> length (cbuf ps) \<and> NUL \<notin> set w
     \<and> take (length w + 1) (drop p (cbuf ps)) = w @ [NUL]"

lemma tok_rep_extends: "tok_rep ps p w \<Longrightarrow> extends ps ps' \<Longrightarrow> cbuf_p ps' \<le> length (cbuf ps') \<Longrightarrow> tok_rep ps' p w"
proof -
  assume t: "tok_rep ps p w" and e: "extends ps ps'" and l: "cbuf_p ps' \<le> length (cbuf ps')"
  have "take (p + (length w + 1)) (cbuf ps') = take (p + (length w + 1)) (cbuf ps)"
    using t e take_le_eq [of "p + (length w + 1)" "cbuf_p ps" "cbuf ps'" "cbuf ps"]
    unfolding tok_rep_def extends_def by linarith
  then have "take (length w + 1) (drop p (cbuf ps')) = take (length w + 1) (drop p (cbuf ps))"
    by (simp only: take_drop add.commute [of "length w + 1" p])
  with t e l show ?thesis unfolding tok_rep_def extends_def
    by - (elim conjE, intro conjI; (linarith | assumption | (rule trans, assumption, assumption)))
qed

lemma tok_rep_split: "tok_rep ps p w \<Longrightarrow> \<exists>r. drop p (cbuf ps) = w @ NUL # r"
proof -
  assume "tok_rep ps p w"
  then have "drop p (cbuf ps) = (w @ [NUL]) @ drop (length w + 1) (drop p (cbuf ps))"
    unfolding tok_rep_def by (metis append_take_drop_id)
  then show ?thesis by (simp only: append_assoc append_Cons append_Nil) blast
qed

lemma tok_rep_str: "tok_rep ps p w \<Longrightarrow> str_at (cbuf ps) p = Inr w"
  using tok_rep_split [of ps p w] cstr_no_NUL [of w] by (auto simp: str_at_def tok_rep_def)

lemma tok_rep_first: "tok_rep ps p w \<Longrightarrow> w \<noteq> [] \<Longrightarrow> aget (cbuf ps) p = Inr (hd w)"
proof -
  assume t: "tok_rep ps p w" and w: "w \<noteq> []"
  then obtain r where r: "drop p (cbuf ps) = w @ NUL # r" using tok_rep_split by blast
  then have p: "p < length (cbuf ps)" by (metis drop_eq_Nil append_is_Nil_conv list.distinct(1) not_less)
  moreover have "cbuf ps ! p = hd (drop p (cbuf ps))" using p by (simp add: hd_drop_conv_nth)
  ultimately show ?thesis using r w by simp
qed

subsection \<open>Reading one token\<close>

lemma put_char_ok:
  "cbuf_p ps < length (cbuf ps) \<Longrightarrow> put_char c ps = Inr (ps\<lparr>cbuf := (cbuf ps)[cbuf_p ps := c], cbuf_p := cbuf_p ps + 1\<rparr>)"
  by (simp add: put_char_def)

lemma word_loop_word:
  "cbuf_p ps + length (takeWhile wordchar s) < length (cbuf ps) \<Longrightarrow>
     \<exists>b. word_loop s ps = Inr (length (takeWhile wordchar s),
           ps\<lparr>cbuf := b, cbuf_p := cbuf_p ps + length (takeWhile wordchar s) + 1\<rparr>)
       \<and> length b = length (cbuf ps)
       \<and> take (cbuf_p ps + length (takeWhile wordchar s)) b = take (cbuf_p ps) (cbuf ps) @ takeWhile wordchar s"
proof (induction s arbitrary: ps)
  case Nil
  then show ?case by (intro exI [of _ "(cbuf ps)[cbuf_p ps := NUL]"]) (simp add: put_char_ok)
next
  case (Cons c s)
  let ?ps = "ps\<lparr>cbuf := (cbuf ps)[cbuf_p ps := c], cbuf_p := cbuf_p ps + 1\<rparr>"
  have put: "put_char c ps = Inr ?ps" using Cons.prems by (simp add: put_char_ok)
  show ?case
  proof (cases "wordchar c")
    case False
    then show ?thesis using put Cons.prems
      by (intro exI [of _ "(cbuf ps)[cbuf_p ps := c]"]) (simp add: wordchar_def)
  next
    case True
    then have "cbuf_p ?ps + length (takeWhile wordchar s) < length (cbuf ?ps)" using Cons.prems by simp
    from Cons.IH [OF this] obtain b where
      b: "word_loop s ?ps = Inr (length (takeWhile wordchar s), ?ps\<lparr>cbuf := b, cbuf_p := cbuf_p ?ps + length (takeWhile wordchar s) + 1\<rparr>)"
        "length b = length (cbuf ps)"
        "take (cbuf_p ?ps + length (takeWhile wordchar s)) b = take (cbuf_p ?ps) (cbuf ?ps) @ takeWhile wordchar s"
      by auto
    have *: "take (Suc (cbuf_p ps)) ((cbuf ps)[cbuf_p ps := c]) = take (cbuf_p ps) (cbuf ps) @ [c]"
      using Cons.prems by (simp add: take_Suc_conv_app_nth)
    have "\<not> is_space c" "\<not> isspec c" using True by (simp_all add: wordchar_def)
    with b put True * show ?thesis by (intro exI [of _ b]) simp
  qed
qed

lemma nexttoken_end: "tokens s = [] \<Longrightarrow> nexttoken s ps = Inr (0, cbuf_p ps, ps)"
proof (cases "dropWhile is_space s")
  case Nil
  then show ?thesis unfolding nexttoken_def Let_def by (simp only: list.case)
next
  case (Cons c r)
  moreover assume "tokens s = []"
  ultimately show ?thesis using tokens_Spec [of s c r] tokens_Word [of s c r] by (cases "isspec c") auto
qed

lemma nexttoken_Spec:
  "dropWhile is_space s = c # r \<Longrightarrow> isspec c \<Longrightarrow> nexttoken s ps =
     bnd (put_char c ps) (\<lambda>ps1. bnd (put_char NUL ps1) (\<lambda>ps2. Inr (length (takeWhile is_space s) + 1, cbuf_p ps, ps2)))"
  unfolding nexttoken_def Let_def by (simp only: list.case if_True)

lemma nexttoken_Word:
  "dropWhile is_space s = c # r \<Longrightarrow> \<not> isspec c \<Longrightarrow> nexttoken s ps =
     bnd (put_char c ps) (\<lambda>ps1. bnd (word_loop r ps1) (\<lambda>(n, ps2).
       bnd (put_char NUL (ps2\<lparr>cbuf_p := cbuf_p ps2 - 1\<rparr>)) (\<lambda>ps3.
         Inr (length (takeWhile is_space s) + 1 + n, cbuf_p ps, ps3))))"
  unfolding nexttoken_def Let_def by (simp only: list.case if_False)

lemma drop_after: "dropWhile P s = c # r \<Longrightarrow> drop (length (takeWhile P s) + (1 + n)) s = drop n r"
  by (metis add.commute append_eq_conv_conj drop_drop drop_Suc_Cons plus_1_eq_Suc takeWhile_dropWhile_id)

definition tok_string :: "tok \<Rightarrow> string" where
  "tok_string t = (case t of Word w \<Rightarrow> w | Spec c \<Rightarrow> [c])"

lemma length_tok_string: "length (tok_string t) = tlen t"
  by (cases t) (simp_all add: tok_string_def)

text \<open>Either kind of token: what is consumed, what is written, what is left.\<close>

lemma nexttoken_tok:
  assumes l: "tokens s = t # ts" and n: "NUL \<notin> set s" and room: "cbuf_p ps + tlen t + 1 \<le> length (cbuf ps)"
  shows "\<exists>k b. nexttoken s ps = Inr (k, cbuf_p ps, ps\<lparr>cbuf := b, cbuf_p := cbuf_p ps + tlen t + 1\<rparr>)
    \<and> tlen t \<le> k \<and> 0 < k \<and> k \<le> length s \<and> tokens (drop k s) = ts \<and> length b = length (cbuf ps)
    \<and> take (cbuf_p ps) b = take (cbuf_p ps) (cbuf ps)
    \<and> tok_rep (ps\<lparr>cbuf := b, cbuf_p := cbuf_p ps + tlen t + 1\<rparr>) (cbuf_p ps) (tok_string t)"
proof -
  let ?p = "cbuf_p ps"
  obtain c r where cr: "dropWhile is_space s = c # r"
    using l tokens_Nil [of s] by (cases "dropWhile is_space s") auto
  let ?k = "length (takeWhile is_space s)"
  have ks: "?k + length r + 1 = length s"
    using cr by (metis Suc_eq_plus1 add_Suc_right length_Cons length_append takeWhile_dropWhile_id)
  have cn: "c \<noteq> NUL" "NUL \<notin> set r"
    using n cr set_dropWhileD [of _ is_space s] by auto
  show ?thesis
  proof (cases "isspec c")
    case True
    then have t: "t = Spec c" "ts = tokens r" using l tokens_Spec [OF cr] by simp_all
    let ?b = "(cbuf ps)[?p := c, ?p + 1 := NUL]"
    have "nexttoken s ps = Inr (?k + 1, ?p, ps\<lparr>cbuf := ?b, cbuf_p := ?p + 1 + 1\<rparr>)"
      using room t by (simp add: nexttoken_Spec [OF cr True] put_char_ok)
    moreover have "tokens (drop (?k + 1) s) = ts" using drop_after [OF cr, of 0] t by simp
    moreover have "take 2 (drop ?p ?b) = [c, NUL]"
    proof -
      have "drop ?p ?b = c # NUL # drop (?p + 2) (cbuf ps)"
        using room t by (simp add: drop_update_swap Cons_nth_drop_Suc [symmetric])
      then show ?thesis by simp
    qed
    then have "tok_rep (ps\<lparr>cbuf := ?b, cbuf_p := ?p + 1 + 1\<rparr>) ?p [c]"
      using room t cn by (simp add: tok_rep_def numeral_2_eq_2)
    ultimately show ?thesis using ks t
      by (intro exI [of _ "?k + 1"] exI [of _ ?b]) (simp add: tok_string_def)
  next
    case False
    let ?w = "takeWhile wordchar r"
    from False have t: "t = Word (c # ?w)" "ts = tokens (dropWhile wordchar r)"
      using l tokens_Word [OF cr] by simp_all
    let ?ps1 = "ps\<lparr>cbuf := (cbuf ps)[?p := c], cbuf_p := ?p + 1\<rparr>"
    have p1: "put_char c ps = Inr ?ps1" using room t by (simp add: put_char_ok)
    obtain b where b: "word_loop r ?ps1 = Inr (length ?w, ?ps1\<lparr>cbuf := b, cbuf_p := ?p + 1 + length ?w + 1\<rparr>)"
        "length b = length (cbuf ps)" "take (?p + 1 + length ?w) b = take (?p + 1) ((cbuf ps)[?p := c]) @ ?w"
      using word_loop_word [of ?ps1 r] room t by auto
    have pre: "take (?p + 1 + length ?w) b = take ?p (cbuf ps) @ c # ?w"
      using b(3) room t by (simp add: take_Suc_conv_app_nth)
    let ?b = "b[?p + 1 + length ?w := NUL]"
    have nt: "nexttoken s ps = Inr (?k + 1 + length ?w, ?p, ps\<lparr>cbuf := ?b, cbuf_p := ?p + length (c # ?w) + 1\<rparr>)"
      using room t p1 b(1,2) by (simp add: nexttoken_Word [OF cr False] put_char_ok)
    have full: "take (?p + length (c # ?w) + 1) ?b = take ?p (cbuf ps) @ (c # ?w) @ [NUL]"
      using pre room t b(2) by (simp add: take_Suc_conv_app_nth)
    have lp: "length (take ?p (cbuf ps)) = ?p" using room by simp
    have "take (length (c # ?w) + 1) (drop ?p ?b) = drop ?p (take (?p + length (c # ?w) + 1) ?b)"
      by (simp add: drop_take)
    also have "\<dots> = (c # ?w) @ [NUL]" unfolding full using lp by simp
    finally have tk: "take (length (c # ?w) + 1) (drop ?p ?b) = (c # ?w) @ [NUL]" .
    have "NUL \<notin> set (c # ?w)" using cn by (auto dest: set_takeWhileD)
    with tk have "tok_rep (ps\<lparr>cbuf := ?b, cbuf_p := ?p + length (c # ?w) + 1\<rparr>) ?p (c # ?w)"
      using room t b(2) by (simp add: tok_rep_def)
    moreover have "take ?p ?b = take ?p (cbuf ps)"
    proof -
      have "take ?p ?b = take ?p (take (?p + length (c # ?w) + 1) ?b)" by simp
      also have "\<dots> = take ?p (cbuf ps)" unfolding full using lp by simp
      finally show ?thesis .
    qed
    moreover have "drop (?k + 1 + length ?w) s = dropWhile wordchar r"
      using drop_after [OF cr, of "length ?w"] by (simp add: dropWhile_eq_drop)
    moreover have "length ?w \<le> length r" by (rule length_takeWhile_le)
    ultimately show ?thesis using nt t ks b(2)
      by (intro exI [of _ "?k + 1 + length ?w"] exI [of _ ?b]) (simp add: tok_string_def)
  qed
qed

end
