(* ===== verification/Lsh_Refine.thy ===== *)
theory Lsh_Refine
  imports Lsh_Grammar
begin

section \<open>The shell: the parser implements the grammar\<close>

text \<open>
  How the pointers of \<open>parse.c\<close> represent a parsed line, the frame lemmas of the three buffers, and
  the simulation between \<open>parse_from\<close> and \<open>parse_toks\<close>.
\<close>

subsection \<open>Representation\<close>

fun args_rep :: "pstate \<Rightarrow> nat \<Rightarrow> string list \<Rightarrow> bool" where
  "args_rep ps i [] = (i < pbuf_p ps \<and> pbuf_p ps \<le> length (pbuf ps) \<and> pbuf ps ! i = None)"
| "args_rep ps i (w # ws) =
     (i < pbuf_p ps \<and> pbuf_p ps \<le> length (pbuf ps)
      \<and> (case pbuf ps ! i of None \<Rightarrow> False | Some p \<Rightarrow> tok_rep ps p w) \<and> args_rep ps (i + 1) ws)"

text \<open>The free list starts at the number of commands in use; each command points to the one before it.\<close>

definition free_from :: "pstate \<Rightarrow> nat \<Rightarrow> bool" where
  "free_from ps k \<longleftrightarrow> length (cmdbuf ps) = 20 \<and> k \<le> 20 \<and> cmds ps = (if k < 20 then Some k else None)
     \<and> (\<forall>j\<in>{k..<20}. pgm_next (cmdbuf ps ! j) = (if j < 19 then Some (j + 1) else None))"

definition prog_rep :: "pstate \<Rightarrow> nat \<Rightarrow> string list \<Rightarrow> bool" where
  "prog_rep ps j ws \<longleftrightarrow> pgm_next (cmdbuf ps ! j) = (if j = 0 then None else Some (j - 1))
     \<and> args_rep ps (pgmlist (cmdbuf ps ! j)) ws"

definition represents :: "pstate \<Rightarrow> Command \<Rightarrow> parsed \<Rightarrow> bool" where
  "represents ps c sp \<longleftrightarrow>
     free_from ps (length (progs sp)) \<and> pgm c = (if progs sp = [] then None else Some (length (progs sp) - 1))
     \<and> (\<forall>j<length (progs sp). prog_rep ps j (progs sp ! j))
     \<and> rel_option (tok_rep ps) (rstdin c) (p_in sp) \<and> rel_option (tok_rep ps) (rstdout c) (p_out sp)
     \<and> background c = p_bg sp"

subsection \<open>Frame\<close>

definition bounded :: "pstate \<Rightarrow> bool" where
  "bounded ps \<longleftrightarrow> cbuf_p ps \<le> length (cbuf ps) \<and> pbuf_p ps \<le> length (pbuf ps)"

lemma extends_pbuf: "extends ps ps' \<Longrightarrow> i < pbuf_p ps \<Longrightarrow> pbuf ps' ! i = pbuf ps ! i"
proof -
  assume "extends ps ps'" and i: "i < pbuf_p ps"
  then have "take (pbuf_p ps) (pbuf ps') = take (pbuf_p ps) (pbuf ps)" by (simp only: extends_def)
  then have "take (pbuf_p ps) (pbuf ps') ! i = take (pbuf_p ps) (pbuf ps) ! i" by (rule arg_cong)
  with i show ?thesis by (simp only: nth_take)
qed

lemma extends_mono:
  "extends ps ps' \<Longrightarrow> cbuf_p ps \<le> cbuf_p ps' \<and> pbuf_p ps \<le> pbuf_p ps' \<and> length (cbuf ps') = length (cbuf ps)
     \<and> length (pbuf ps') = length (pbuf ps)"
  by (simp only: extends_def simp_thms)

lemma args_rep_extends:
  assumes e: "extends ps ps'" and b: "bounded ps'"
  shows "args_rep ps i ws \<Longrightarrow> args_rep ps' i ws"
proof (induction ws arbitrary: i)
  case Nil
  then show ?case using extends_pbuf [OF e, of i] extends_mono [OF e] b by (simp add: bounded_def)
next
  case (Cons w ws)
  then obtain p where p: "pbuf ps ! i = Some p" "tok_rep ps p w" by (auto split: option.splits)
  have "tok_rep ps' p w" using tok_rep_extends [OF p(2) e] b by (simp add: bounded_def)
  then show ?case using Cons p(1) extends_pbuf [OF e, of i] extends_mono [OF e] b
    by (simp add: bounded_def)
qed

lemma rel_option_extends:
  "extends ps ps' \<Longrightarrow> bounded ps' \<Longrightarrow> rel_option (tok_rep ps) r w \<Longrightarrow> rel_option (tok_rep ps') r w"
  by (erule option.rel_mono_strong) (auto intro: tok_rep_extends simp: bounded_def)

lemma prog_rep_extends:
  "extends ps ps' \<Longrightarrow> bounded ps' \<Longrightarrow> cmdbuf ps' ! j = cmdbuf ps ! j \<Longrightarrow> prog_rep ps j ws \<Longrightarrow> prog_rep ps' j ws"
  using args_rep_extends by (simp add: prog_rep_def)

lemma represents_extends:
  "extends ps ps' \<Longrightarrow> bounded ps' \<Longrightarrow> cmdbuf ps' = cmdbuf ps \<Longrightarrow> cmds ps' = cmds ps
     \<Longrightarrow> represents ps c sp \<Longrightarrow> represents ps' c sp"
  using prog_rep_extends rel_option_extends by (simp add: represents_def free_from_def)

text \<open>The commands in use are not affected by the allocation of the next one.\<close>

lemma args_rep_cmdbuf [simp]: "args_rep (ps\<lparr>cmdbuf := cb\<rparr>) i ws = args_rep ps i ws"
  "args_rep (ps\<lparr>cmds := q\<rparr>) i ws = args_rep ps i ws"
  by (induction ws arbitrary: i) (simp_all add: tok_rep_def cong: option.case_cong)

lemma tok_rep_cmdbuf [simp]: "tok_rep (ps\<lparr>cmdbuf := cb\<rparr>) p w = tok_rep ps p w"
  "tok_rep (ps\<lparr>cmds := q\<rparr>) p w = tok_rep ps p w" "tok_rep (ps\<lparr>pbuf := pb, pbuf_p := i\<rparr>) p w = tok_rep ps p w"
  by (simp_all add: tok_rep_def)

lemma extends_cmdbuf [simp]: "extends (ps\<lparr>cmdbuf := cb\<rparr>) ps' = extends ps ps'"
  "extends ps (ps'\<lparr>cmdbuf := cb\<rparr>) = extends ps ps'" "extends (ps\<lparr>cmds := q\<rparr>) ps' = extends ps ps'"
  by (simp_all add: extends_def)

subsection \<open>The argument list of one command\<close>

lemma push_arg_ok:
  "pbuf_p ps < length (pbuf ps) \<Longrightarrow> push_arg a ps = Inr (ps\<lparr>pbuf := (pbuf ps)[pbuf_p ps := a], pbuf_p := pbuf_p ps + 1\<rparr>)"
  by (simp add: push_arg_def)

lemma push_arg_extends: "extends ps (ps\<lparr>pbuf := (pbuf ps)[pbuf_p ps := a], pbuf_p := pbuf_p ps + 1\<rparr>)"
  by (simp add: extends_def)

lemma tokens_spec: "Spec c \<in> set (tokens s) \<Longrightarrow> isspec c"
proof (induction s rule: tokens.induct)
  case (1 s)
  show ?case
  proof (cases "dropWhile is_space s")
    case Nil
    then show ?thesis using 1 by (simp add: tokens_Nil)
  next
    case (Cons d r)
    then show ?thesis using 1(1) [OF Cons] 1(2) [OF Cons] "1.prems" tokens_Spec [OF Cons] tokens_Word [OF Cons]
      by (cases "isspec d") auto
  qed
qed

text \<open>One token, with the state left named.\<close>

lemma nexttoken_step:
  assumes l: "tokens s = t # ts" and n: "NUL \<notin> set s" and room: "cbuf_p ps + tlen t + 1 \<le> length (cbuf ps)"
  obtains k ps' where "nexttoken s ps = Inr (k, cbuf_p ps, ps')" "tlen t \<le> k" "0 < k" "k \<le> length s"
    "tokens (drop k s) = ts" "extends ps ps'" "cbuf_p ps' = cbuf_p ps + tlen t + 1" "pbuf_p ps' = pbuf_p ps"
    "cmdbuf ps' = cmdbuf ps" "cmds ps' = cmds ps" "tok_rep ps' (cbuf_p ps) (tok_string t)"
proof -
  obtain k b where kb: "nexttoken s ps = Inr (k, cbuf_p ps, ps\<lparr>cbuf := b, cbuf_p := cbuf_p ps + tlen t + 1\<rparr>)"
     "tlen t \<le> k" "0 < k" "k \<le> length s" "tokens (drop k s) = ts" "length b = length (cbuf ps)"
     "take (cbuf_p ps) b = take (cbuf_p ps) (cbuf ps)"
     "tok_rep (ps\<lparr>cbuf := b, cbuf_p := cbuf_p ps + tlen t + 1\<rparr>) (cbuf_p ps) (tok_string t)"
    using nexttoken_tok [OF l n room] by blast
  from kb(6,7) have "extends ps (ps\<lparr>cbuf := b, cbuf_p := cbuf_p ps + tlen t + 1\<rparr>)" by (simp add: extends_def)
  from that [OF kb(1-5) this _ _ _ _ kb(8)] show thesis by simp
qed

definition ends_args :: "tok list \<Rightarrow> bool" where
  "ends_args ts \<longleftrightarrow> (ts = [] \<or> \<not> is_word (hd ts))"

lemma acmd_loop_words:
  assumes "tokens s = map Word ws @ rest" "ends_args rest" "NUL \<notin> set s"
    "cbuf_p ps + 2 * length s \<le> length (cbuf ps)" "pbuf_p ps + length ws < length (pbuf ps)"
  shows "\<exists>n ps'. acmd_loop s cnt ps = Inr (cnt + n, ps') \<and> n \<le> length s \<and> length ws \<le> n \<and> (ws = [] \<longrightarrow> n = 0)
    \<and> tokens (drop n s) = rest \<and> extends ps ps' \<and> bounded ps' \<and> pbuf_p ps' = pbuf_p ps + length ws + 1
    \<and> cbuf_p ps' \<le> cbuf_p ps + 2 * n + 2 \<and> cmdbuf ps' = cmdbuf ps \<and> cmds ps' = cmds ps
    \<and> args_rep ps' (pbuf_p ps) ws"
  using assms
proof (induction ws arbitrary: s cnt ps)
  case Nil
  let ?q = "\<lambda>p. p\<lparr>pbuf := (pbuf p)[pbuf_p p := None], pbuf_p := pbuf_p p + 1\<rparr>"
  show ?case
  proof (cases rest)
    case Nil
    then have "acmd_loop s cnt ps = Inr (cnt + 0, ?q ps)"
      using Nil.prems by (subst acmd_loop.simps) (simp add: nexttoken_end push_arg_ok)
    then show ?thesis using Nil.prems push_arg_extends [of ps None]
      by (intro exI [of _ 0] exI [of _ "?q ps"]) (simp add: bounded_def)
  next
    case (Cons t ts)
    then obtain c where t: "t = Spec c" using Nil.prems(2) by (cases t) (auto simp: ends_args_def)
    with Cons Nil.prems have tk: "tokens s = Spec c # ts" by simp
    then have c: "isspec c" using tokens_spec [of c s] by simp
    have "s \<noteq> []" using tk tokens_Nil [of "[]"] by auto
    then have room: "cbuf_p ps + tlen (Spec c) + 1 \<le> length (cbuf ps)" using Nil.prems by (cases s) auto
    obtain k ps1 where n: "nexttoken s ps = Inr (k, cbuf_p ps, ps1)" "0 < k" "extends ps ps1"
      "cbuf_p ps1 = cbuf_p ps + tlen (Spec c) + 1" "pbuf_p ps1 = pbuf_p ps" "cmdbuf ps1 = cmdbuf ps" "cmds ps1 = cmds ps"
      "tok_rep ps1 (cbuf_p ps) (tok_string (Spec c))"
      using nexttoken_step [OF tk Nil.prems(3) room] by metis
    have "aget (cbuf ps1) (cbuf_p ps) = Inr c" using tok_rep_first [OF n(8)] by (simp add: tok_string_def)
    then have "acmd_loop s cnt ps = Inr (cnt + 0, ?q ps1)"
      using n extends_mono [OF n(3)] c Nil.prems
      by (subst acmd_loop.simps) (simp add: push_arg_ok)
    moreover have "extends ps (?q ps1)" using extends_trans [OF n(3) push_arg_extends] .
    ultimately show ?thesis using n extends_mono [OF n(3)] Nil.prems tk Cons t room
      by (intro exI [of _ 0] exI [of _ "?q ps1"]) (simp add: bounded_def)
  qed
next
  case (Cons w ws)
  have tk: "tokens s = Word w # (map Word ws @ rest)" using Cons.prems by simp
  then have w: "w \<noteq> []" "\<not> isspec (hd w)" using tokens_word [OF Cons.prems(3), of w] by auto
  have "length w \<le> length s" using tokens_length [of s] tk by simp
  then have room: "cbuf_p ps + tlen (Word w) + 1 \<le> length (cbuf ps)" using Cons.prems(4) w by (cases w) auto
  obtain k ps1 where n: "nexttoken s ps = Inr (k, cbuf_p ps, ps1)" "tlen (Word w) \<le> k" "0 < k" "k \<le> length s"
      "tokens (drop k s) = map Word ws @ rest" "extends ps ps1" "cbuf_p ps1 = cbuf_p ps + tlen (Word w) + 1"
      "pbuf_p ps1 = pbuf_p ps" "cmdbuf ps1 = cmdbuf ps" "cmds ps1 = cmds ps" "tok_rep ps1 (cbuf_p ps) (tok_string (Word w))"
    using nexttoken_step [OF tk Cons.prems(3) room] by metis
  let ?ps2 = "ps1\<lparr>pbuf := (pbuf ps1)[pbuf_p ps1 := Some (cbuf_p ps)], pbuf_p := pbuf_p ps1 + 1\<rparr>"
  have e2: "extends ps ?ps2" using extends_trans [OF n(6) push_arg_extends] .
  have len1: "length (cbuf ps1) = length (cbuf ps)" "length (pbuf ps1) = length (pbuf ps)"
    using extends_mono [OF n(6)] by simp_all
  have wl: "1 \<le> length w" using w by (cases w) auto
  have pre: "NUL \<notin> set (drop k s)" "cbuf_p ?ps2 + 2 * length (drop k s) \<le> length (cbuf ?ps2)"
     "pbuf_p ?ps2 + length ws < length (pbuf ?ps2)"
    using Cons.prems n len1 wl by (auto dest: in_set_dropD)
  obtain n' ps' where r: "acmd_loop (drop k s) (cnt + k) ?ps2 = Inr (cnt + k + n', ps')" "n' \<le> length (drop k s)"
     "length ws \<le> n'" "tokens (drop n' (drop k s)) = rest" "extends ?ps2 ps'" "bounded ps'"
     "pbuf_p ps' = pbuf_p ?ps2 + length ws + 1" "cbuf_p ps' \<le> cbuf_p ?ps2 + 2 * n' + 2" "cmdbuf ps' = cmdbuf ?ps2"
     "cmds ps' = cmds ?ps2" "args_rep ps' (pbuf_p ?ps2) ws"
    using Cons.IH [OF n(5) Cons.prems(2) pre] by blast
  have "aget (cbuf ps1) (cbuf_p ps) = Inr (hd w)" using tok_rep_first [OF n(11)] w by (simp add: tok_string_def)
  then have run: "acmd_loop s cnt ps = Inr (cnt + (k + n'), ps')"
    using n(1,3,8) len1 Cons.prems(5) w r(1)
    by (subst acmd_loop.simps) (simp add: push_arg_ok add.assoc)
  have "pbuf ps' ! pbuf_p ps = Some (cbuf_p ps)"
    using extends_pbuf [OF r(5), of "pbuf_p ps"] n(8) len1 Cons.prems(5) by simp
  moreover have "tok_rep ps' (cbuf_p ps) w"
    using tok_rep_extends [OF _ r(5), of "cbuf_p ps" w] n(11) r(6) by (simp add: tok_string_def bounded_def)
  ultimately have "args_rep ps' (pbuf_p ps) (w # ws)" using r(6,7,11) n(8) by (simp add: bounded_def)
  with run show ?case using r n extends_trans [OF e2 r(5)] wl
    by (intro exI [of _ "k + n'"] exI [of _ ps']) (simp add: add.commute)
qed

subsection \<open>One command\<close>

lemma free_from_head:
  "free_from ps k \<Longrightarrow> k < 20 \<Longrightarrow> cmds ps = Some k \<and> k < length (cmdbuf ps)"
  by (simp add: free_from_def)

lemma acmd_words:
  assumes tk: "tokens s = map Word ws @ rest" and er: "ends_args rest" and nn: "NUL \<notin> set s"
    and c: "cbuf_p ps + 2 * length s \<le> length (cbuf ps)" and p: "pbuf_p ps + length ws < length (pbuf ps)"
    and f: "free_from ps k" and k: "k < 20"
  shows "\<exists>n ps'. acmd s ps = Inr (n, k, ps') \<and> n \<le> length s \<and> length ws \<le> n \<and> (ws = [] \<longrightarrow> n = 0)
    \<and> tokens (drop n s) = rest \<and> extends ps ps' \<and> bounded ps' \<and> pbuf_p ps' = pbuf_p ps + length ws + 1
    \<and> cbuf_p ps' \<le> cbuf_p ps + 2 * n + 2
    \<and> cmdbuf ps' = (cmdbuf ps)[k := \<lparr>pgmlist = pbuf_p ps, pgm_next = None\<rparr>]
    \<and> cmds ps' = (if k + 1 < 20 then Some (k + 1) else None) \<and> args_rep ps' (pbuf_p ps) ws"
proof -
  let ?node = "\<lparr>pgmlist = pbuf_p ps, pgm_next = None\<rparr>"
  let ?ps0 = "ps\<lparr>cmds := pgm_next (cmdbuf ps ! k), cmdbuf := (cmdbuf ps)[k := ?node]\<rparr>"
  have nx: "pgm_next (cmdbuf ps ! k) = (if k + 1 < 20 then Some (k + 1) else None)"
    using f k by (simp add: free_from_def)
  have "cbuf_p ?ps0 + 2 * length s \<le> length (cbuf ?ps0)" "pbuf_p ?ps0 + length ws < length (pbuf ?ps0)"
    using c p by simp_all
  from acmd_loop_words [OF tk er nn this, of 0] obtain n ps' where
    r: "acmd_loop s 0 ?ps0 = Inr (n, ps')" "n \<le> length s" "length ws \<le> n" "ws = [] \<longrightarrow> n = 0" "tokens (drop n s) = rest"
      "extends ?ps0 ps'" "bounded ps'" "pbuf_p ps' = pbuf_p ?ps0 + length ws + 1"
      "cbuf_p ps' \<le> cbuf_p ?ps0 + 2 * n + 2" "cmdbuf ps' = cmdbuf ?ps0" "cmds ps' = cmds ?ps0"
      "args_rep ps' (pbuf_p ?ps0) ws"
    by auto
  have "acmd s ps = Inr (n, k, ps')" using r(1) free_from_head [OF f k] by (simp add: acmd_def)
  then show ?thesis using r nx by (intro exI [of _ n] exI [of _ ps']) simp
qed

text \<open>Linking the new command in front of the ones before it.\<close>

lemma represents_link:
  assumes r: "represents ps c sp" and k: "length (progs sp) = k" "k < 20" and e: "extends ps ps'" and b: "bounded ps'"
    and cb: "cmdbuf ps' = (cmdbuf ps)[k := \<lparr>pgmlist = i, pgm_next = q\<rparr>]"
    and cm: "cmds ps' = (if k + 1 < 20 then Some (k + 1) else None)" and a: "args_rep ps' i ws"
  shows "represents (ps'\<lparr>cmdbuf := (cmdbuf ps')[k := (cmdbuf ps' ! k)\<lparr>pgm_next := pgm c\<rparr>]\<rparr>) (c\<lparr>pgm := Some k\<rparr>)
      (sp\<lparr>progs := progs sp @ [ws]\<rparr>)"
proof -
  let ?ps2 = "ps'\<lparr>cmdbuf := (cmdbuf ps')[k := (cmdbuf ps' ! k)\<lparr>pgm_next := pgm c\<rparr>]\<rparr>"
  have len: "length (cmdbuf ps) = 20" using r by (simp add: represents_def free_from_def)
  have e2: "extends ps ?ps2" and b2: "bounded ?ps2" using e b by (simp_all add: bounded_def)
  have "free_from ?ps2 (k + 1)" using r k len cb cm by (auto simp: represents_def free_from_def)
  moreover have "prog_rep ?ps2 j (progs sp ! j)" if "j < k" for j
    using prog_rep_extends [OF e2 b2, of j] that r k cb by (simp add: represents_def)
  moreover have "prog_rep ?ps2 k ws" using r k len cb a by (auto simp: represents_def prog_rep_def)
  moreover have "rel_option (tok_rep ?ps2) (rstdin c) (p_in sp)" "rel_option (tok_rep ?ps2) (rstdout c) (p_out sp)"
    using r rel_option_extends [OF e2 b2] by (simp_all add: represents_def)
  ultimately show ?thesis using r k unfolding represents_def by (auto simp: nth_append less_Suc_eq)
qed

subsection \<open>The whole line\<close>

text \<open>
  Room for the rest of the line: a character costs at most four cells of \<open>cbuf\<close> (a special character
  is copied twice, with a zero each time) and one of \<open>pbuf\<close>, a further command two characters.
\<close>

definition fits :: "bool \<Rightarrow> string \<Rightarrow> pstate \<Rightarrow> nat \<Rightarrow> bool" where
  "fits m t ps k \<longleftrightarrow> length (cbuf ps) = 256 \<and> length (pbuf ps) = 50 \<and> cbuf_p ps + 4 * length t \<le> 256
     \<and> pbuf_p ps + length t + (if m then 1 else 0) \<le> 50 \<and> length t + (if m then 1 else 0) + 2 * k \<le> 40"

fun agrees :: "(int \<times> Command \<times> pstate) res \<Rightarrow> parsed option \<Rightarrow> bool" where
  "agrees (Inr (r, c, ps)) (Some sp) = (r = 1 \<and> represents ps c sp)"
| "agrees (Inr (r, c, ps)) None = (r = - 1)"
| "agrees (Inl e) _ = False"

lemma fits_weaken: "fits True t ps k \<Longrightarrow> fits False t ps k"
  by (simp add: fits_def)

lemma dangling_Cons:
  "\<not> dangling (u # ts) \<Longrightarrow> \<not> dangling ts" "\<not> dangling (Spec CHR ''<'' # ts) \<Longrightarrow> ts \<noteq> []"
  "\<not> dangling (Spec CHR ''>'' # ts) \<Longrightarrow> ts \<noteq> []"
  by (auto simp: dangling_def)

lemma not_dangling_append: "\<not> dangling (us @ ts) \<Longrightarrow> \<not> dangling ts"
  by (auto simp: dangling_def)

lemma tlen_pos: "NUL \<notin> set s \<Longrightarrow> t \<in> set (tokens s) \<Longrightarrow> 0 < tlen t"
  using tokens_word [of s] by (cases t) auto

lemma length_le_tlen: "(\<And>u. u \<in> set us \<Longrightarrow> 0 < tlen u) \<Longrightarrow> length us \<le> sum_list (map tlen us)"
proof (induction us)
  case (Cons u us)
  have "0 < tlen u" "length us \<le> sum_list (map tlen us)" using Cons by auto
  then show ?case by simp
qed simp

lemma fits_token:
  assumes f: "fits m t ps j" and tk: "tokens t = u # ts" and nn: "NUL \<notin> set t" and r: "represents ps c sp"
  obtains k ps1 where "nexttoken t ps = Inr (k, cbuf_p ps, ps1)" "0 < k" "tokens (drop k t) = ts"
    "NUL \<notin> set (drop k t)" "fits True (drop k t) ps1 j" "represents ps1 c sp" "tok_rep ps1 (cbuf_p ps) (tok_string u)"
proof -
  have u: "0 < tlen u" "tlen u \<le> length t" using tlen_pos [OF nn, of u] tokens_length [of t] tk by simp_all
  then have room: "cbuf_p ps + tlen u + 1 \<le> length (cbuf ps)" using f by (simp add: fits_def)
  obtain k ps1 where n: "nexttoken t ps = Inr (k, cbuf_p ps, ps1)" "tlen u \<le> k" "0 < k" "k \<le> length t"
    "tokens (drop k t) = ts" "extends ps ps1" "cbuf_p ps1 = cbuf_p ps + tlen u + 1" "pbuf_p ps1 = pbuf_p ps"
    "cmdbuf ps1 = cmdbuf ps" "cmds ps1 = cmds ps" "tok_rep ps1 (cbuf_p ps) (tok_string u)"
    using nexttoken_step [OF tk nn room] by metis
  have "bounded ps1" using n(4,7,8) f extends_mono [OF n(6)] room by (simp add: bounded_def fits_def)
  moreover have "fits True (drop k t) ps1 j" using f n(2-4,7,8) u extends_mono [OF n(6)]
    by (auto simp: fits_def split: if_splits)
  ultimately show thesis
    using that [OF n(1,3,5)] nn represents_extends [OF n(6) _ n(9,10) r] n(11) by (auto dest: in_set_dropD)
qed

lemma tokens_empty: "tokens t = [] \<Longrightarrow> parse_from False t c ps = Inr (1, c, ps)"
  by (simp add: parse_from.simps nexttoken_end)

text \<open>A redirection followed by its file name.\<close>

lemma redirect_word:
  assumes f: "fits m t ps j" and tk: "tokens t = u # ts" and nn: "NUL \<notin> set t" and r: "represents ps c sp"
  obtains k ps1 where "nexttoken t ps = Inr (k, cbuf_p ps, ps1)" "str_at (cbuf ps1) (cbuf_p ps) = Inr (tok_string u)"
    "tokens (drop k t) = ts" "NUL \<notin> set (drop k t)" "fits False (drop k t) ps1 j" "represents ps1 c sp"
    "tok_rep ps1 (cbuf_p ps) (tok_string u)"
  using fits_token [OF f tk nn r] tok_rep_str fits_weaken by metis

lemma isidentifier_spec: "isspec c \<Longrightarrow> \<not> isidentifier [c]"
  by (auto simp: isspec_def is_alnum_def is_digit_def IDCHARS_def)

lemma represents_redirect:
  "represents ps c sp \<Longrightarrow> tok_rep ps p w \<Longrightarrow> represents ps (c\<lparr>rstdin := Some p\<rparr>) (sp\<lparr>p_in := Some w\<rparr>)"
  "represents ps c sp \<Longrightarrow> tok_rep ps p w \<Longrightarrow> represents ps (c\<lparr>rstdout := Some p\<rparr>) (sp\<lparr>p_out := Some w\<rparr>)"
  "represents ps c sp \<Longrightarrow> represents ps (c\<lparr>background := True\<rparr>) (sp\<lparr>p_bg := True\<rparr>)"
  by (simp_all add: represents_def)

lemma represents_none:
  "represents ps c sp \<Longrightarrow> (rstdin c = None) = (p_in sp = None)"
  "represents ps c sp \<Longrightarrow> (rstdout c = None) = (p_out sp = None)"
  by (auto simp: represents_def)

lemma word_prefix: "takeWhile is_word ts = map Word (map the_word (takeWhile is_word ts))"
proof -
  have "Word (the_word u) = u" if "is_word u" for u using that by (cases u) simp_all
  then show ?thesis by (induction ts) auto
qed

lemma ends_args_dropWhile: "ends_args (dropWhile is_word ts)"
  by (induction ts) (auto simp: ends_args_def)

text \<open>The label \<open>newcmd\<close>.\<close>

lemma newcmd_step:
  assumes f: "fits True t ps (length (progs sp))" and nn: "NUL \<notin> set t" and r: "represents ps c sp"
    and ts: "tokens t = ts" and ws: "map the_word (takeWhile is_word ts) = ws"
  obtains (none) ps' where "ws = []" "parse_from True t c ps = Inr (- 1, c, ps')"
  | (some) k ps' c' where "ws \<noteq> []" "parse_from True t c ps = parse_from False (drop k t) c' ps'"
      "tokens (drop k t) = dropWhile is_word ts" "NUL \<notin> set (drop k t)"
      "fits False (drop k t) ps' (length (progs sp) + 1)" "represents ps' c' (sp\<lparr>progs := progs sp @ [ws]\<rparr>)"
proof -
  let ?k = "length (progs sp)"
  have k: "?k < 20" using f by (simp add: fits_def)
  have tk: "tokens t = map Word ws @ dropWhile is_word ts"
    using word_prefix [of ts] ts ws takeWhile_dropWhile_id [of is_word ts] by metis
  have "length (tokens t) \<le> sum_list (map tlen (tokens t))"
    using tlen_pos [OF nn] by (intro length_le_tlen) blast
  then have "length ws \<le> length t" using tokens_length [of t] tk by simp
  then have room: "cbuf_p ps + 2 * length t \<le> length (cbuf ps)" "pbuf_p ps + length ws < length (pbuf ps)"
    using f by (simp_all add: fits_def)
  have fr: "free_from ps ?k" using r by (simp add: represents_def)
  obtain n ps' where a: "acmd t ps = Inr (n, ?k, ps')" "n \<le> length t" "length ws \<le> n" "ws = [] \<longrightarrow> n = 0"
      "tokens (drop n t) = dropWhile is_word ts" "extends ps ps'" "bounded ps'" "pbuf_p ps' = pbuf_p ps + length ws + 1"
      "cbuf_p ps' \<le> cbuf_p ps + 2 * n + 2"
      "cmdbuf ps' = (cmdbuf ps)[?k := \<lparr>pgmlist = pbuf_p ps, pgm_next = None\<rparr>]"
      "cmds ps' = (if ?k + 1 < 20 then Some (?k + 1) else None)" "args_rep ps' (pbuf_p ps) ws"
    using acmd_words [OF tk ends_args_dropWhile nn room fr k] by blast
  let ?ps2 = "ps'\<lparr>cmdbuf := (cmdbuf ps')[?k := (cmdbuf ps' ! ?k)\<lparr>pgm_next := pgm c\<rparr>]\<rparr>"
  have len: "length (cmdbuf ps') = 20" using fr a(10) by (simp add: free_from_def)
  show thesis
  proof (cases "ws = []")
    case True
    then show ?thesis using none a(1,4) by (simp add: parse_from.simps)
  next
    case False
    then have n: "0 < n" using a(3) by (cases ws) auto
    have "parse_from True t c ps = parse_from False (drop n t) (c\<lparr>pgm := Some ?k\<rparr>) ?ps2"
      using n a(1) k len by (simp add: parse_from.simps(1))
    moreover have "fits False (drop n t) ?ps2 (?k + 1)"
      using f n a(2,3,8,9) extends_mono [OF a(6)] by (auto simp: fits_def)
    ultimately show ?thesis using some [OF False] a(5) nn represents_link [OF r refl k a(6,7,10,11,12)]
      by (auto dest: in_set_dropD)
  qed
qed

text \<open>The label \<open>newtoken\<close>, by kind of token.\<close>

lemma redirect_step:
  assumes f: "fits m t ps j" and tk: "tokens t = ts" and ne: "ts \<noteq> []" and nn: "NUL \<notin> set t" and r: "represents ps c sp"
  obtains k ps1 u us where "nexttoken t ps = Inr (k, cbuf_p ps, ps1)" "ts = u # us"
    "str_at (cbuf ps1) (cbuf_p ps) = Inr (tok_string u)" "tokens (drop k t) = us" "NUL \<notin> set (drop k t)"
    "fits False (drop k t) ps1 j" "represents ps1 c sp" "tok_rep ps1 (cbuf_p ps) (tok_string u)"
    "isidentifier (tok_string u) \<Longrightarrow> is_word u"
proof -
  obtain u us where u: "ts = u # us" using ne by (cases ts) auto
  have "isidentifier (tok_string u) \<Longrightarrow> is_word u"
    using isidentifier_spec tokens_spec [of _ t] tk u by (cases u) (auto simp: tok_string_def)
  then show thesis using redirect_word [OF f _ nn r, of u us] tk u that by metis
qed

lemma isspec_cases: "isspec c \<Longrightarrow> c = CHR ''|'' \<or> c = CHR ''&'' \<or> c = CHR ''<'' \<or> c = CHR ''>''"
  by (simp add: isspec_def)

text \<open>The file name part of a redirection, once the continuation is known to agree.\<close>

definition file_result :: "tok list \<Rightarrow> (tok list \<Rightarrow> string \<Rightarrow> parsed option) \<Rightarrow> parsed option" where
  "file_result ts g = (case ts of Word w # ts' \<Rightarrow> if isidentifier w then g ts' w else None | _ \<Rightarrow> None)"

lemma parse_toks_redirect:
  "parse_toks False (Spec CHR ''<'' # ts) sp =
     (if p_in sp \<noteq> None then None else file_result ts (\<lambda>ts' w. parse_toks False ts' (sp\<lparr>p_in := Some w\<rparr>)))"
  "parse_toks False (Spec CHR ''>'' # ts) sp =
     (if p_out sp \<noteq> None then None else file_result ts (\<lambda>ts' w. parse_toks False ts' (sp\<lparr>p_out := Some w\<rparr>)))"
  by (simp_all add: file_result_def)

lemma file_result_bad: "\<not> isidentifier (tok_string u) \<Longrightarrow> file_result (u # us) g = None"
  by (cases u) (simp_all add: file_result_def tok_string_def)

lemma redirect_agrees:
  assumes f: "fits m t ps j" and tk: "tokens t = ts" and ne: "ts \<noteq> []" and nn: "NUL \<notin> set t" and r: "represents ps c sp"
    and nd: "\<not> dangling ts"
    and rest: "\<And>w us t' ps' p. ts = Word w # us \<Longrightarrow> isidentifier w \<Longrightarrow> \<not> dangling us \<Longrightarrow> tokens t' = us \<Longrightarrow> NUL \<notin> set t'
      \<Longrightarrow> fits False t' ps' j \<Longrightarrow> represents ps' c sp \<Longrightarrow> tok_rep ps' p w \<Longrightarrow> agrees (k t' ps' p) (g us w)"
  shows "agrees (bnd (nexttoken t ps) (\<lambda>(n2, tok2, ps2). bnd (str_at (cbuf ps2) tok2) (\<lambda>name.
      if \<not> isidentifier name then Inr (- 1, c2 tok2, ps2) else k (drop n2 t) ps2 tok2))) (file_result ts g)"
proof -
  from redirect_step [OF f tk ne nn r] obtain n2 ps2 v vs where
    q: "nexttoken t ps = Inr (n2, cbuf_p ps, ps2)" "ts = v # vs"
      "str_at (cbuf ps2) (cbuf_p ps) = Inr (tok_string v)" "tokens (drop n2 t) = vs"
      "NUL \<notin> set (drop n2 t)" "fits False (drop n2 t) ps2 j"
      "represents ps2 c sp" "tok_rep ps2 (cbuf_p ps) (tok_string v)" "isidentifier (tok_string v) \<Longrightarrow> is_word v"
    by metis
  show ?thesis
  proof (cases "isidentifier (tok_string v)")
    case False
    then show ?thesis using q(1,2,3) by (simp add: file_result_bad)
  next
    case True
    then obtain w where w: "v = Word w" using q(9) by (cases v) auto
    then have sw: "tok_string v = w" by (simp add: tok_string_def)
    have "agrees (k (drop n2 t) ps2 (cbuf_p ps)) (g vs w)"
      using q True dangling_Cons(1) nd unfolding w by (intro rest) (auto simp: tok_string_def)
    then show ?thesis using q(1,2,3) True sw unfolding w by (simp add: file_result_def)
  qed
qed

theorem parse_simulates:
  "fits m t ps (length (progs sp)) \<Longrightarrow> NUL \<notin> set t \<Longrightarrow> \<not> dangling ts \<Longrightarrow> represents ps c sp \<Longrightarrow> tokens t = ts
     \<Longrightarrow> agrees (parse_from m t c ps) (parse_toks m ts sp)"
proof (induction m ts sp arbitrary: t c ps rule: parse_toks.induct)
  case (1 ts sp)
  obtain ws where ws: "map the_word (takeWhile is_word ts) = ws" by simp
  from newcmd_step [OF "1.prems"(1,2,4,5) ws] show ?case
  proof cases
    case (1 ps')
    then show ?thesis using ws by auto
  next
    case (2 k ps' c')
    have nd: "\<not> dangling (dropWhile is_word ts)"
      using "1.prems"(3) not_dangling_append [of "takeWhile is_word ts" "dropWhile is_word ts"] by simp
    have ne: "takeWhile is_word ts \<noteq> []" using 2(1) ws by auto
    from "1.IH" [OF this, of "drop k t" ps' c'] show ?thesis using 2 nd ws ne by simp
  qed
next
  case (2 sp)
  then show ?case by (simp add: tokens_empty)
next
  case (3 u ts sp)
  obtain k ps1 where n: "nexttoken t ps = Inr (k, cbuf_p ps, ps1)" "0 < k" "tokens (drop k t) = ts"
    "NUL \<notin> set (drop k t)" "fits True (drop k t) ps1 (length (progs sp))" "represents ps1 c sp"
    "tok_rep ps1 (cbuf_p ps) (tok_string u)"
    using fits_token [OF "3.prems"(1,5,2,4)] by metis
  have nd: "\<not> dangling ts" using dangling_Cons(1) [OF "3.prems"(3)] .
  let ?ch = "hd (tok_string u)"
  have "tok_string u \<noteq> []"
    using tokens_word [OF "3.prems"(2)] "3.prems"(5) by (cases u) (auto simp: tok_string_def)
  with n(7) have "aget (cbuf ps1) (cbuf_p ps) = Inr ?ch" by (rule tok_rep_first)
  note run = parse_from.simps(2) [of t c ps] n(1,2) this
  consider (word) w where "u = Word w" | (bar) "u = Spec CHR ''|''" | (amp) "u = Spec CHR ''&''"
    | (less) "u = Spec CHR ''<''" | (gr) "u = Spec CHR ''>''"
    using isspec_cases tokens_spec [of _ t] "3.prems"(5) by (cases u) auto
  then show ?case
  proof cases
    case word
    then have "\<not> isspec ?ch" using tokens_word [OF "3.prems"(2), of w] "3.prems"(5) by (simp add: tok_string_def)
    then show ?thesis using run word by (auto simp: isspec_def)
  next
    case bar
    then show ?thesis using run "3.IH"(1) [OF bar n(5,4) nd n(6,3)] by (simp add: tok_string_def)
  next
    case amp
    show ?thesis
    proof (cases ts)
      case Nil
      then show ?thesis using run n(3,6) amp represents_redirect(3) [OF n(6)]
        by (simp add: tok_string_def nexttoken_end)
    next
      case (Cons v vs)
      with fits_token [OF n(5) _ n(4,6), of v vs] n(3) obtain k2 ps2
        where "nexttoken (drop k t) ps1 = Inr (k2, cbuf_p ps1, ps2)" "0 < k2" by metis
      then show ?thesis using run amp Cons by (simp add: tok_string_def)
    qed
  next
    case less
    have "agrees (parse_from False t c ps) (parse_toks False (Spec CHR ''<'' # ts) sp)" if none: "p_in sp = None"
      unfolding parse_toks_redirect
      using none run less represents_none(1) [OF n(6)] "3.prems"(3) dangling_Cons(2) represents_redirect(1)
      by (auto simp: tok_string_def intro!: redirect_agrees [OF n(5,3) _ n(4,6) nd] "3.IH"(2))
    then show ?thesis using less run represents_none(1) [OF n(6)]
      by (cases "p_in sp") (auto simp: tok_string_def)
  next
    case gr
    have "agrees (parse_from False t c ps) (parse_toks False (Spec CHR ''>'' # ts) sp)" if none: "p_out sp = None"
      unfolding parse_toks_redirect
      using none run gr represents_none(2) [OF n(6)] "3.prems"(3) dangling_Cons(3) represents_redirect(2)
      by (auto simp: tok_string_def intro!: redirect_agrees [OF n(5,3) _ n(4,6) nd] "3.IH"(3))
    then show ?thesis using gr run represents_none(2) [OF n(6)]
      by (cases "p_out sp") (auto simp: tok_string_def)
  qed
qed

subsection \<open>From the first character\<close>

lemma init_represents:
  "length (cmdbuf ps) = 20 \<Longrightarrow> represents (init ps) \<lparr>pgm = None, rstdin = None, rstdout = None, background = False\<rparr>
     \<lparr>progs = [], p_in = None, p_out = None, p_bg = False\<rparr>"
  by (auto simp: represents_def free_from_def init_def nth_enumerate_eq)

theorem parse_grammar:
  assumes "length (cbuf ps) = 256" "length (pbuf ps) = 50" "length (cmdbuf ps) = 20"
    and "NUL \<notin> set s" "length s \<le> 39" "\<not> dangling (tokens s)"
  shows "agrees (parse s ps) (grammar s)"
  unfolding parse_def grammar_def using assms
  by (intro parse_simulates init_represents refl) (simp_all add: fits_def init_def)

end
