(* ===== verification/Lsh_Shell.thy ===== *)
theory Lsh_Shell
  imports Lsh_Refine
begin

section \<open>The shell: the main loop, jobs and signals\<close>

text \<open>
  \<open>OS-lab1/code/lsh.c\<close>. One line at a time: white space is stripped, the line is parsed, the programs are
  started one after the other from the head of the parser's list. What the operating system decides is the
  record \<open>env\<close>; what the shell asks of it is the log. A child is described by what it executes and where
  its standard input and output go. A pipe is named after the process that made it and the number of
  the fork before it: \<open>pipe\<close> is called after \<open>fork\<close>, by both processes.
\<close>

datatype maker = Parent nat | Child nat

datatype fd = Std_in | Std_out | Pipe_in maker | Pipe_out maker | File_r string | File_w string

datatype child = Exec "string list" fd fd | Child_exit

datatype event =
    Forked int child
  | Waited int
  | Chdir string
  | Message string
  | Kill int int
  | Started int string
  | Listed nat int

record env =
  fork_pid :: "nat \<Rightarrow> int"
  pipe_ok :: "maker \<Rightarrow> bool"
  can_read :: "string \<Rightarrow> bool"
  can_write :: "string \<Rightarrow> bool"
  chdir_ok :: "string \<Rightarrow> bool"
  home :: "string option"

text \<open>The job table is an array of \<open>MAX_LEN\<close> process numbers; \<open>nfork\<close> counts the calls of \<open>fork\<close>.\<close>

record shell =
  jobs :: "int list"
  job_count :: nat
  fg_pid :: int
  nfork :: nat
  log :: "event list"

definition MAX_LEN :: nat where "MAX_LEN = 256"

definition shell0 :: shell where
  "shell0 = \<lparr>jobs = replicate MAX_LEN 0, job_count = 0, fg_pid = 0, nfork = 0, log = []\<rparr>"

abbreviation emit :: "event list \<Rightarrow> shell \<Rightarrow> shell" where
  "emit es sh \<equiv> sh\<lparr>log := log sh @ es\<rparr>"

subsection \<open>Stripping white space\<close>

text \<open>
  The index \<open>i\<close> runs down to 0. For an empty string it starts at \<open>strlen - 1\<close> of a \<open>size_t\<close>, and the
  first test reads in front of the buffer.
\<close>

fun last_black :: "string \<Rightarrow> nat \<Rightarrow> nat" where
  "last_black s 0 = 0"
| "last_black s (Suc i) = (if is_space (s ! Suc i) then last_black s i else Suc i)"

definition stripwhite :: "string \<Rightarrow> string res" where
  "stripwhite s =
     (let s1 = dropWhile is_space s
      in if s1 = [] then Inl OutOfBounds else Inr (take (last_black s1 (length s1 - 1) + 1) s1))"

subsection \<open>Arguments and printing\<close>

fun args_from :: "string \<Rightarrow> nat option list \<Rightarrow> string list res" where
  "args_from b [] = Inl OutOfBounds"
| "args_from b (None # r) = Inr []"
| "args_from b (Some p # r) = bnd (str_at b p) (\<lambda>w. bnd (args_from b r) (\<lambda>ws. Inr (w # ws)))"

definition argv :: "pstate \<Rightarrow> pgm_node \<Rightarrow> string list res" where
  "argv ps node = args_from (cbuf ps) (drop (pgmlist node) (pbuf ps))"

text \<open>\<open>print_pgm\<close> prints the rest of the list first. The list has at most 20 nodes: the first argument bounds the recursion.\<close>

definition pgm_line :: "string list \<Rightarrow> string" where
  "pgm_line ws = ''            * [ '' @ concat (map (\<lambda>w. w @ '' '') ws) @ '']'' @ [NL]"

fun print_pgm :: "nat \<Rightarrow> pstate \<Rightarrow> nat option \<Rightarrow> string res" where
  "print_pgm n ps None = Inr []"
| "print_pgm 0 ps (Some i) = Inl Undefined"
| "print_pgm (Suc n) ps (Some i) =
     bnd (aget (cmdbuf ps) i) (\<lambda>node.
     bnd (print_pgm n ps (pgm_next node)) (\<lambda>out.
     bnd (argv ps node) (\<lambda>ws. Inr (out @ pgm_line ws))))"

definition name_or_none :: "pstate \<Rightarrow> nat option \<Rightarrow> string res" where
  "name_or_none ps r = (case r of None \<Rightarrow> Inr ''<none>'' | Some p \<Rightarrow> str_at (cbuf ps) p)"

definition print_cmd :: "pstate \<Rightarrow> Command \<Rightarrow> string res" where
  "print_cmd ps c =
     bnd (name_or_none ps (rstdin c)) (\<lambda>i.
     bnd (name_or_none ps (rstdout c)) (\<lambda>out.
     bnd (print_pgm 20 ps (pgm c)) (\<lambda>ps_text.
       Inr (''------------------------------'' @ [NL] @ ''Parse OK'' @ [NL] @ ''stdin:      '' @ i @ [NL] @
         ''stdout:     '' @ out @ [NL] @ ''background: '' @ (if background c then ''true'' else ''false'') @ [NL] @
         ''Pgms:'' @ [NL] @ ps_text @ ''------------------------------'' @ [NL]))))"

subsection \<open>Jobs and signals\<close>

text \<open>\<open>for (j = i; j < count - 1; j++) jobs[j] = jobs[j + 1]\<close>\<close>

function shift_jobs :: "nat \<Rightarrow> nat \<Rightarrow> int list \<Rightarrow> int list" where
  "shift_jobs j c a = (if j + 1 < c then shift_jobs (j + 1) c (a[j := a ! (j + 1)]) else a)"
  by pat_completeness auto
termination by (relation "measure (\<lambda>(j, c, _). c - j)") auto

declare shift_jobs.simps [simp del]

function remove_job :: "int \<Rightarrow> nat \<Rightarrow> shell \<Rightarrow> shell" where
  "remove_job pid i sh =
     (if i < job_count sh
      then if jobs sh ! i = pid
           then sh\<lparr>jobs := shift_jobs i (job_count sh) (jobs sh), job_count := job_count sh - 1\<rparr>
           else remove_job pid (i + 1) sh
      else sh)"
  by pat_completeness auto
termination by (relation "measure (\<lambda>(_, i, sh). job_count sh - i)") auto

declare remove_job.simps [simp del]

definition check_job :: "shell \<Rightarrow> shell" where
  "check_job sh = emit (map (\<lambda>i. Listed i (jobs sh ! i)) [0..<job_count sh]) sh"

text \<open>The process numbers are what \<open>waitpid\<close> returns until it has no more.\<close>

fun child_handler :: "int list \<Rightarrow> shell \<Rightarrow> shell" where
  "child_handler [] sh = sh"
| "child_handler (pid # r) sh = child_handler r (check_job (emit [Message ''finished''] (remove_job pid 0 sh)))"

definition SIGINT :: int where "SIGINT = 2"
definition SIGTERM :: int where "SIGTERM = 15"

definition fg_handler :: "shell \<Rightarrow> shell" where
  "fg_handler sh =
     (if 0 < fg_pid sh then (emit [Kill (fg_pid sh) SIGINT, Message ''terminated''] sh)\<lparr>fg_pid := 0\<rparr>
      else emit [Message [NL]] sh)"

definition kill_bg_jobs :: "shell \<Rightarrow> shell" where
  "kill_bg_jobs sh = emit (map (\<lambda>pid. Kill pid SIGTERM) (take (job_count sh) (jobs sh))) sh"

subsection \<open>Running a command\<close>

definition cd_builtin :: "env \<Rightarrow> string option \<Rightarrow> event list" where
  "cd_builtin e path =
     (case path of
        None \<Rightarrow> (case home e of
                    None \<Rightarrow> [Message ''HOME environment variable not set.'']
                  | Some h \<Rightarrow> Chdir h # (if chdir_ok e h then [] else [Message ''chdir to HOME failed'']))
      | Some d \<Rightarrow> Chdir d # (if chdir_ok e d then [] else [Message ''chdir failed'']))"

text \<open>The child: \<open>nxt\<close> is \<open>p->next != NULL\<close>, \<open>several\<close> is \<open>to_process.pgm->next != NULL\<close>.\<close>

definition child_proc ::
    "env \<Rightarrow> nat \<Rightarrow> fd \<Rightarrow> bool \<Rightarrow> bool \<Rightarrow> string option \<Rightarrow> string option \<Rightarrow> int \<Rightarrow> string list \<Rightarrow> child" where
  "child_proc e k fd_in nxt several rin rout cnt args =
     (if nxt \<and> \<not> pipe_ok e (Child k) then Child_exit
      else if rout \<noteq> None \<and> cnt = 0 \<and> \<not> can_write e (the rout) then Child_exit
      else let out1 = (if rout \<noteq> None \<and> cnt = 0 then File_w (the rout) else Std_out);
               out2 = (if nxt then Pipe_out (Child k) else out1)
           in if rin \<noteq> None \<and> several
              then if can_read e (the rin) then Exec args (File_r (the rin)) out2 else Child_exit
              else Exec args fd_in out2)"

datatype control = Next "nat option" fd int | Exit_shell int

definition opt_name :: "pstate \<Rightarrow> nat option \<Rightarrow> string option res" where
  "opt_name ps r = (case r of None \<Rightarrow> Inr None | Some p \<Rightarrow> bnd (str_at (cbuf ps) p) (\<lambda>w. Inr (Some w)))"

text \<open>
  The parent after a successful fork. A full job table leaves \<open>p\<close> where it is and goes round again;
  before that happens the table has been written one past its end.
\<close>

definition parent_proc :: "pstate \<Rightarrow> Command \<Rightarrow> nat \<Rightarrow> nat option \<Rightarrow> int \<Rightarrow> fd \<Rightarrow> int \<Rightarrow> shell \<Rightarrow> (control \<times> shell) res" where
  "parent_proc ps c i nx pid fd_in' cnt sh =
     (if background c
      then if MAX_LEN < job_count sh
           then Inr (Next (Some i) fd_in' cnt, emit [Message ''Failed to allocated job.''] sh)
           else bnd (aset (jobs sh) (job_count sh) pid) (\<lambda>a.
                bnd (print_pgm 20 ps (Some i)) (\<lambda>out.
                  Inr (Next nx fd_in' (cnt - 1), emit [Started pid out] (sh\<lparr>jobs := a, job_count := job_count sh + 1\<rparr>))))
      else Inr (Next nx fd_in' (cnt - 1), emit [Waited pid] (sh\<lparr>fg_pid := pid\<rparr>)))"

text \<open>One turn of \<open>while (p != NULL)\<close>. When \<open>fork\<close> fails the line is freed here and once more after the loop.\<close>

definition run_step :: "env \<Rightarrow> pstate \<Rightarrow> Command \<Rightarrow> nat \<Rightarrow> fd \<Rightarrow> int \<Rightarrow> shell \<Rightarrow> (control \<times> shell) res" where
  "run_step e ps c i fd_in cnt sh =
     bnd (aget (cmdbuf ps) i) (\<lambda>node.
     bnd (argv ps node) (\<lambda>args.
       case args of
         [] \<Rightarrow> Inl NullDeref
       | w # ws \<Rightarrow>
           if w = ''exit'' then Inr (Exit_shell 0, kill_bg_jobs sh)
           else if w = ''cd''
           then Inr (Next (pgm_next node) fd_in cnt, emit (cd_builtin e (case ws of [] \<Rightarrow> None | d # _ \<Rightarrow> Some d)) sh)
           else let k = nfork sh; pid = fork_pid e k; nxt = (pgm_next node \<noteq> None); sh1 = sh\<lparr>nfork := k + 1\<rparr>
                in if nxt \<and> \<not> pipe_ok e (Parent k) then Inr (Exit_shell 1, emit [Message ''Pipe''] sh1)
                   else if pid < 0 then Inl Undefined
                   else bnd (deref (pgm c)) (\<lambda>h. bnd (aget (cmdbuf ps) h) (\<lambda>hd_node.
                        bnd (opt_name ps (rstdin c)) (\<lambda>rin. bnd (opt_name ps (rstdout c)) (\<lambda>rout.
                          parent_proc ps c i (pgm_next node) pid (if nxt then Pipe_in (Parent k) else fd_in) cnt
                            (emit [Forked pid (child_proc e k fd_in nxt (pgm_next hd_node \<noteq> None) rin rout cnt (w # ws))] sh1)))))))"

datatype ending = Prompt | Exited int

text \<open>\<open>None\<close>: still running when the fuel is used up.\<close>

fun run :: "nat \<Rightarrow> env \<Rightarrow> pstate \<Rightarrow> Command \<Rightarrow> nat option \<Rightarrow> fd \<Rightarrow> int \<Rightarrow> shell \<Rightarrow> (ending \<times> shell) res option" where
  "run n e ps c None fd_in cnt sh = Some (Inr (Prompt, sh))"
| "run 0 e ps c (Some i) fd_in cnt sh = None"
| "run (Suc n) e ps c (Some i) fd_in cnt sh =
     (case run_step e ps c i fd_in cnt sh of
        Inl f \<Rightarrow> Some (Inl f)
      | Inr (Exit_shell k, sh') \<Rightarrow> Some (Inr (Exited k, sh'))
      | Inr (Next p fd' cnt', sh') \<Rightarrow> run n e ps c p fd' cnt' sh')"

text \<open>The number of programs, counted along the list.\<close>

fun count_pgms :: "nat \<Rightarrow> pstate \<Rightarrow> nat option \<Rightarrow> nat res" where
  "count_pgms n ps None = Inr 0"
| "count_pgms 0 ps (Some i) = Inl Undefined"
| "count_pgms (Suc n) ps (Some i) =
     bnd (aget (cmdbuf ps) i) (\<lambda>node. bnd (count_pgms n ps (pgm_next node)) (\<lambda>m. Inr (m + 1)))"

text \<open>One turn of the main loop; the line is what \<open>readline\<close> returns, \<open>None\<close> at the end of the input.\<close>

definition shell_line ::
    "nat \<Rightarrow> env \<Rightarrow> string option \<Rightarrow> pstate \<Rightarrow> shell \<Rightarrow> (ending \<times> pstate \<times> shell) res option" where
  "shell_line n e line ps sh =
     (case line of
        None \<Rightarrow> Some (Inr (Exited 0, ps, kill_bg_jobs sh))
      | Some l \<Rightarrow>
          (case stripwhite l of
             Inl f \<Rightarrow> Some (Inl f)
           | Inr s \<Rightarrow>
               (case parse s ps of
                  Inl f \<Rightarrow> Some (Inl f)
                | Inr (r, c, ps1) \<Rightarrow>
                    if r = 1
                    then (case count_pgms 20 ps1 (pgm c) of
                            Inl f \<Rightarrow> Some (Inl f)
                          | Inr m \<Rightarrow> map_option (\<lambda>x. bnd x (\<lambda>(en, sh1). Inr (en, ps1, sh1)))
                                       (run n e ps1 c (pgm c) Std_in (int m) sh))
                    else Some (Inr (Prompt, ps1, emit [Message ''Parse ERROR''] sh)))))"

subsection \<open>Stripping and jobs, as specified\<close>

lemma last_black_trim:
  "i < length s \<Longrightarrow> \<not> is_space (s ! 0) \<Longrightarrow>
     take (last_black s i + 1) s = rev (dropWhile is_space (rev (take (i + 1) s)))"
proof (induction i)
  case 0
  then show ?case by (cases s) simp_all
next
  case (Suc i)
  have "take (Suc i + 1) s = take (i + 1) s @ [s ! Suc i]" using Suc.prems by (simp add: take_Suc_conv_app_nth)
  then show ?case using Suc by simp
qed

definition trim :: "string \<Rightarrow> string" where
  "trim s = rev (dropWhile is_space (rev (dropWhile is_space s)))"

lemma stripwhite_trim: "dropWhile is_space s \<noteq> [] \<Longrightarrow> stripwhite s = Inr (trim s)"
proof -
  let ?t = "dropWhile is_space s"
  assume ne: "?t \<noteq> []"
  then have "\<not> is_space (?t ! 0)" using hd_dropWhile [OF ne] by (simp add: hd_conv_nth)
  with ne have "take (last_black ?t (length ?t - 1) + 1) ?t = rev (dropWhile is_space (rev ?t))"
    using last_black_trim [of "length ?t - 1" ?t] by simp
  then show ?thesis using ne by (simp only: stripwhite_def trim_def Let_def if_False)
qed

lemma stripwhite_blank: "dropWhile is_space s = [] \<Longrightarrow> stripwhite s = Inl OutOfBounds"
  by (simp only: stripwhite_def Let_def if_True refl)

text \<open>The jobs in use.\<close>

definition job_list :: "shell \<Rightarrow> int list" where "job_list sh = take (job_count sh) (jobs sh)"

definition jobs_ok :: "shell \<Rightarrow> bool" where
  "jobs_ok sh \<longleftrightarrow> length (jobs sh) = MAX_LEN \<and> job_count sh \<le> MAX_LEN"

lemma shift_jobs_spec:
  "j < c \<Longrightarrow> c \<le> length a \<Longrightarrow>
     length (shift_jobs j c a) = length a \<and> take (c - 1) (shift_jobs j c a) = take j a @ take (c - 1 - j) (drop (j + 1) a)"
proof (induction j c a rule: shift_jobs.induct)
  case (1 j c a)
  show ?case
  proof (cases "j + 1 < c")
    case False
    then have "c = j + 1" using "1.prems" by simp
    then show ?thesis by (simp add: shift_jobs.simps)
  next
    case True
    let ?a = "a[j := a ! (j + 1)]"
    have "take (j + 1) ?a = take j a @ [a ! (j + 1)]" using True "1.prems" by (simp add: take_Suc_conv_app_nth)
    moreover have "drop (j + 2) ?a = drop (j + 2) a" by simp
    moreover have "take (c - 1 - j) (drop (j + 1) a) = a ! (j + 1) # take (c - 1 - (j + 1)) (drop (j + 2) a)"
      using True "1.prems" by (simp add: Cons_nth_drop_Suc [symmetric] take_Cons' Suc_diff_Suc)
    ultimately show ?thesis using 1(1) [OF True] True "1.prems" by (simp add: shift_jobs.simps [of j c a])
  qed
qed

lemma remove1_at: "xs ! i = x \<Longrightarrow> i < length xs \<Longrightarrow> x \<notin> set (take i xs) \<Longrightarrow> remove1 x xs = take i xs @ drop (i + 1) xs"
proof -
  assume a: "xs ! i = x" "i < length xs" "x \<notin> set (take i xs)"
  then have "xs = take i xs @ x # drop (i + 1) xs" using id_take_nth_drop [of i xs] by simp
  then have "remove1 x xs = remove1 x (take i xs @ x # drop (i + 1) xs)" by simp
  also have "\<dots> = take i xs @ drop (i + 1) xs" using a(3) by (simp add: remove1_append)
  finally show ?thesis .
qed

lemma remove_job_spec:
  "jobs_ok sh \<Longrightarrow> pid \<notin> set (take i (job_list sh)) \<Longrightarrow> i \<le> job_count sh \<Longrightarrow>
     jobs_ok (remove_job pid i sh) \<and> job_list (remove_job pid i sh) = remove1 pid (job_list sh)"
proof (induction pid i sh rule: remove_job.induct)
  case (1 pid i sh)
  have len: "job_count sh \<le> length (jobs sh)" "length (job_list sh) = job_count sh"
    using "1.prems"(1) by (auto simp: jobs_ok_def job_list_def)
  show ?case
  proof (cases "i < job_count sh")
    case False
    then have "pid \<notin> set (job_list sh)" using "1.prems"(2,3) len(2) by simp
    then show ?thesis using False "1.prems"(1) by (simp add: remove_job.simps [of pid i] remove1_idem)
  next
    case i: True
    then have nth: "job_list sh ! i = jobs sh ! i" by (simp add: job_list_def)
    show ?thesis
    proof (cases "jobs sh ! i = pid")
      case True
      have "take (job_count sh - 1) (shift_jobs i (job_count sh) (jobs sh)) = take i (job_list sh) @ drop (i + 1) (job_list sh)"
        using shift_jobs_spec [OF i len(1)] i by (simp add: job_list_def drop_take min_absorb1)
      then show ?thesis using True i "1.prems" nth len shift_jobs_spec [OF i len(1)]
          remove1_at [of "job_list sh" i pid]
        by (auto simp: remove_job.simps [of pid i] jobs_ok_def job_list_def)
    next
      case False
      then have "pid \<notin> set (take (i + 1) (job_list sh))"
        using "1.prems"(2) nth len(2) i by (simp add: take_Suc_conv_app_nth)
      then show ?thesis using "1.IH" [OF i False "1.prems"(1)] False i
        by (simp add: remove_job.simps [of pid i])
    qed
  qed
qed

lemma emit_jobs [simp]: "job_list (emit es sh) = job_list sh" "jobs_ok (emit es sh) = jobs_ok sh"
  by (simp_all add: job_list_def jobs_ok_def)

lemma check_job_jobs [simp]: "job_list (check_job sh) = job_list sh" "jobs_ok (check_job sh) = jobs_ok sh"
  by (simp_all add: check_job_def)

lemma check_job_lists: "jobs_ok sh \<Longrightarrow> log (check_job sh) = log sh @ map (\<lambda>(i, pid). Listed i pid) (enumerate 0 (job_list sh))"
  by (auto simp: check_job_def jobs_ok_def job_list_def enumerate_eq_zip intro!: nth_equalityI)

lemma child_handler_spec:
  "jobs_ok sh \<Longrightarrow> jobs_ok (child_handler pids sh) \<and> job_list (child_handler pids sh) = fold remove1 pids (job_list sh)"
proof (induction pids arbitrary: sh)
  case (Cons pid r)
  have "jobs_ok (remove_job pid 0 sh) \<and> job_list (remove_job pid 0 sh) = remove1 pid (job_list sh)"
    using remove_job_spec [OF Cons.prems, of pid 0] by simp
  then show ?case using Cons.IH [of "check_job (emit [Message ''finished''] (remove_job pid 0 sh))"] by simp
qed simp

subsection \<open>Reading the parsed command back\<close>

lemma args_from_rep:
  "args_rep ps i ws \<Longrightarrow> args_from (cbuf ps) (drop i (pbuf ps)) = Inr ws"
proof (induction ws arbitrary: i)
  case Nil
  then have "drop i (pbuf ps) = None # drop (i + 1) (pbuf ps)" by (auto simp: Cons_nth_drop_Suc [symmetric])
  then show ?case by simp
next
  case (Cons w ws)
  then obtain p where p: "pbuf ps ! i = Some p" "tok_rep ps p w" by (auto split: option.splits)
  then have "drop i (pbuf ps) = Some p # drop (i + 1) (pbuf ps)" using Cons.prems by (auto simp: Cons_nth_drop_Suc [symmetric])
  then show ?case using Cons tok_rep_str [OF p(2)] by simp
qed

lemma represents_node:
  assumes "represents ps c sp" "j < length (progs sp)"
  shows "aget (cmdbuf ps) j = Inr (cmdbuf ps ! j)" "argv ps (cmdbuf ps ! j) = Inr (progs sp ! j)"
    "pgm_next (cmdbuf ps ! j) = (if j = 0 then None else Some (j - 1))"
  using assms args_from_rep by (auto simp: represents_def free_from_def prog_rep_def argv_def)

text \<open>The list position after \<open>j\<close> programs are left.\<close>

definition left :: "nat \<Rightarrow> nat option" where "left j = (if j = 0 then None else Some (j - 1))"

lemma left_simps [simp]: "left 0 = None" "left (Suc j) = Some j" "left j = None \<longleftrightarrow> j = 0"
  "(\<exists>i. left j = Some i) \<longleftrightarrow> 0 < j"
  by (simp_all add: left_def)

lemma represents_next: "represents ps c sp \<Longrightarrow> j < length (progs sp) \<Longrightarrow> pgm_next (cmdbuf ps ! j) = left j"
  using represents_node(3) by (auto simp: left_def)

lemma represents_pgm: "represents ps c sp \<Longrightarrow> pgm c = left (length (progs sp))"
  by (simp add: represents_def left_def)

lemma count_pgms_rep: "represents ps c sp \<Longrightarrow> j \<le> length (progs sp) \<Longrightarrow> j \<le> n \<Longrightarrow> count_pgms n ps (left j) = Inr j"
proof (induction j arbitrary: n)
  case (Suc j)
  then show ?case using represents_node(1) [of ps c sp j] represents_next [of ps c sp j] by (cases n) simp_all
qed simp

lemma print_pgm_rep:
  "represents ps c sp \<Longrightarrow> j \<le> length (progs sp) \<Longrightarrow> j \<le> n \<Longrightarrow>
     print_pgm n ps (left j) = Inr (concat (map pgm_line (take j (progs sp))))"
proof (induction j arbitrary: n)
  case (Suc j)
  then show ?case using represents_node [of ps c sp j] represents_next [of ps c sp j]
    by (cases n) (simp_all add: take_Suc_conv_app_nth)
qed simp

lemma rep_length: "represents ps c sp \<Longrightarrow> length (progs sp) \<le> 20"
  by (simp add: represents_def free_from_def)

lemma rep_opt_name: "represents ps c sp \<Longrightarrow> opt_name ps (rstdin c) = Inr (p_in sp)"
  "represents ps c sp \<Longrightarrow> opt_name ps (rstdout c) = Inr (p_out sp)"
  by (auto simp: represents_def opt_name_def tok_rep_str elim!: option.rel_cases)

subsection \<open>Running a parsed command\<close>

text \<open>
  The same on lists: the programs are started from the last one to the first, \<open>>\<close> is never applied and
  \<open><\<close> only to a command of several programs, then to each of them.
\<close>

definition spawn :: "env \<Rightarrow> nat \<Rightarrow> fd \<Rightarrow> bool \<Rightarrow> bool \<Rightarrow> string option \<Rightarrow> string list \<Rightarrow> child" where
  "spawn e k fd_in nxt several rin args =
     (if nxt \<and> \<not> pipe_ok e (Child k) then Child_exit
      else let out = (if nxt then Pipe_out (Child k) else Std_out)
           in case rin of
                None \<Rightarrow> Exec args fd_in out
              | Some f \<Rightarrow> if \<not> several then Exec args fd_in out
                         else if can_read e f then Exec args (File_r f) out else Child_exit)"

lemma child_proc_spawn: "0 < cnt \<Longrightarrow> child_proc e k fd_in nxt several rin rout cnt args = spawn e k fd_in nxt several rin args"
  by (cases rin) (simp_all add: child_proc_def spawn_def)

definition started :: "bool \<Rightarrow> int \<Rightarrow> string list list \<Rightarrow> shell \<Rightarrow> shell" where
  "started bg pid todo sh =
     (if bg then emit [Started pid (concat (map pgm_line (rev todo)))]
                  (sh\<lparr>jobs := (jobs sh)[job_count sh := pid], job_count := job_count sh + 1\<rparr>)
      else emit [Waited pid] (sh\<lparr>fg_pid := pid\<rparr>))"

fun launch :: "env \<Rightarrow> bool \<Rightarrow> bool \<Rightarrow> string option \<Rightarrow> fd \<Rightarrow> string list list \<Rightarrow> shell \<Rightarrow> ending \<times> shell" where
  "launch e bg several rin fd_in [] sh = (Prompt, sh)"
| "launch e bg several rin fd_in (ws # r) sh =
     (if hd ws = ''exit'' then (Exited 0, kill_bg_jobs sh)
      else if hd ws = ''cd''
      then launch e bg several rin fd_in r (emit (cd_builtin e (if tl ws = [] then None else Some (hd (tl ws)))) sh)
      else let k = nfork sh; pid = fork_pid e k; sh1 = sh\<lparr>nfork := k + 1\<rparr>
           in if r \<noteq> [] \<and> \<not> pipe_ok e (Parent k) then (Exited 1, emit [Message ''Pipe''] sh1)
              else launch e bg several rin (if r \<noteq> [] then Pipe_in (Parent k) else fd_in) r
                     (started bg pid (ws # r) (emit [Forked pid (spawn e k fd_in (r \<noteq> []) several rin ws)] sh1)))"

lemma nonempty_cases: "ws \<noteq> [] \<Longrightarrow> ws = hd ws # tl ws" by simp

lemma started_count [simp]:
  "length (jobs (started bg pid todo sh)) = length (jobs sh)"
  "job_count (started bg pid todo sh) = job_count sh + (if bg then 1 else 0)"
  by (simp_all add: started_def)

text \<open>One turn of the loop at program \<open>j\<close>.\<close>

lemma run_step_launch:
  assumes r: "represents ps c sp" and j: "j < length (progs sp)" and ne: "progs sp ! j \<noteq> []"
    and ws: "hd (progs sp ! j) \<noteq> ''exit''" "hd (progs sp ! j) \<noteq> ''cd''"
    and pid: "0 \<le> fork_pid e (nfork sh)" and pipe: "j = 0 \<or> pipe_ok e (Parent (nfork sh))"
    and cnt: "0 < cnt" and room: "background c \<longrightarrow> job_count sh < MAX_LEN \<and> length (jobs sh) = MAX_LEN"
  shows "run_step e ps c j fd_in cnt sh =
     Inr (Next (left j) (if 0 < j then Pipe_in (Parent (nfork sh)) else fd_in) (cnt - 1),
          started (background c) (fork_pid e (nfork sh)) (rev (take (j + 1) (progs sp)))
            (emit [Forked (fork_pid e (nfork sh)) (spawn e (nfork sh) fd_in (0 < j) (1 < length (progs sp)) (p_in sp) (progs sp ! j))]
              (sh\<lparr>nfork := nfork sh + 1\<rparr>)))"
proof -
  let ?m = "length (progs sp)"
  have nx: "pgm_next (cmdbuf ps ! j) = left j" using represents_next [OF r j] .
  obtain m where m: "?m = Suc m" using j by (cases ?m) auto
  have head: "pgm c = Some m" "aget (cmdbuf ps) m = Inr (cmdbuf ps ! m)" "pgm_next (cmdbuf ps ! m) = left m"
    using represents_pgm [OF r] represents_node(1) [OF r] represents_next [OF r] m by simp_all
  have pr: "print_pgm 20 ps (Some j) = Inr (concat (map pgm_line (take (j + 1) (progs sp))))"
    using print_pgm_rep [OF r, of "Suc j" 20] j rep_length [OF r] by simp
  have "progs sp ! j = hd (progs sp ! j) # tl (progs sp ! j)" using ne by simp
  then obtain w t where wt: "progs sp ! j = w # t" by blast
  have several: "(pgm_next (cmdbuf ps ! m) \<noteq> None) = (1 < ?m)" using head(3) m by simp
  show ?thesis
    using represents_node(1,2) [OF r j] nx head pr wt ws pid pipe room several rep_opt_name [OF r] child_proc_spawn [OF cnt] m
    by (auto simp: run_step_def parent_proc_def started_def Let_def)
qed

lemma run_step_cd:
  assumes r: "represents ps c sp" and j: "j < length (progs sp)" and ne: "progs sp ! j \<noteq> []" and cd: "hd (progs sp ! j) = ''cd''"
  shows "run_step e ps c j fd_in cnt sh =
     Inr (Next (left j) fd_in cnt,
          emit (cd_builtin e (if tl (progs sp ! j) = [] then None else Some (hd (tl (progs sp ! j))))) sh)"
proof -
  obtain w t where wt: "progs sp ! j = w # t" using ne by (cases "progs sp ! j") auto
  then show ?thesis using represents_node(1,2) [OF r j] represents_next [OF r j] cd
    by (cases t) (simp_all add: run_step_def)
qed

lemma run_step_exit:
  assumes r: "represents ps c sp" and j: "j < length (progs sp)" and ne: "progs sp ! j \<noteq> []" and ex: "hd (progs sp ! j) = ''exit''"
  shows "run_step e ps c j fd_in cnt sh = Inr (Exit_shell 0, kill_bg_jobs sh)"
proof -
  obtain w t where wt: "progs sp ! j = w # t" using ne by (cases "progs sp ! j") auto
  then show ?thesis using represents_node(1,2) [OF r j] ex by (simp add: run_step_def)
qed

lemma run_step_pipe_fails:
  assumes r: "represents ps c sp" and j: "0 < j" "j < length (progs sp)" and ne: "progs sp ! j \<noteq> []"
    and ws: "hd (progs sp ! j) \<noteq> ''exit''" "hd (progs sp ! j) \<noteq> ''cd''" and pipe: "\<not> pipe_ok e (Parent (nfork sh))"
  shows "run_step e ps c j fd_in cnt sh = Inr (Exit_shell 1, emit [Message ''Pipe''] (sh\<lparr>nfork := nfork sh + 1\<rparr>))"
proof -
  obtain w t where wt: "progs sp ! j = w # t" using ne by (cases "progs sp ! j") auto
  then show ?thesis using represents_node(1,2) [OF r j(2)] represents_next [OF r j(2)] ws j pipe
    by (simp add: run_step_def Let_def)
qed

theorem run_launches:
  assumes r: "represents ps c sp" and ne: "\<forall>ws\<in>set (progs sp). ws \<noteq> []" and pids: "\<forall>k. 0 \<le> fork_pid e k"
  shows "j \<le> length (progs sp) \<Longrightarrow> j \<le> n \<Longrightarrow> int j \<le> cnt
     \<Longrightarrow> background c \<longrightarrow> job_count sh + j \<le> MAX_LEN \<and> length (jobs sh) = MAX_LEN
     \<Longrightarrow> run n e ps c (left j) fd_in cnt sh =
           Some (Inr (launch e (background c) (1 < length (progs sp)) (p_in sp) fd_in (rev (take j (progs sp))) sh))"
proof (induction j arbitrary: n fd_in cnt sh)
  case 0
  then show ?case by simp
next
  case (Suc j)
  then obtain n' where n: "n = Suc n'" by (cases n) auto
  have j: "j < length (progs sp)" using Suc.prems by simp
  then have nej: "progs sp ! j \<noteq> []" using ne by simp
  have tk: "rev (take (Suc j) (progs sp)) = progs sp ! j # rev (take j (progs sp))"
    using j by (simp add: take_Suc_conv_app_nth)
  have em: "rev (take j (progs sp)) \<noteq> [] \<longleftrightarrow> 0 < j" using j by auto
  note IH = Suc.IH [of n']
  consider "hd (progs sp ! j) = ''exit''" | "hd (progs sp ! j) = ''cd''"
    | (pf) "hd (progs sp ! j) \<noteq> ''exit''" "hd (progs sp ! j) \<noteq> ''cd''" "0 < j" "\<not> pipe_ok e (Parent (nfork sh))"
    | (go) "hd (progs sp ! j) \<noteq> ''exit''" "hd (progs sp ! j) \<noteq> ''cd''" "j = 0 \<or> pipe_ok e (Parent (nfork sh))"
    by blast
  then show ?case
  proof cases
    case 1
    then show ?thesis using run_step_exit [OF r j nej] n unfolding tk by simp
  next
    case 2
    have "background c \<longrightarrow> job_count sh + j \<le> MAX_LEN \<and> length (jobs sh) = MAX_LEN" "int j \<le> cnt" "j \<le> n'"
      using Suc.prems n by auto
    then show ?thesis using 2 run_step_cd [OF r j nej 2] n IH j unfolding tk by simp
  next
    case pf
    then show ?thesis using run_step_pipe_fails [OF r pf(3) j nej pf(1,2,4)] n em unfolding tk by (simp add: Let_def)
  next
    case go
    have "run_step e ps c j fd_in cnt sh =
       Inr (Next (left j) (if 0 < j then Pipe_in (Parent (nfork sh)) else fd_in) (cnt - 1),
          started (background c) (fork_pid e (nfork sh)) (rev (take (j + 1) (progs sp)))
            (emit [Forked (fork_pid e (nfork sh)) (spawn e (nfork sh) fd_in (0 < j) (1 < length (progs sp)) (p_in sp) (progs sp ! j))]
              (sh\<lparr>nfork := nfork sh + 1\<rparr>)))"
      using Suc.prems pids by (intro run_step_launch [OF r j nej go(1,2)] go(3)) auto
    then show ?thesis using go n em IH Suc.prems tk by (auto simp: Let_def)
  qed
qed

end
