(* ===== verification/Lsh_Session.thy ===== *)
theory Lsh_Session
  imports Lsh_Shell
begin

section \<open>The shell: sessions\<close>

text \<open>
  Lines and signals as a step relation on the parser's buffers and the shell's state, its invariant, and
  the composition of the parser with the loop: what a line of the grammar starts.
\<close>

subsection \<open>The buffers keep their sizes\<close>

definition sized :: "pstate \<Rightarrow> bool" where
  "sized ps \<longleftrightarrow> length (cbuf ps) = 256 \<and> length (pbuf ps) = 50 \<and> length (cmdbuf ps) = 20"

lemma aset_length: "aset xs i v = Inr ys \<Longrightarrow> length ys = length xs"
  by (auto simp: aset_def split: if_splits)

lemma put_char_size: "put_char c ps = Inr ps' \<Longrightarrow> sized ps \<Longrightarrow> sized ps'"
  by (auto simp: put_char_def sized_def dest: aset_length)

lemma push_arg_size: "push_arg a ps = Inr ps' \<Longrightarrow> sized ps \<Longrightarrow> sized ps'"
  by (auto simp: push_arg_def sized_def dest: aset_length)

lemma word_loop_size: "word_loop s ps = Inr (n, ps') \<Longrightarrow> sized ps \<Longrightarrow> sized ps'"
proof (induction s arbitrary: ps n)
  case Nil
  then show ?case using put_char_size by auto
next
  case (Cons c s)
  then obtain ps1 where p: "put_char c ps = Inr ps1" by auto
  then have "sized ps1" using put_char_size Cons.prems(2) by blast
  then show ?case using Cons p by (auto split: if_splits)
qed

lemma sized_cbuf_p [simp]: "sized (ps\<lparr>cbuf_p := i\<rparr>) = sized ps" "sized (ps\<lparr>cmds := q\<rparr>) = sized ps"
  by (simp_all add: sized_def)

lemma nexttoken_size: "nexttoken s ps = Inr (n, tok, ps') \<Longrightarrow> sized ps \<Longrightarrow> sized ps'"
proof (cases "dropWhile is_space s")
  case Nil
  moreover assume "nexttoken s ps = Inr (n, tok, ps')" "sized ps"
  ultimately show ?thesis unfolding nexttoken_def Let_def by (simp only: list.case) auto
next
  case (Cons c r)
  moreover assume nt: "nexttoken s ps = Inr (n, tok, ps')" and ps: "sized ps"
  ultimately obtain ps1 where p: "put_char c ps = Inr ps1"
    using nexttoken_Spec [OF Cons] nexttoken_Word [OF Cons] by (cases "isspec c") auto
  note s1 = put_char_size [OF p ps]
  show ?thesis
  proof (cases "isspec c")
    case True
    then show ?thesis using nt p s1 nexttoken_Spec [OF Cons True] put_char_size by auto
  next
    case False
    with nt p nexttoken_Word [OF Cons False] obtain m ps2 where
      "word_loop r ps1 = Inr (m, ps2)" "put_char NUL (ps2\<lparr>cbuf_p := cbuf_p ps2 - 1\<rparr>) = Inr ps'" by auto
    then show ?thesis using s1 word_loop_size put_char_size sized_cbuf_p by metis
  qed
qed

lemma acmd_loop_size: "acmd_loop s cnt ps = Inr (n, ps') \<Longrightarrow> sized ps \<Longrightarrow> sized ps'"
proof (induction s cnt ps rule: acmd_loop.induct)
  case (1 s cnt ps)
  from "1.prems" obtain k tok ps1 where nt: "nexttoken s ps = Inr (k, tok, ps1)"
    by (subst (asm) acmd_loop.simps) (auto simp: bnd_Inr_iff)
  note s1 = nexttoken_size [OF nt "1.prems"(2)]
  consider (last) ps2 where "push_arg None ps1 = Inr ps2" "ps' = ps2"
    | (more) c ps2 where "k \<noteq> 0" "aget (cbuf ps1) tok = Inr c" "\<not> isspec c" "push_arg (Some tok) ps1 = Inr ps2"
        "acmd_loop (drop k s) (cnt + k) ps2 = Inr (n, ps')"
    using "1.prems"(1) nt by (subst (asm) acmd_loop.simps) (auto split: if_splits)
  then show ?case
  proof cases
    case last
    then show ?thesis using s1 push_arg_size by blast
  next
    case more
    then show ?thesis using "1.IH" [OF nt refl refl more(1,2,3,4)] s1 push_arg_size by blast
  qed
qed

lemma sized_cmdbuf: "aset (cmdbuf ps) i v = Inr b \<Longrightarrow> sized (ps\<lparr>cmdbuf := b\<rparr>) = sized ps"
  by (auto simp: sized_def dest: aset_length)

lemma acmd_size: "acmd s ps = Inr (n, c, ps') \<Longrightarrow> sized ps \<Longrightarrow> sized ps'"
  unfolding acmd_def by (auto dest!: acmd_loop_size simp: sized_cmdbuf sized_def dest: aset_length)

lemma parse_from_size: "parse_from m t c ps = Inr (r, c', ps') \<Longrightarrow> sized ps \<Longrightarrow> sized ps'"
proof (induction m t c ps rule: parse_from.induct)
  case (1 t c ps)
  show ?case using "1.prems" "1.IH"
    by (fastforce simp: parse_from.simps(1) sized_cmdbuf split: if_splits dest: acmd_size)
next
  case (2 t c ps)
  obtain n tok ps1 where nt: "nexttoken t ps = Inr (n, tok, ps1)"
    using "2.prems"(1) by (cases "nexttoken t ps") (auto simp: parse_from.simps(2))
  note s1 = nexttoken_size [OF nt "2.prems"(2)]
  show ?case
  proof (cases "n = 0")
    case True
    then show ?thesis using "2.prems"(1) nt s1 by (simp add: parse_from.simps(2))
  next
    case False
    obtain ch where ch: "aget (cbuf ps1) tok = Inr ch"
      using "2.prems"(1) nt False by (cases "aget (cbuf ps1) tok") (auto simp: parse_from.simps(2))
    consider (bar) "ch = CHR ''|''" | (amp) "ch = CHR ''&''" | (less) "ch = CHR ''<''" | (gr) "ch = CHR ''>''"
      | (other) "ch \<noteq> CHR ''|''" "ch \<noteq> CHR ''&''" "ch \<noteq> CHR ''<''" "ch \<noteq> CHR ''>''" by blast
    then show ?thesis
    proof cases
      case bar
      then have "parse_from True (drop n t) c ps1 = Inr (r, c', ps')" using "2.prems"(1) nt False ch by (simp add: parse_from.simps(2))
      then show ?thesis using "2.IH"(1) [OF nt refl refl False ch bar] s1 by blast
    next
      case amp
      then show ?thesis using "2.prems"(1) nt False ch s1 nexttoken_size
        by (auto simp: parse_from.simps(2) split: if_splits)
    next
      case less
      show ?thesis
      proof (cases "rstdin c")
        case (Some x)
        then show ?thesis using "2.prems"(1) nt False ch less s1 by (simp add: parse_from.simps(2))
      next
        case None
        obtain n2 tok2 ps2 w where nn: "nexttoken (drop n t) ps1 = Inr (n2, tok2, ps2)" "str_at (cbuf ps2) tok2 = Inr w"
          using "2.prems"(1) nt False ch less None by (auto simp: parse_from.simps(2) bnd_Inr_iff)
        note s2 = nexttoken_size [OF nn(1) s1]
        have run: "isidentifier w \<Longrightarrow> parse_from False (drop n2 (drop n t)) (c\<lparr>rstdin := Some tok2\<rparr>) ps2 = Inr (r, c', ps')"
          "\<not> isidentifier w \<Longrightarrow> ps' = ps2"
          using "2.prems"(1) nt False ch less None nn by (simp_all add: parse_from.simps(2))
        then show ?thesis using "2.IH"(2) [OF nt refl refl False ch] less None nn s2 by (cases "isidentifier w") auto
      qed
    next
      case gr
      show ?thesis
      proof (cases "rstdout c")
        case (Some x)
        then show ?thesis using "2.prems"(1) nt False ch gr s1 by (simp add: parse_from.simps(2))
      next
        case None
        obtain n2 tok2 ps2 w where nn: "nexttoken (drop n t) ps1 = Inr (n2, tok2, ps2)" "str_at (cbuf ps2) tok2 = Inr w"
          using "2.prems"(1) nt False ch gr None by (auto simp: parse_from.simps(2) bnd_Inr_iff)
        note s2 = nexttoken_size [OF nn(1) s1]
        have run: "isidentifier w \<Longrightarrow> parse_from False (drop n2 (drop n t)) (c\<lparr>rstdout := Some tok2\<rparr>) ps2 = Inr (r, c', ps')"
          "\<not> isidentifier w \<Longrightarrow> ps' = ps2"
          using "2.prems"(1) nt False ch gr None nn by (simp_all add: parse_from.simps(2))
        then show ?thesis using "2.IH"(3) [OF nt refl refl False ch] gr None nn s2 by (cases "isidentifier w") auto
      qed
    next
      case other
      then show ?thesis using "2.prems"(1) nt False ch s1 by (simp add: parse_from.simps(2))
    qed
  qed
qed

lemma init_size: "sized ps \<Longrightarrow> sized (init ps)" by (simp add: sized_def init_def)

lemma parse_size: "parse s ps = Inr (r, c, ps') \<Longrightarrow> sized ps \<Longrightarrow> sized ps'"
  unfolding parse_def using parse_from_size init_size by blast

subsection \<open>Where the children's standard streams go\<close>

fun stream_ok :: "child \<Rightarrow> bool" where
  "stream_ok Child_exit = True"
| "stream_ok (Exec args i out) \<longleftrightarrow>
     (case i of Std_in \<Rightarrow> True | Pipe_in (Parent _) \<Rightarrow> True | File_r _ \<Rightarrow> True | _ \<Rightarrow> False)
     \<and> (case out of Std_out \<Rightarrow> True | Pipe_out (Child _) \<Rightarrow> True | File_w _ \<Rightarrow> True | _ \<Rightarrow> False)"

fun event_ok :: "event \<Rightarrow> bool" where
  "event_ok (Forked pid ch) = stream_ok ch"
| "event_ok _ = True"

definition log_ok :: "shell \<Rightarrow> bool" where "log_ok sh \<longleftrightarrow> (\<forall>ev\<in>set (log sh). event_ok ev)"

definition fd_ok :: "fd \<Rightarrow> bool" where
  "fd_ok f \<longleftrightarrow> (case f of Std_in \<Rightarrow> True | Pipe_in (Parent _) \<Rightarrow> True | _ \<Rightarrow> False)"

lemma child_proc_ok: "fd_ok fd_in \<Longrightarrow> stream_ok (child_proc e k fd_in nxt several rin rout cnt args)"
  by (auto simp: child_proc_def Let_def fd_ok_def split: fd.splits maker.splits)

lemma log_ok_emit [simp]: "log_ok (emit es sh) \<longleftrightarrow> log_ok sh \<and> (\<forall>ev\<in>set es. event_ok ev)"
  by (auto simp: log_ok_def)

lemma log_ok_fields [simp]:
  "log_ok (sh\<lparr>nfork := k\<rparr>) = log_ok sh" "log_ok (sh\<lparr>fg_pid := p\<rparr>) = log_ok sh" "log_ok (sh\<lparr>jobs := a\<rparr>) = log_ok sh"
  "log_ok (sh\<lparr>job_count := m\<rparr>) = log_ok sh"
  by (simp_all add: log_ok_def)

lemma jobs_ok_fields [simp]:
  "jobs_ok (sh\<lparr>nfork := k\<rparr>) = jobs_ok sh" "jobs_ok (sh\<lparr>fg_pid := p\<rparr>) = jobs_ok sh"
  by (simp_all add: jobs_ok_def)

lemma cd_events_ok [simp]: "\<forall>ev\<in>set (cd_builtin e path). event_ok ev"
  by (simp add: cd_builtin_def split: option.splits)

definition shell_ok :: "shell \<Rightarrow> bool" where "shell_ok sh \<longleftrightarrow> jobs_ok sh \<and> log_ok sh"

lemma parent_proc_ok:
  "parent_proc ps c i nx pid fd' cnt sh = Inr (Next p fd'' cnt', sh') \<Longrightarrow> shell_ok sh \<Longrightarrow> shell_ok sh' \<and> fd'' = fd'"
  by (auto simp: parent_proc_def shell_ok_def jobs_ok_def log_ok_def aset_def split: if_splits)

lemma parent_proc_Next: "parent_proc ps c i nx pid fd' cnt sh \<noteq> Inr (Exit_shell k, sh')"
  by (auto simp: parent_proc_def bnd_Inr_iff split: if_splits)

lemma kill_bg_jobs_ok [simp]: "shell_ok (kill_bg_jobs sh) = shell_ok sh"
  by (auto simp: shell_ok_def kill_bg_jobs_def)

lemma run_step_ok:
  assumes st: "run_step e ps c i fd_in cnt sh = Inr (ctl, sh')" and ok: "shell_ok sh" and fd: "fd_ok fd_in"
  shows "shell_ok sh' \<and> (case ctl of Next p fd' cnt' \<Rightarrow> fd_ok fd' | Exit_shell k \<Rightarrow> True)"
proof -
  from st obtain node args where a: "aget (cmdbuf ps) i = Inr node" "argv ps node = Inr args"
    by (auto simp: run_step_def)
  then obtain w ws where w: "args = w # ws" using st by (cases args) (auto simp: run_step_def)
  have par: "fd_ok (Pipe_in (Parent k))" for k by (simp add: fd_ok_def)
  consider "w = ''exit''" | "w \<noteq> ''exit''" "w = ''cd''" | (other) "w \<noteq> ''exit''" "w \<noteq> ''cd''" by blast
  then show ?thesis
  proof cases
    case 1
    then show ?thesis using st a w ok by (auto simp: run_step_def)
  next
    case 2
    then show ?thesis using st a w ok fd by (auto simp: run_step_def shell_ok_def)
  next
    case other
    let ?fd' = "if pgm_next node \<noteq> None then Pipe_in (Parent (nfork sh)) else fd_in"
    show ?thesis
    proof (cases "pgm_next node \<noteq> None \<and> \<not> pipe_ok e (Parent (nfork sh))")
      case True
      then show ?thesis using st a w other ok
        by (auto simp: run_step_def Let_def shell_ok_def log_ok_def jobs_ok_def)
    next
      case False
      then obtain nxt several rin rout where
        p: "parent_proc ps c i (pgm_next node) (fork_pid e (nfork sh)) ?fd' cnt
          (emit [Forked (fork_pid e (nfork sh)) (child_proc e (nfork sh) fd_in nxt several rin rout cnt args)]
            (sh\<lparr>nfork := nfork sh + 1\<rparr>)) = Inr (ctl, sh')"
        using st a w other by (auto simp: run_step_def Let_def split: if_splits)
      have ok1: "shell_ok (emit [Forked (fork_pid e (nfork sh)) (child_proc e (nfork sh) fd_in nxt several rin rout cnt args)]
            (sh\<lparr>nfork := nfork sh + 1\<rparr>))"
        using ok child_proc_ok [OF fd] by (simp add: shell_ok_def log_ok_def jobs_ok_def)
      show ?thesis
      proof (cases ctl)
        case (Next q fd'' cnt'')
        have "shell_ok sh' \<and> fd'' = ?fd'" using parent_proc_ok [OF p [unfolded Next] ok1] .
        then show ?thesis using Next fd par by simp
      next
        case (Exit_shell k)
        then show ?thesis using p parent_proc_Next by blast
      qed
    qed
  qed
qed

lemma run_ok:
  "run n e ps c p fd_in cnt sh = Some (Inr (en, sh')) \<Longrightarrow> shell_ok sh \<Longrightarrow> fd_ok fd_in \<Longrightarrow> shell_ok sh'"
proof (induction n e ps c p fd_in cnt sh rule: run.induct)
  case (3 n e ps c i fd_in cnt sh)
  then obtain ctl sh1 where st: "run_step e ps c i fd_in cnt sh = Inr (ctl, sh1)"
    by (cases "run_step e ps c i fd_in cnt sh") auto
  note ok = run_step_ok [OF st "3.prems"(2,3)]
  show ?case
  proof (cases ctl)
    case (Next p fd' cnt')
    then show ?thesis using "3.IH" [OF st refl Next] "3.prems"(1) ok st by simp
  next
    case (Exit_shell k)
    then show ?thesis using "3.prems"(1) ok st by simp
  qed
qed auto

subsection \<open>Sessions\<close>

text \<open>
  One step: a line processed to the next prompt, the interrupt key, or the signal that children have
  ended. Signals arrive between lines here; a handler run during a line is not modelled.
\<close>

inductive lsh_step :: "env \<Rightarrow> pstate \<times> shell \<Rightarrow> pstate \<times> shell \<Rightarrow> bool" for e where
  line: "shell_line n e (Some l) ps sh = Some (Inr (Prompt, ps', sh')) \<Longrightarrow> lsh_step e (ps, sh) (ps', sh')"
| interrupt: "lsh_step e (ps, sh) (ps, fg_handler sh)"
| reaped: "lsh_step e (ps, sh) (ps, child_handler pids sh)"

inductive lsh_reaches :: "env \<Rightarrow> pstate \<times> shell \<Rightarrow> bool" for e where
  start: "lsh_reaches e (pstate0, shell0)"
| more: "lsh_reaches e s \<Longrightarrow> lsh_step e s s' \<Longrightarrow> lsh_reaches e s'"

inductive_cases lsh_stepE: "lsh_step e s s'"

lemma shell_line_ok:
  assumes st: "shell_line n e (Some l) ps sh = Some (Inr (en, ps', sh'))" and ps: "sized ps" and sh: "shell_ok sh"
  shows "sized ps' \<and> shell_ok sh'"
proof -
  from st obtain s where s: "stripwhite l = Inr s" by (cases "stripwhite l") (auto simp: shell_line_def)
  with st obtain r c ps1 where p: "parse s ps = Inr (r, c, ps1)" by (cases "parse s ps") (auto simp: shell_line_def)
  note ps1 = parse_size [OF p ps]
  show ?thesis
  proof (cases "r = 1")
    case False
    then show ?thesis using st s p ps1 sh by (auto simp: shell_line_def shell_ok_def)
  next
    case True
    with st s p obtain m where m: "count_pgms 20 ps1 (pgm c) = Inr m"
      by (cases "count_pgms 20 ps1 (pgm c)") (auto simp: shell_line_def)
    with True st s p obtain x where "run n e ps1 c (pgm c) Std_in (int m) sh = Some x"
        "bnd x (\<lambda>(en, sh1). Inr (en, ps1, sh1)) = Inr (en, ps', sh')"
      by (auto simp: shell_line_def)
    then show ?thesis using run_ok [of n e ps1 c "pgm c" Std_in "int m" sh] ps1 sh by (auto simp: fd_ok_def)
  qed
qed

lemma child_handler_log: "log_ok sh \<Longrightarrow> log_ok (child_handler pids sh)"
proof (induction pids arbitrary: sh)
  case (Cons pid r)
  have "log (remove_job pid i sh) = log sh" for i
    by (induction pid i sh rule: remove_job.induct) (subst remove_job.simps, simp)
  then have "log_ok (check_job (emit [Message ''finished''] (remove_job pid 0 sh)))"
    using Cons.prems by (auto simp: log_ok_def check_job_def)
  then show ?case using Cons.IH by simp
qed simp

lemma lsh_step_ok: "lsh_step e s s' \<Longrightarrow> sized (fst s) \<Longrightarrow> shell_ok (snd s) \<Longrightarrow> sized (fst s') \<and> shell_ok (snd s')"
proof (induction rule: lsh_step.induct)
  case (line n l ps sh ps' sh')
  then show ?case using shell_line_ok by simp
next
  case (interrupt ps sh)
  then show ?case by (auto simp: shell_ok_def fg_handler_def)
next
  case (reaped ps sh pids)
  then show ?case using child_handler_spec child_handler_log by (auto simp: shell_ok_def)
qed

lemma lsh_reaches_ok: "lsh_reaches e s \<Longrightarrow> sized (fst s) \<and> shell_ok (snd s)"
proof (induction rule: lsh_reaches.induct)
  case start
  then show ?case by (simp add: sized_def pstate0_def shell_ok_def shell0_def jobs_ok_def log_ok_def)
next
  case (more s s')
  then show ?case using lsh_step_ok by blast
qed

subsection \<open>A line of the grammar\<close>

lemma parse_toks_nonempty:
  "parse_toks m ts sp = Some sp' \<Longrightarrow> \<forall>ws\<in>set (progs sp). ws \<noteq> [] \<Longrightarrow> \<forall>ws\<in>set (progs sp'). ws \<noteq> []"
proof (induction m ts sp rule: parse_toks.induct)
  case (1 ts sp)
  then have "takeWhile is_word ts \<noteq> []" by (auto split: if_splits)
  then show ?case using 1 by simp
next
  case (3 t ts sp)
  consider "t = Spec CHR ''|''" | "t = Spec CHR ''&''" | (less) "t = Spec CHR ''<''" | (gr) "t = Spec CHR ''>''"
    using "3.prems"(1) by (simp split: if_splits)
  then show ?case
  proof cases
    case less
    then obtain w us where "p_in sp = None" "ts = Word w # us" "isidentifier w"
      using "3.prems"(1) by (simp split: if_splits list.splits tok.splits)
    then show ?thesis using 3 less by simp
  next
    case gr
    then obtain w us where "p_out sp = None" "ts = Word w # us" "isidentifier w"
      using "3.prems"(1) by (simp split: if_splits list.splits tok.splits)
    then show ?thesis using 3 gr by simp
  qed (use 3 in \<open>auto split: if_splits\<close>)
qed simp

lemma grammar_nonempty: "grammar s = Some sp \<Longrightarrow> ws \<in> set (progs sp) \<Longrightarrow> ws \<noteq> []"
  unfolding grammar_def using parse_toks_nonempty [of True "tokens s"] by fastforce

lemma shell_line_parsed:
  assumes ps: "sized ps" and s: "stripwhite l = Inr s" "length s \<le> 39" "NUL \<notin> set s" "\<not> dangling (tokens s)"
    and g: "grammar s = Some sp" and pids: "\<forall>k. 0 \<le> fork_pid e k"
    and room: "p_bg sp \<longrightarrow> job_count sh + length (progs sp) \<le> MAX_LEN \<and> length (jobs sh) = MAX_LEN" and n: "20 \<le> n"
  shows "\<exists>ps'. sized ps' \<and> shell_line n e (Some l) ps sh =
    Some (Inr (case launch e (p_bg sp) (1 < length (progs sp)) (p_in sp) Std_in (rev (progs sp)) sh of
                 (en, sh') \<Rightarrow> (en, ps', sh')))"
proof -
  have "agrees (parse s ps) (grammar s)" using ps s by (intro parse_grammar) (auto simp: sized_def)
  then obtain r c ps' where p: "parse s ps = Inr (r, c, ps')" "r = 1" "represents ps' c sp"
    using g by (cases "parse s ps") auto
  have bg: "background c = p_bg sp" using p(3) by (simp add: represents_def)
  have "run n e ps' c (left (length (progs sp))) Std_in (int (length (progs sp))) sh =
     Some (Inr (launch e (background c) (1 < length (progs sp)) (p_in sp) Std_in (rev (progs sp)) sh))"
    using run_launches [OF p(3) _ pids, of "length (progs sp)" n "int (length (progs sp))" sh Std_in]
      grammar_nonempty [OF g] rep_length [OF p(3)] n room bg by simp
  moreover have "count_pgms 20 ps' (pgm c) = Inr (length (progs sp))"
    using count_pgms_rep [OF p(3), of "length (progs sp)" 20] represents_pgm [OF p(3)] rep_length [OF p(3)] by simp
  ultimately have "shell_line n e (Some l) ps sh =
      Some (bnd (Inr (launch e (p_bg sp) (1 < length (progs sp)) (p_in sp) Std_in (rev (progs sp)) sh))
        (\<lambda>(en, sh1). Inr (en, ps', sh1)))"
    using s(1) p(1,2) represents_pgm [OF p(3)] bg by (simp add: shell_line_def)
  then show ?thesis using parse_size [OF p(1) ps] by (intro exI [of _ ps']) (auto split: prod.splits)
qed

subsection \<open>The children of a line\<close>

fun child_of :: "event \<Rightarrow> child list" where
  "child_of (Forked pid ch) = [ch]"
| "child_of _ = []"

definition children :: "shell \<Rightarrow> child list" where "children sh = concat (map child_of (log sh))"

fun program :: "child \<Rightarrow> string list" where
  "program (Exec args i out) = args"
| "program Child_exit = []"

fun writes_file :: "child \<Rightarrow> bool" where
  "writes_file (Exec args i out) = (case out of File_w f \<Rightarrow> True | _ \<Rightarrow> False)"
| "writes_file Child_exit = False"

definition external :: "string list \<Rightarrow> bool" where
  "external ws \<longleftrightarrow> ws \<noteq> [] \<and> hd ws \<noteq> ''exit'' \<and> hd ws \<noteq> ''cd''"

text \<open>Every \<open>pipe\<close> and \<open>open\<close> succeeds.\<close>

definition willing :: "env \<Rightarrow> bool" where
  "willing e \<longleftrightarrow> (\<forall>m. pipe_ok e m) \<and> (\<forall>f. can_read e f)"

lemma spawn_program:
  "willing e \<Longrightarrow> program (spawn e k fd_in nxt several rin ws) = ws \<and> \<not> writes_file (spawn e k fd_in nxt several rin ws)"
  by (auto simp: willing_def spawn_def Let_def split: option.splits)

lemma children_started [simp]: "children (started bg pid todo sh) = children sh"
  by (simp add: children_def started_def)

lemma children_forked: "children (emit [Forked pid ch] (sh\<lparr>nfork := k\<rparr>)) = children sh @ [ch]"
  by (simp add: children_def)

lemma launch_children:
  "willing e \<Longrightarrow> \<forall>ws\<in>set wss. external ws \<Longrightarrow>
     fst (launch e bg several rin fd_in wss sh) = Prompt
     \<and> (\<exists>new. children (snd (launch e bg several rin fd_in wss sh)) = children sh @ new
          \<and> map program new = wss \<and> (\<forall>ch\<in>set new. \<not> writes_file ch))"
proof (induction wss arbitrary: fd_in sh)
  case (Cons ws r)
  let ?k = "nfork sh"
  let ?ch = "spawn e ?k fd_in (r \<noteq> []) several rin ws"
  let ?sh = "started bg (fork_pid e ?k) (ws # r) (emit [Forked (fork_pid e ?k) ?ch] (sh\<lparr>nfork := ?k + 1\<rparr>))"
  have ext: "external ws" using Cons.prems by simp
  have eq: "launch e bg several rin fd_in (ws # r) sh = launch e bg several rin (if r \<noteq> [] then Pipe_in (Parent ?k) else fd_in) r ?sh"
    using Cons.prems ext by (auto simp: external_def willing_def Let_def)
  obtain new where new: "fst (launch e bg several rin (if r \<noteq> [] then Pipe_in (Parent ?k) else fd_in) r ?sh) = Prompt"
    "children (snd (launch e bg several rin (if r \<noteq> [] then Pipe_in (Parent ?k) else fd_in) r ?sh)) = children ?sh @ new"
    "map program new = r" "\<forall>ch\<in>set new. \<not> writes_file ch"
    using Cons.IH [of "if r \<noteq> [] then Pipe_in (Parent ?k) else fd_in" ?sh] Cons.prems by auto
  have "children ?sh = children sh @ [?ch]" unfolding children_started children_forked ..
  then show ?case using new spawn_program [OF Cons.prems(1)] unfolding eq
    by (intro conjI exI [of _ "?ch # new"]) auto
qed simp

subsection \<open>An environment where everything succeeds\<close>

definition calm :: env where
  "calm = \<lparr>fork_pid = (\<lambda>k. int k + 100), pipe_ok = (\<lambda>_. True), can_read = (\<lambda>_. True), can_write = (\<lambda>_. True),
     chdir_ok = (\<lambda>_. True), home = None\<rparr>"

lemma calm_facts [simp]: "willing calm" "\<forall>k. 0 \<le> fork_pid calm k"
  by (simp_all add: calm_def willing_def)

lemma sized0 [simp]: "sized pstate0" by (simp add: sized_def pstate0_def)

end
