(* ===== verification/Lsh_Properties.thy ===== *)
theory Lsh_Properties
  imports Lsh_Session
begin

section \<open>The shell: properties\<close>

text \<open>
  What a user of \<open>OS-lab1/code\<close> can rely on, and what fails: the parser accepts its grammar; a line
  starts its programs from the last to the first, on pipes that no two of them share; a redirection without
  a file name takes what an earlier line left behind; the job table overflows.
\<close>

text \<open>
  C23. From any state of its static buffers, \<open>parse\<close> returns on every line of at most
  39 characters without a dangling redirection; it accepts exactly the lines of the grammar, and
  the pointers of the command then represent the parsed programs, redirections and background
  mark.
\<close>

theorem parser_implements_grammar:
  assumes "sized ps" and "NUL \<notin> set s" and "length s \<le> 39" and "\<not> dangling (tokens s)"
  shows "agrees (parse s ps) (grammar s)"
  using assms by (intro parse_grammar) (auto simp: sized_def)

lemma example_tokens:
  "tokens ''ls -l | wc > n'' = [Word ''ls'', Word ''-l'', Spec CHR ''|'', Word ''wc'', Spec CHR ''>'', Word ''n'']"
  by code_simp

theorem parser_implements_grammar_witness:
  "agrees (parse ''ls -l | wc > n'' pstate0)
     (Some \<lparr>progs = [[''ls'', ''-l''], [''wc'']], p_in = None, p_out = Some ''n'', p_bg = False\<rparr>)"
proof -
  have "grammar ''ls -l | wc > n'' = Some \<lparr>progs = [[''ls'', ''-l''], [''wc'']], p_in = None, p_out = Some ''n'', p_bg = False\<rparr>"
    by code_simp
  then show ?thesis using parser_implements_grammar [of pstate0 "''ls -l | wc > n''"]
    by (simp add: example_tokens dangling_def)
qed





lemma example_line:
  "stripwhite '' sleep 9 & '' = Inr ''sleep 9 &''"
  "tokens ''sleep 9 &'' = [Word ''sleep'', Word ''9'', Spec CHR ''&'']"
  "grammar ''sleep 9 &'' = Some \<lparr>progs = [[''sleep'', ''9'']], p_in = None, p_out = None, p_bg = True\<rparr>"
  by code_simp+


text \<open>
  When every system call succeeds, a foreground line without built-ins starts exactly its
  programs in the reverse of the order written, and none of them writes to a file, even when the
  line has an output redirection.
\<close>

lemma programs_run_backwards:
  assumes "sized ps" and "stripwhite l = Inr s" and "length s \<le> 39" and "NUL \<notin> set s"
    and "\<not> dangling (tokens s)" and "grammar s = Some sp" and "\<forall>k. 0 \<le> fork_pid e k" and "willing e"
    and "\<forall>ws\<in>set (progs sp). external ws" and "\<not> p_bg sp" and "20 \<le> n"
  shows "\<exists>ps' sh' new. shell_line n e (Some l) ps sh = Some (Inr (Prompt, ps', sh')) \<and> children sh' = children sh @ new
    \<and> map program new = rev (progs sp) \<and> (\<forall>ch\<in>set new. \<not> writes_file ch)"
proof -
  let ?L = "launch e (p_bg sp) (1 < length (progs sp)) (p_in sp) Std_in (rev (progs sp)) sh"
  obtain ps' where "shell_line n e (Some l) ps sh = Some (Inr (case ?L of (en, sh') \<Rightarrow> (en, ps', sh')))"
    using shell_line_parsed [OF assms(1-7) _ assms(11)] assms(10) by blast
  moreover obtain new where "fst ?L = Prompt" "children (snd ?L) = children sh @ new" "map program new = rev (progs sp)"
      "\<forall>ch\<in>set new. \<not> writes_file ch"
    using launch_children [OF assms(8), of "rev (progs sp)" "p_bg sp" "1 < length (progs sp)" "p_in sp" Std_in sh]
      assms(9) by (auto simp only: set_rev)
  ultimately show ?thesis by (intro exI [of _ ps'] exI [of _ "snd ?L"] exI [of _ new]) (simp add: split_beta)
qed

lemma example_pipe:
  "stripwhite ''ls -l | wc > n'' = Inr ''ls -l | wc > n''"
  "grammar ''ls -l | wc > n'' = Some \<lparr>progs = [[''ls'', ''-l''], [''wc'']], p_in = None, p_out = Some ''n'', p_bg = False\<rparr>"
  by code_simp+

lemma programs_run_backwards_witness:
  "\<exists>ps' sh' new. shell_line 20 calm (Some ''ls -l | wc > n'') pstate0 shell0 = Some (Inr (Prompt, ps', sh'))
    \<and> children sh' = children shell0 @ new \<and> map program new = [[''wc''], [''ls'', ''-l'']] \<and> (\<forall>ch\<in>set new. \<not> writes_file ch)"
  using programs_run_backwards [OF sized0 example_pipe(1) _ _ _ example_pipe(2), of calm 20 shell0]
  by (simp add: example_tokens dangling_def external_def)



text \<open>
  With 256 background jobs running, one more background command writes behind the end of the
  job table.
\<close>

lemma job_table_overflows:
  assumes "represents ps c sp" and "progs sp \<noteq> []" and "external (last (progs sp))" and "background c"
    and "job_count sh = MAX_LEN" and "length (jobs sh) = MAX_LEN" and "0 \<le> fork_pid e (nfork sh)"
    and "pipe_ok e (Parent (nfork sh))" and "0 < n"
  shows "run n e ps c (pgm c) Std_in cnt sh = Some (Inl OutOfBounds)"
proof -
  obtain m where m: "length (progs sp) = Suc m" using assms(2) by (cases "progs sp") auto
  then have j: "m < length (progs sp)" by simp
  have last: "last (progs sp) = progs sp ! m" using m by (simp add: last_conv_nth assms(2))
  obtain w ws where w: "progs sp ! m = w # ws" "w \<noteq> ''exit''" "w \<noteq> ''cd''"
    using assms(3) last by (cases "progs sp ! m") (auto simp: external_def)
  obtain n' where n: "n = Suc n'" using assms(9) by (cases n) auto
  have p: "pgm c = Some m" using represents_pgm [OF assms(1)] m by simp
  have "run_step e ps c m Std_in cnt sh = Inl OutOfBounds"
    using represents_node(1,2) [OF assms(1) j] w p assms(4-8) rep_opt_name [OF assms(1)]
    by (simp add: run_step_def parent_proc_def Let_def aset_out)
  then show ?thesis using n p by simp
qed

definition full :: shell where "full = shell0\<lparr>job_count := MAX_LEN\<rparr>"

lemma job_table_overflows_witness:
  "\<exists>ps c. represents ps c \<lparr>progs = [[''sleep'', ''9'']], p_in = None, p_out = None, p_bg = True\<rparr>
     \<and> run 1 calm ps c (pgm c) Std_in 1 full = Some (Inl OutOfBounds)"
proof -
  have "agrees (parse ''sleep 9 &'' pstate0) (grammar ''sleep 9 &'')"
    using example_line(2) by (intro parse_grammar) (simp_all add: pstate0_def dangling_def)
  then obtain ps c where r: "represents ps c \<lparr>progs = [[''sleep'', ''9'']], p_in = None, p_out = None, p_bg = True\<rparr>"
    using example_line(3) by (cases "parse ''sleep 9 &'' pstate0") auto
  then have "background c" by (simp add: represents_def)
  then show ?thesis using job_table_overflows [OF r, of full calm 1 1] r
    by (auto simp: external_def full_def shell0_def calm_def)
qed

end
