(* ===== verification/Pintos_Timer.thy ===== *)
theory Pintos_Timer
  imports Prelude
begin

section \<open>Pintos: sleeping without busy waiting\<close>

text \<open>
  \<open>OS-lab2/timer.c\<close>. The list library of Pintos is not part of the repository: \<open>list_insert_ordered\<close> is the
  parameter \<open>ins\<close>, with what its documentation promises as a hypothesis. The thread functions called
  (\<open>thread_tick\<close>, \<open>thread_block\<close>, \<open>thread_unblock\<close>) are the log \<open>calls\<close>. Ticks are 64-bit signed numbers.
  \<open>intr_on\<close> is what \<open>intr_get_level () == INTR_ON\<close> says at the assertions.
\<close>

type_synonym i64 = "64 word"

datatype call = Thread_tick | Block nat | Unblock nat

record tstate =
  ticks :: i64
  sleep_ticks :: "nat \<Rightarrow> i64"
  thread_list :: "nat list"
  calls :: "call list"

type_synonym inserter = "(nat \<Rightarrow> nat \<Rightarrow> bool) \<Rightarrow> nat \<Rightarrow> nat list \<Rightarrow> nat list"

definition timer_init :: tstate where
  "timer_init = \<lparr>ticks = 0, sleep_ticks = (\<lambda>_. 0), thread_list = [], calls = []\<rparr>"

definition timer_ticks :: "tstate \<Rightarrow> i64" where "timer_ticks st = ticks st"

definition timer_elapsed :: "i64 \<Rightarrow> tstate \<Rightarrow> i64" where "timer_elapsed since st = timer_ticks st - since"

definition thread_comparison :: "tstate \<Rightarrow> nat \<Rightarrow> nat \<Rightarrow> bool" where
  "thread_comparison st t1 t2 \<longleftrightarrow> sint (sleep_ticks st t1) < sint (sleep_ticks st t2)"

text \<open>\<open>timer_sleep\<close> in two parts: interrupts are on until \<open>intr_disable\<close>.\<close>

definition sleep_begin :: "nat \<Rightarrow> i64 \<Rightarrow> tstate \<Rightarrow> tstate" where
  "sleep_begin current n st = (let start = timer_ticks st in st\<lparr>sleep_ticks := (sleep_ticks st)(current := start + n)\<rparr>)"

definition sleep_block :: "inserter \<Rightarrow> nat \<Rightarrow> tstate \<Rightarrow> tstate" where
  "sleep_block ins current st =
     st\<lparr>thread_list := ins (thread_comparison st) current (thread_list st), calls := calls st @ [Block current]\<rparr>"

definition sleep_call :: "inserter \<Rightarrow> nat \<Rightarrow> i64 \<Rightarrow> tstate \<Rightarrow> tstate" where
  "sleep_call ins current n st = sleep_block ins current (sleep_begin current n st)"

definition timer_sleep :: "inserter \<Rightarrow> bool \<Rightarrow> nat \<Rightarrow> i64 \<Rightarrow> tstate \<Rightarrow> tstate res" where
  "timer_sleep ins intr_on current n st = (if \<not> intr_on then Inl AssertFail else Inr (sleep_call ins current n st))"

fun wake_loop :: "nat list \<Rightarrow> tstate \<Rightarrow> tstate" where
  "wake_loop [] st = st\<lparr>thread_list := []\<rparr>"
| "wake_loop (t # ts) st =
     (if sint (timer_ticks st) < sint (sleep_ticks st t) then st\<lparr>thread_list := t # ts\<rparr>
      else wake_loop ts (st\<lparr>calls := calls st @ [Unblock t]\<rparr>))"

definition timer_interrupt :: "tstate \<Rightarrow> tstate" where
  "timer_interrupt st =
     (let st1 = st\<lparr>ticks := ticks st + 1, calls := calls st @ [Thread_tick]\<rparr> in wake_loop (thread_list st1) st1)"

subsection \<open>Delays\<close>

text \<open>Products and quotients of the conversions are taken in 64 bits; an overflow is undefined.\<close>

definition i64_val :: "int \<Rightarrow> int res" where
  "i64_val n = (if - (2 ^ 63) \<le> n \<and> n < 2 ^ 63 then Inr n else Inl Undefined)"

datatype delay = Sleep int | Busy int

definition real_time_delay :: "int \<Rightarrow> int \<Rightarrow> int \<Rightarrow> int \<Rightarrow> delay res" where
  "real_time_delay freq loops num denom =
     (if cmod denom 1000 \<noteq> 0 then Inl AssertFail
      else bnd (i64_val (loops * num)) (\<lambda>a.
           bnd (i64_val (cdiv a 1000 * freq)) (\<lambda>b.
             if cdiv denom 1000 = 0 then Inl DivByZero else Inr (Busy (cdiv b (cdiv denom 1000))))))"

definition real_time_sleep :: "bool \<Rightarrow> int \<Rightarrow> int \<Rightarrow> int \<Rightarrow> int \<Rightarrow> delay res" where
  "real_time_sleep intr_on freq loops num denom =
     bnd (i64_val (num * freq)) (\<lambda>a.
       if denom = 0 then Inl DivByZero
       else if \<not> intr_on then Inl AssertFail
       else if 0 < cdiv a denom then Inr (Sleep (cdiv a denom))
       else real_time_delay freq loops num denom)"

definition timer_msleep :: "bool \<Rightarrow> int \<Rightarrow> int \<Rightarrow> int \<Rightarrow> delay res" where
  "timer_msleep intr_on freq loops ms = real_time_sleep intr_on freq loops ms 1000"
definition timer_usleep :: "bool \<Rightarrow> int \<Rightarrow> int \<Rightarrow> int \<Rightarrow> delay res" where
  "timer_usleep intr_on freq loops us = real_time_sleep intr_on freq loops us (1000 * 1000)"
definition timer_nsleep :: "bool \<Rightarrow> int \<Rightarrow> int \<Rightarrow> int \<Rightarrow> delay res" where
  "timer_nsleep intr_on freq loops ns = real_time_sleep intr_on freq loops ns (1000 * 1000 * 1000)"
definition timer_mdelay :: "int \<Rightarrow> int \<Rightarrow> int \<Rightarrow> delay res" where
  "timer_mdelay freq loops ms = real_time_delay freq loops ms 1000"
definition timer_udelay :: "int \<Rightarrow> int \<Rightarrow> int \<Rightarrow> delay res" where
  "timer_udelay freq loops us = real_time_delay freq loops us (1000 * 1000)"
definition timer_ndelay :: "int \<Rightarrow> int \<Rightarrow> int \<Rightarrow> delay res" where
  "timer_ndelay freq loops ns = real_time_delay freq loops ns (1000 * 1000 * 1000)"

subsection \<open>Calibration\<close>

text \<open>
  Whether a number of loops takes longer than a tick is the parameter \<open>too_many\<close>. The first argument
  bounds the loop; after 22 doublings the value is 0 and the assertion fails.
\<close>

fun double_loop :: "nat \<Rightarrow> (u32 \<Rightarrow> bool) \<Rightarrow> u32 \<Rightarrow> u32 res" where
  "double_loop 0 too_many loops_per_tick = Inl Diverge"
| "double_loop (Suc n) too_many loops_per_tick =
     (if \<not> too_many (push_bit 1 loops_per_tick)
      then let l = push_bit 1 loops_per_tick in if l = 0 then Inl AssertFail else double_loop n too_many l
      else Inr loops_per_tick)"

fun refine_loop :: "nat \<Rightarrow> (u32 \<Rightarrow> bool) \<Rightarrow> u32 \<Rightarrow> u32 \<Rightarrow> u32 \<Rightarrow> u32 res" where
  "refine_loop 0 too_many high_bit test_bit loops_per_tick = Inl Diverge"
| "refine_loop (Suc n) too_many high_bit test_bit loops_per_tick =
     (if test_bit = drop_bit 10 high_bit then Inr loops_per_tick
      else refine_loop n too_many high_bit (drop_bit 1 test_bit)
             (if \<not> too_many (high_bit OR test_bit) then loops_per_tick OR test_bit else loops_per_tick))"

definition timer_calibrate :: "bool \<Rightarrow> (u32 \<Rightarrow> bool) \<Rightarrow> u32 res" where
  "timer_calibrate intr_on too_many =
     (if \<not> intr_on then Inl AssertFail
      else bnd (double_loop 23 too_many (push_bit 10 1)) (\<lambda>high_bit.
             refine_loop 33 too_many high_bit (drop_bit 1 high_bit) high_bit))"

subsection \<open>Waking\<close>

text \<open>What the list library documents: an ordered list stays ordered and gains the element.\<close>

definition inserts_ordered :: "inserter \<Rightarrow> bool" where
  "inserts_ordered ins \<longleftrightarrow> (\<forall>(key :: nat \<Rightarrow> int) x xs. sorted (map key xs) \<longrightarrow>
     sorted (map key (ins (\<lambda>a b. key a < key b) x xs)) \<and> mset (ins (\<lambda>a b. key a < key b) x xs) = mset (x # xs))"

fun insert_before :: inserter where
  "insert_before lt x [] = [x]"
| "insert_before lt x (y # ys) = (if lt x y then x # y # ys else y # insert_before lt x ys)"

lemma insert_before_ok: "inserts_ordered insert_before"
proof -
  have m: "mset (insert_before lt x xs) = mset (x # xs)" for lt x xs
    by (induction xs) auto
  have "sorted (map key xs) \<Longrightarrow> sorted (map key (insert_before (\<lambda>a b. key a < key b) x xs))" for key :: "nat \<Rightarrow> int" and x xs
  proof (induction xs)
    case (Cons y ys)
    have "set (insert_before (\<lambda>a b. key a < key b) x ys) = set (x # ys)" by (metis m set_mset_mset)
    then show ?case using Cons by auto
  qed simp
  with m show ?thesis by (simp add: inserts_ordered_def)
qed

definition due :: "tstate \<Rightarrow> nat \<Rightarrow> bool" where
  "due st t \<longleftrightarrow> sint (sleep_ticks st t) \<le> sint (ticks st + 1)"

definition ordered :: "tstate \<Rightarrow> bool" where
  "ordered st \<longleftrightarrow> sorted (map (\<lambda>t. sint (sleep_ticks st t)) (thread_list st))"

lemma wake_loop_fields [simp]:
  "ticks (wake_loop ts st) = ticks st" "sleep_ticks (wake_loop ts st) = sleep_ticks st"
  by (induction ts st rule: wake_loop.induct) simp_all

lemma wake_loop_sorted:
  "sorted (map (\<lambda>t. sint (sleep_ticks st t)) ts) \<Longrightarrow>
     thread_list (wake_loop ts st) = filter (\<lambda>t. sint (ticks st) < sint (sleep_ticks st t)) ts
     \<and> calls (wake_loop ts st) = calls st @ map Unblock (filter (\<lambda>t. \<not> sint (ticks st) < sint (sleep_ticks st t)) ts)"
proof (induction ts st rule: wake_loop.induct)
  case (2 t ts st)
  show ?case
  proof (cases "sint (ticks st) < sint (sleep_ticks st t)")
    case True
    then have "\<forall>u\<in>set ts. sint (ticks st) < sint (sleep_ticks st u)" using "2.prems" by force
    then show ?thesis using True by (simp add: timer_ticks_def filter_empty_conv)
  next
    case False
    then show ?thesis using 2 by (simp add: timer_ticks_def)
  qed
qed simp

lemma timer_interrupt_ordered:
  "ordered st \<Longrightarrow> thread_list (timer_interrupt st) = filter (\<lambda>t. \<not> due st t) (thread_list st)
     \<and> calls (timer_interrupt st) = calls st @ Thread_tick # map Unblock (filter (due st) (thread_list st))"
  using wake_loop_sorted [of "st\<lparr>ticks := ticks st + 1, calls := calls st @ [Thread_tick]\<rparr>" "thread_list st"]
  by (simp add: ordered_def timer_interrupt_def Let_def due_def [abs_def] not_le not_less)

lemma timer_interrupt_fields [simp]:
  "ticks (timer_interrupt st) = ticks st + 1" "sleep_ticks (timer_interrupt st) = sleep_ticks st"
  by (simp_all add: timer_interrupt_def Let_def)

lemma timer_interrupt_keeps_order: "ordered st \<Longrightarrow> ordered (timer_interrupt st)"
  using timer_interrupt_ordered [of st] by (simp add: ordered_def sorted_filter)

lemma sleep_block_ordered:
  assumes "inserts_ordered ins" and "ordered st"
  shows "ordered (sleep_block ins t st) \<and> mset (thread_list (sleep_block ins t st)) = mset (t # thread_list st)"
  using assms unfolding inserts_ordered_def ordered_def sleep_block_def thread_comparison_def by simp

subsection \<open>Executions\<close>

text \<open>
  A thread that runs may begin to sleep; interrupts may come before it blocks. The second part of the state
  are the threads that have begun and not yet blocked.
\<close>

inductive tstep :: "inserter \<Rightarrow> tstate \<times> nat set \<Rightarrow> tstate \<times> nat set \<Rightarrow> bool" for ins where
  begins: "t \<notin> set (thread_list st) \<Longrightarrow> t \<notin> P \<Longrightarrow> tstep ins (st, P) (sleep_begin t n st, insert t P)"
| blocks: "t \<in> P \<Longrightarrow> tstep ins (st, P) (sleep_block ins t st, P - {t})"
| ticked: "tstep ins (st, P) (timer_interrupt st, P)"

inductive timed :: "inserter \<Rightarrow> tstate \<times> nat set \<Rightarrow> bool" for ins where
  start: "timed ins (timer_init, {})"
| step: "timed ins s \<Longrightarrow> tstep ins s s' \<Longrightarrow> timed ins s'"

inductive_cases tstepE: "tstep ins s s'"

definition timer_inv :: "tstate \<times> nat set \<Rightarrow> bool" where
  "timer_inv s \<longleftrightarrow> ordered (fst s) \<and> distinct (thread_list (fst s)) \<and> set (thread_list (fst s)) \<inter> snd s = {}"

lemma sleep_begin_ordered: "t \<notin> set (thread_list st) \<Longrightarrow> ordered (sleep_begin t n st) = ordered st"
proof -
  assume t: "t \<notin> set (thread_list st)"
  have "map (\<lambda>u. sint (sleep_ticks (sleep_begin t n st) u)) (thread_list st) = map (\<lambda>u. sint (sleep_ticks st u)) (thread_list st)"
    using t by (intro map_cong) (auto simp: sleep_begin_def Let_def)
  moreover have "thread_list (sleep_begin t n st) = thread_list st" by (simp add: sleep_begin_def Let_def)
  ultimately show ?thesis by (simp only: ordered_def)
qed

lemma timer_inv_step:
  assumes i: "inserts_ordered ins"
  shows "tstep ins s s' \<Longrightarrow> timer_inv s \<Longrightarrow> timer_inv s'"
proof (induction rule: tstep.induct)
  case (begins t st P n)
  then show ?case by (simp add: timer_inv_def sleep_begin_ordered) (simp add: sleep_begin_def Let_def)
next
  case (blocks t P st)
  have s: "ordered (sleep_block ins t st)" and m: "mset (thread_list (sleep_block ins t st)) = mset (t # thread_list st)"
    using sleep_block_ordered [OF i, of st t] blocks by (simp_all add: timer_inv_def)
  have "distinct (thread_list (sleep_block ins t st))" "set (thread_list (sleep_block ins t st)) = insert t (set (thread_list st))"
    using blocks m distinct_mset_eq [OF m] mset_eq_setD [OF m] by (auto simp: timer_inv_def)
  then show ?case using s blocks by (auto simp: timer_inv_def)
next
  case (ticked st P)
  then show ?case using timer_interrupt_keeps_order timer_interrupt_ordered [of st] by (auto simp: timer_inv_def)
qed

lemma timed_inv: "timed ins s \<Longrightarrow> inserts_ordered ins \<Longrightarrow> timer_inv s"
proof (induction rule: timed.induct)
  case start
  then show ?case by (simp add: timer_inv_def timer_init_def ordered_def)
next
  case (step s s')
  then show ?case using timer_inv_step by blast
qed

text \<open>A thread that sleeps \<open>n\<close> ticks is in the list for exactly the next \<open>n\<close> interrupts.\<close>

lemma funpow_fields:
  "ordered st \<Longrightarrow> ordered ((timer_interrupt ^^ k) st) \<and> ticks ((timer_interrupt ^^ k) st) = ticks st + of_nat k
     \<and> sleep_ticks ((timer_interrupt ^^ k) st) = sleep_ticks st"
  by (induction k) (simp_all add: timer_interrupt_keeps_order)

lemma sint64_add:
  assumes "- (2 ^ 63) \<le> sint a + sint (b :: i64)" and "sint a + sint b < 2 ^ 63"
  shows "sint (a + b) = sint a + sint b"
  using assms by (simp add: sint_word_add signed_take_bit_int_eq_self)

lemma sint64_add_nat:
  assumes "sint a + int k < 2 ^ 63" and "k < 2 ^ 63"
  shows "sint (a + of_nat k :: i64) = sint a + int k"
proof -
  have "sint (of_nat k :: i64) = signed_take_bit 63 (int k)" by transfer simp
  also have "\<dots> = int k" using assms(2) by (intro signed_take_bit_int_eq_self) simp_all
  finally have "sint (of_nat k :: i64) = int k" .
  then show ?thesis using assms sint_ge [of a] by (subst sint64_add) simp_all
qed

lemma sleeps_until:
  assumes o: "ordered st" and t: "t \<in> set (thread_list st)" and d: "sint (sleep_ticks st t) = sint (ticks st) + int n"
    and n: "0 < n" and ov: "sint (ticks st) + int n < 2 ^ 63" and nb: "n < 2 ^ 63"
  shows "k \<le> n \<Longrightarrow> t \<in> set (thread_list ((timer_interrupt ^^ k) st)) \<longleftrightarrow> k < n"
proof (induction k)
  case 0
  then show ?case using t n by simp
next
  case (Suc k)
  let ?st = "(timer_interrupt ^^ k) st"
  have f: "ordered ?st" "ticks ?st = ticks st + of_nat k" "sleep_ticks ?st = sleep_ticks st"
    using funpow_fields [OF o, of k] by simp_all
  have "ticks ?st + 1 = ticks st + of_nat (Suc k)" using f(2) by simp
  moreover have "sint (ticks st + of_nat (Suc k)) = sint (ticks st) + int (Suc k)"
    using Suc.prems ov nb by (intro sint64_add_nat) simp_all
  ultimately have "due ?st t \<longleftrightarrow> int n \<le> int (Suc k)" using d f(3) unfolding due_def by presburger
  then show ?case using Suc timer_interrupt_ordered [OF f(1)] by auto
qed

subsection \<open>Calibration, as computed\<close>

text \<open>
  For any clock: the power of two is the first one whose double takes longer than a tick, and each of the
  next nine bits is set when that bit alone on top of the power does not.
\<close>

definition pow2 :: "nat \<Rightarrow> u32" where "pow2 m = push_bit m 1"

lemma bit_power: "bit (pow2 m) j \<longleftrightarrow> j = m \<and> m < 32"
  by (auto simp: pow2_def bit_exp_iff)

lemma power_neq_zero: "m < 32 \<Longrightarrow> pow2 m \<noteq> 0"
  using bit_power [of m m] by auto

lemma push_inj: "a < 32 \<Longrightarrow> pow2 a = pow2 b \<Longrightarrow> a = b"
  using bit_power [of a a] bit_power [of b a] by simp

lemma drop_push: "b \<le> a \<Longrightarrow> a < 32 \<Longrightarrow> drop_bit b (pow2 a) = pow2 (a - b)"
  by (rule bit_eqI) (auto simp: bit_drop_bit_eq bit_power)

lemma double_pow2: "push_bit 1 (pow2 k) = pow2 (k + 1)"
  by (simp only: pow2_def push_bit_push_bit add.commute)

lemma pow2_fold: "push_bit 10 1 = pow2 10" by (simp only: pow2_def)

lemma double_loop_power:
  "k \<le> m \<Longrightarrow> m < 31 \<Longrightarrow> m - k < n \<Longrightarrow> \<forall>i. k \<le> i \<and> i < m \<longrightarrow> \<not> too_many (pow2 (i + 1))
     \<Longrightarrow> too_many (pow2 (m + 1)) \<Longrightarrow> double_loop n too_many (pow2 k) = Inr (pow2 m)"
proof (induction n arbitrary: k)
  case (Suc n)
  note sh = double_pow2 [of k]
  show ?case
  proof (cases "k = m")
    case True
    then show ?thesis using Suc.prems sh by simp
  next
    case False
    then have "\<not> too_many (pow2 (k + 1))" "pow2 (k + 1) \<noteq> 0"
      using Suc.prems power_neq_zero [of "k + 1"] by simp_all
    moreover have "double_loop n too_many (pow2 (k + 1)) = Inr (pow2 m)"
      using Suc.prems False by (intro Suc.IH) auto
    ultimately show ?thesis unfolding double_loop.simps sh Let_def by simp
  qed
qed simp

lemma refine_loop_bits:
  "10 \<le> m \<Longrightarrow> m < 32 \<Longrightarrow> m - 10 \<le> t \<Longrightarrow> t < m \<Longrightarrow> t - (m - 10) < n \<Longrightarrow>
     \<exists>r. refine_loop n too_many (pow2 m) (pow2 t) l = Inr r
       \<and> (\<forall>j. bit r j \<longleftrightarrow> bit l j \<or> (m - 10 < j \<and> j \<le> t \<and> \<not> too_many (pow2 m OR pow2 j)))"
proof (induction n arbitrary: t l)
  case (Suc n)
  have dr: "drop_bit 10 (pow2 m) = pow2 (m - 10)" using Suc.prems by (intro drop_push)
  show ?case
  proof (cases "t = m - 10")
    case True
    then show ?thesis using dr by auto
  next
    case False
    have ne: "pow2 t \<noteq> pow2 (m - 10)" using push_inj [of t "m - 10"] False Suc.prems by auto
    have dt: "drop_bit 1 (pow2 t) = pow2 (t - 1)" using Suc.prems False by (intro drop_push) auto
    have c: "m - 10 \<le> t - 1" "t - 1 < m" "t - 1 - (m - 10) < n" using Suc.prems False by arith+
    let ?l = "if \<not> too_many (pow2 m OR pow2 t) then l OR pow2 t else l"
    obtain r where r: "refine_loop n too_many (pow2 m) (pow2 (t - 1)) ?l = Inr r"
      "\<And>j. bit r j \<longleftrightarrow> bit ?l j \<or> (m - 10 < j \<and> j \<le> t - 1 \<and> \<not> too_many (pow2 m OR pow2 j))"
      using Suc.IH [OF Suc.prems(1,2), of "t - 1" ?l] Suc.prems(3-5) False c by blast
    have "refine_loop (Suc n) too_many (pow2 m) (pow2 t) l = Inr r"
      using ne dr dt r(1) by simp
    moreover have "bit r j \<longleftrightarrow> bit l j \<or> (m - 10 < j \<and> j \<le> t \<and> \<not> too_many (pow2 m OR pow2 j))" for j
    proof (cases "j = t")
      case True
      then show ?thesis unfolding r(2) using Suc.prems False by (auto simp: bit_or_iff bit_power)
    next
      case ne: False
      then have "bit ?l j = bit l j" by (simp add: bit_or_iff bit_power)
      then show ?thesis unfolding r(2) using ne by auto
    qed
    ultimately show ?thesis by blast
  qed
qed simp

theorem calibrate_bits:
  assumes "10 \<le> m" "m < 31" "\<forall>i. 10 \<le> i \<and> i < m \<longrightarrow> \<not> too_many (pow2 (i + 1))" "too_many (pow2 (m + 1))"
  shows "\<exists>r. timer_calibrate True too_many = Inr r
    \<and> (\<forall>j. bit r j \<longleftrightarrow> j = m \<or> (m - 10 < j \<and> j < m \<and> \<not> too_many (pow2 m OR pow2 j)))"
proof -
  have d: "double_loop 23 too_many (pow2 10) = Inr (pow2 m)"
    using assms by (intro double_loop_power) auto
  have s: "drop_bit 1 (pow2 m) = pow2 (m - 1)" using assms by (intro drop_push) auto
  have c: "m < 32" "m - 10 \<le> m - 1" "m - 1 < m" "m - 1 - (m - 10) < 33" using assms(1,2) by arith+
  obtain r where "refine_loop 33 too_many (pow2 m) (pow2 (m - 1)) (pow2 m) = Inr r"
    "\<And>j. bit r j \<longleftrightarrow> bit (pow2 m) j \<or> (m - 10 < j \<and> j \<le> m - 1 \<and> \<not> too_many (pow2 m OR pow2 j))"
    using refine_loop_bits [OF assms(1) c, of too_many "pow2 m"] by blast
  moreover have "j \<le> m - 1 \<longleftrightarrow> j < m" for j using assms(1) by auto
  moreover have "timer_calibrate True too_many = refine_loop 33 too_many (pow2 m) (pow2 (m - 1)) (pow2 m)"
    unfolding timer_calibrate_def pow2_fold d bnd_simps s by simp
  ultimately show ?thesis using c(1) by (auto simp: bit_power)
qed

end
