(* ===== verification/Pintos_Clock.thy ===== *)
theory Pintos_Clock
  imports Pintos_Timer
begin

section \<open>Pintos: the loops that are counted\<close>

text \<open>
  \<open>busy_wait\<close> and \<open>too_many_loops\<close> of \<open>OS-lab2/timer.c\<close>, and the calibration that counts them, against a clock that ticks regularly.
\<close>

subsection \<open>The loops that are counted\<close>

text \<open>
  Time is counted in barriers passed and \<open>clock\<close> says how many ticks there were by then. The decrement of the most negative number of
  loops overflows; the first argument of \<open>wait_tick\<close> bounds a wait that never ends when the clock stands still.
\<close>

function busy_wait :: "int \<Rightarrow> nat \<Rightarrow> nat res" where
  "busy_wait loops now =
     (if loops = - (2 ^ 63) then Inl Undefined else if 0 < loops then busy_wait (loops - 1) (now + 1) else Inr now)"
  by pat_completeness auto
termination by (relation "measure (\<lambda>(loops, _). nat loops)") auto

declare busy_wait.simps [simp del]

fun wait_tick :: "nat \<Rightarrow> (nat \<Rightarrow> i64) \<Rightarrow> i64 \<Rightarrow> nat \<Rightarrow> nat option" where
  "wait_tick 0 clock start now = None"
| "wait_tick (Suc n) clock start now = (if clock now = start then wait_tick n clock start (now + 1) else Some now)"

definition too_many_loops :: "nat \<Rightarrow> (nat \<Rightarrow> i64) \<Rightarrow> u32 \<Rightarrow> nat \<Rightarrow> (bool \<times> nat) res option" where
  "too_many_loops n clock loops now =
     map_option (\<lambda>now1. bnd (busy_wait (uint loops) now1) (\<lambda>now2. Inr (clock now1 \<noteq> clock now2, now2)))
       (wait_tick n clock (clock now) now)"

lemma busy_wait_counts: "- (2 ^ 63) < loops \<Longrightarrow> busy_wait loops now = Inr (now + nat loops)"
proof (induction "nat loops" arbitrary: loops now)
  case 0
  then show ?case by (simp add: busy_wait.simps [of loops])
next
  case (Suc n)
  then have "0 < loops" "busy_wait (loops - 1) (now + 1) = Inr (now + 1 + nat (loops - 1))" by auto
  then show ?case using Suc.prems by (simp add: busy_wait.simps [of loops])
qed

text \<open>The loop count of \<open>real_time_delay\<close> is what it waits.\<close>

lemma real_time_delay_waits:
  assumes "real_time_delay freq loops num denom = Inr (Busy n)" and "- (2 ^ 63) < n"
  shows "busy_wait n now = Inr (now + nat n)"
  using assms(2) by (rule busy_wait_counts)

text \<open>A clock that ticks every \<open>p\<close> barriers.\<close>

definition every :: "nat \<Rightarrow> nat \<Rightarrow> i64" where "every p now = word_of_int (int (now div p))"

lemma every_eq:
  assumes "a div p \<le> b div p" and "b div p < a div p + 2 ^ 63"
  shows "every p a = every p b \<longleftrightarrow> a div p = b div p"
proof
  assume "every p a = every p b"
  then have "int (a div p) mod 2 ^ 64 = int (b div p) mod 2 ^ 64" 
    unfolding every_def word_of_int_eq_iff take_bit_eq_mod by simp
  then have "(2 :: int) ^ 64 dvd int (b div p) - int (a div p)" by (metis mod_eq_dvd_iff)
  moreover have "int (b div p) - int (a div p) < 2 ^ 64" "0 \<le> int (b div p) - int (a div p)"
    using assms by simp_all
  ultimately show "a div p = b div p" using zdvd_imp_le [of "2 ^ 64" "int (b div p) - int (a div p)"] by linarith
qed (simp add: every_def)

text \<open>The wait ends with the first barrier of the next tick.\<close>

lemma wait_tick_every:
  assumes "0 < p" and "p - now mod p < n"
  shows "wait_tick n (every p) (every p now) now = Some (p * (now div p + 1))"
proof -
  have "wait_tick m (every p) (every p now) (now + i) = Some (p * (now div p + 1))"
    if "i \<le> p - now mod p" "p - now mod p - i < m" for m i
    using that
  proof (induction m arbitrary: i)
    case (Suc m)
    show ?case
    proof (cases "i = p - now mod p")
      case True
      have "now mod p < p" using assms(1) by simp
      then have "now + i = p * (now div p) + p" using True mult_div_mod_eq [of p now] by linarith
      then have e: "now + i = p * (now div p + 1)" by simp
      then have "(now + i) div p = now div p + 1" using assms(1) by simp
      then have "every p now \<noteq> every p (now + i)" by (subst every_eq) simp_all
      then show ?thesis using e by auto
    next
      case False
      then have i: "now mod p + i < p" using Suc.prems(1) assms(1) by linarith
      have "now + i = p * (now div p) + (now mod p + i)" using mult_div_mod_eq [of p now] by linarith
      moreover have "(p * q + r) div p = q" if "r < p" for q r :: nat using that by simp
      ultimately have "(now + i) div p = now div p" using i by presburger
      then have "every p (now + i) = every p now" by (simp add: every_def)
      then show ?thesis using Suc.IH [of "Suc i"] Suc.prems False by simp
    qed
  qed simp
  from this [of 0 n] show ?thesis using assms(2) by simp
qed

lemma too_many_loops_every:
  assumes "0 < p" and "p < n"
  shows "\<exists>now'. too_many_loops n (every p) loops now = Some (Inr (p \<le> unat loops, now'))"
proof -
  let ?t = "p * (now div p + 1)"
  have "p - now mod p < n" using assms(2) by linarith
  note w = wait_tick_every [OF assms(1) this]
  have "- (2 ^ 63) < (0 :: int)" by simp
  then have "- (2 ^ 63) < uint loops" using uint_ge_0 [of loops] by (rule less_le_trans)
  then have b: "busy_wait (uint loops) ?t = Inr (?t + unat loops)" using busy_wait_counts [of "uint loops" ?t] by simp
  have d1: "?t div p = now div p + 1" using assms(1) by simp
  have "(p * q + b) div p = q + b div p" for q b :: nat using assms(1) by simp
  then have d2: "(?t + unat loops) div p = now div p + 1 + unat loops div p" .
  note d = d1 d2
  have "unat loops div p \<le> unat loops" "unat loops < 2 ^ 32" using unsigned_less [of loops] by simp_all
  then have q: "unat loops div p < 2 ^ 63" by (rule le_less_trans [OF _ less_trans]) simp
  have "every p ?t = every p (?t + unat loops) \<longleftrightarrow> ?t div p = (?t + unat loops) div p"
    by (rule every_eq; unfold d; use q in linarith)
  also have "\<dots> \<longleftrightarrow> unat loops div p = 0" unfolding d by linarith
  also have "\<dots> \<longleftrightarrow> unat loops < p" using assms(1) by (simp add: div_eq_0_iff)
  finally show ?thesis using w b by (auto simp: too_many_loops_def)
qed

text \<open>Calibration against such a clock finds the power of two below the period.\<close>

lemma calibrate_every:
  assumes "2 ^ m < p" and "p \<le> 2 ^ (m + 1)" and "10 \<le> m" and "m < 31" and "p < n"
  shows "\<exists>r. timer_calibrate True (\<lambda>l. case too_many_loops n (every p) l now of Some (Inr (b, _)) \<Rightarrow> b | _ \<Rightarrow> True) = Inr r
    \<and> (\<forall>j. bit r j \<longleftrightarrow> j = m \<or> (m - 10 < j \<and> j < m \<and> 2 ^ m + 2 ^ j < p))"
proof -
  have p0: "0 < p" using assms(1) by auto
  have t: "(case too_many_loops n (every p) l now of Some (Inr (b, _)) \<Rightarrow> b | _ \<Rightarrow> True) = (p \<le> unat l)" for l
    using too_many_loops_every [OF p0 assms(5), of l now] by auto
  have nat32: "unat (word_of_nat k :: u32) = k" if "k < 2 ^ 32" for k
    unfolding unat_of_nat using that by simp
  have pw: "pow2 i = word_of_nat (2 ^ i)" for i by (simp add: pow2_def push_bit_eq_mult)
  have small: "(2 :: nat) ^ i < 2 ^ 32" if "i < 32" for i using that by (rule power_strict_increasing) simp
  have u: "unat (pow2 i) = 2 ^ i" if "i < 32" for i unfolding pw by (rule nat32 [OF small [OF that]])
  have uu: "unat (pow2 m OR pow2 j) = 2 ^ m + 2 ^ j" if "j < m" for j
  proof -
    have "pow2 m AND pow2 j = 0" using that by (intro bit_word_eqI) (auto simp: bit_and_iff bit_power)
    then have "pow2 m OR pow2 j = pow2 m + pow2 j" by (rule disjunctive_add_eq_or [symmetric])
    also have "\<dots> = word_of_nat (2 ^ m + 2 ^ j)" unfolding pw by simp
    finally have e: "pow2 m OR pow2 j = word_of_nat (2 ^ m + 2 ^ j)" .
    have "(2 :: nat) ^ m < 2 ^ 31" using assms(4) by (rule power_strict_increasing) simp
    moreover have "(2 :: nat) ^ j < 2 ^ 31" using that assms(4) by (intro power_strict_increasing) auto
    ultimately have "(2 :: nat) ^ m + 2 ^ j < 2 ^ 32" by simp
    then show ?thesis unfolding e by (rule nat32)
  qed
  have lo: "\<forall>i. 10 \<le> i \<and> i < m \<longrightarrow> \<not> p \<le> unat (pow2 (i + 1))"
  proof (intro allI impI)
    fix i assume i: "10 \<le> i \<and> i < m"
    then have "(2 :: nat) ^ (i + 1) \<le> 2 ^ m" by (intro power_increasing) auto
    then show "\<not> p \<le> unat (pow2 (i + 1))" using u [of "i + 1"] i assms(1,4) by simp
  qed
  have hi: "p \<le> unat (pow2 (m + 1))" using u [of "m + 1"] assms(2,4) by simp
  obtain r where r: "timer_calibrate True (\<lambda>l. p \<le> unat l) = Inr r"
    "\<forall>j. bit r j \<longleftrightarrow> j = m \<or> (m - 10 < j \<and> j < m \<and> \<not> p \<le> unat (pow2 m OR pow2 j))"
    using calibrate_bits [where too_many = "\<lambda>l. p \<le> unat l", OF assms(3,4) lo hi] by blast
  then show ?thesis unfolding t using uu by (intro exI [of _ r]) (auto simp: not_le)
qed

end
