(* ===== verification/Pintos_Bus.thy ===== *)
theory Pintos_Bus
  imports Prelude
begin

section \<open>Pintos: the batch scheduler of a half-duplex bus\<close>

text \<open>
  \<open>OS-lab3/batch-scheduler.c\<close>. The semaphores of Pintos are not part of the repository; they are the parameter
  \<open>sem\<close>, and \<open>counting\<close> is what is documented of them. Everything a task does while it holds \<open>mutex\<close> is one step,
  up to the point where it may block again, which can be inside the critical section: \<open>Boarding\<close> holds
  the mutex and waits for \<open>bus_slots\<close>.
\<close>

record semaphore_ops =
  sema_down :: "nat \<Rightarrow> nat option"
  sema_up :: "nat \<Rightarrow> nat"

definition counting :: "semaphore_ops \<Rightarrow> bool" where
  "counting sem \<longleftrightarrow> (\<forall>v. sema_down sem v = (if v = 0 then None else Some (v - 1))) \<and> (\<forall>v. sema_up sem v = v + 1)"

definition counters :: semaphore_ops where
  "counters = \<lparr>sema_down = (\<lambda>v. if v = 0 then None else Some (v - 1)), sema_up = (\<lambda>v. v + 1)\<rparr>"

lemma counting_counters: "counting sem \<longleftrightarrow> sem = counters"
  by (cases sem) (auto simp: counting_def counters_def fun_eq_iff)

datatype direction_t = SEND | RECEIVE
datatype priority_t = NORMAL | PRIORITY

record task_t =
  direction :: direction_t
  priority :: priority_t
  transfer_duration :: nat

definition BUS_CAPACITY :: int where "BUS_CAPACITY = 3"
definition MAX_NUM_OF_TASKS :: nat where "MAX_NUM_OF_TASKS = 200"

fun dir_code :: "direction_t \<Rightarrow> int" where
  "dir_code SEND = 0"
| "dir_code RECEIVE = 1"

definition other_direction :: "direction_t \<Rightarrow> direction_t" where
  "other_direction d = (if d = SEND then RECEIVE else SEND)"

text \<open>The globals; the four semaphores tasks wait on and the four counters of waiting tasks by direction and priority.\<close>

record bus =
  bus_slots :: nat
  mutex :: nat
  has :: "direction_t \<Rightarrow> priority_t \<Rightarrow> nat"
  bus_direction :: int
  task_on_bus :: int
  waiting_task :: int
  waiting :: "direction_t \<Rightarrow> priority_t \<Rightarrow> int"

definition init_bus :: bus where
  "init_bus = \<lparr>bus_slots = 3, mutex = 1, has = (\<lambda>_ _. 0), bus_direction = - 1, task_on_bus = 0, waiting_task = 0,
     waiting = (\<lambda>_ _. 0)\<rparr>"

definition upd2 :: "('a \<Rightarrow> 'b \<Rightarrow> 'c) \<Rightarrow> 'a \<Rightarrow> 'b \<Rightarrow> 'c \<Rightarrow> ('a \<Rightarrow> 'b \<Rightarrow> 'c)" where
  "upd2 f a b v = f(a := (f a)(b := v))"

subsection \<open>Getting a slot\<close>

definition must_wait :: "bus \<Rightarrow> task_t \<Rightarrow> bool" where
  "must_wait b t \<longleftrightarrow>
     (if BUS_CAPACITY \<le> task_on_bus b then True
      else if bus_direction b \<noteq> - 1 \<and> bus_direction b \<noteq> dir_code (direction t) then True
      else if priority t = NORMAL
      then (if direction t = SEND \<and> 0 < waiting b SEND PRIORITY then True
            else direction t = RECEIVE \<and> 0 < waiting b RECEIVE PRIORITY)
      else False)"

datatype pc = Start | Waiting | Relock | Boarding | Onboard | Done

text \<open>The critical section up to the first place where the task gives it up or waits inside it.\<close>

definition get_slot :: "semaphore_ops \<Rightarrow> task_t \<Rightarrow> bus \<Rightarrow> (pc \<times> bus) option" where
  "get_slot sem t b =
     (case sema_down sem (mutex b) of
        None \<Rightarrow> None
      | Some m \<Rightarrow>
          let b1 = b\<lparr>mutex := m\<rparr>
          in if must_wait b1 t
             then Some (Waiting, b1\<lparr>waiting := upd2 (waiting b1) (direction t) (priority t) (waiting b1 (direction t) (priority t) + 1),
                                    mutex := sema_up sem (mutex b1)\<rparr>)
             else Some (Boarding, b1))"

text \<open>\<open>wait_to_be_onboard\<close> after the mutex is released: the semaphore, then the mutex again.\<close>

definition woken :: "semaphore_ops \<Rightarrow> task_t \<Rightarrow> bus \<Rightarrow> (pc \<times> bus) option" where
  "woken sem t b =
     (case sema_down sem (has b (direction t) (priority t)) of
        None \<Rightarrow> None
      | Some v \<Rightarrow> Some (Relock, b\<lparr>has := upd2 (has b) (direction t) (priority t) v\<rparr>))"

definition relock :: "semaphore_ops \<Rightarrow> task_t \<Rightarrow> bus \<Rightarrow> (pc \<times> bus) option" where
  "relock sem t b =
     (case sema_down sem (mutex b) of
        None \<Rightarrow> None
      | Some m \<Rightarrow> Some (Boarding, b\<lparr>mutex := m,
          waiting := upd2 (waiting b) (direction t) (priority t) (waiting b (direction t) (priority t) - 1),
          waiting_task := waiting_task b - 1\<rparr>))"

definition board :: "semaphore_ops \<Rightarrow> task_t \<Rightarrow> bus \<Rightarrow> (pc \<times> bus) option" where
  "board sem t b =
     (case sema_down sem (bus_slots b) of
        None \<Rightarrow> None
      | Some s \<Rightarrow> Some (Onboard, b\<lparr>bus_slots := s, task_on_bus := task_on_bus b + 1,
          bus_direction := dir_code (direction t), mutex := sema_up sem (mutex b)\<rparr>))"

subsection \<open>Releasing it\<close>

text \<open>
  \<open>MIN(empty_bus_slots, waiting)\<close> compares an int with an unsigned int, as unsigned; a negative number of empty
  slots is a large one there.
\<close>

definition to_wake :: "int \<Rightarrow> int \<Rightarrow> int" where
  "to_wake empty_bus_slots w =
     (if empty_bus_slots mod 2 ^ 32 < w mod 2 ^ 32 then empty_bus_slots else w)"

fun signal :: "semaphore_ops \<Rightarrow> nat \<Rightarrow> nat \<Rightarrow> nat" where
  "signal sem 0 v = v"
| "signal sem (Suc n) v = signal sem n (sema_up sem v)"

definition wakeup_waiting_task :: "semaphore_ops \<Rightarrow> direction_t \<Rightarrow> priority_t \<Rightarrow> bus \<Rightarrow> int \<times> bus" where
  "wakeup_waiting_task sem d p b =
     (let empty_bus_slots = BUS_CAPACITY - task_on_bus b - waiting_task b;
          n = to_wake empty_bus_slots (waiting b d p)
      in (n, b\<lparr>has := upd2 (has b) d p (signal sem (nat n) (has b d p)), waiting_task := waiting_task b + int (nat n)\<rparr>))"

text \<open>One direction: its priority tasks, then its normal ones if no priority task waits on the other side.\<close>

definition wake_direction :: "semaphore_ops \<Rightarrow> direction_t \<Rightarrow> bus \<Rightarrow> bus" where
  "wake_direction sem d b =
     (let (n1, b1) = wakeup_waiting_task sem d PRIORITY b;
          (n2, b2) = (if waiting b1 (other_direction d) PRIORITY = 0 then wakeup_waiting_task sem d NORMAL b1 else (0, b1))
      in if 0 < n1 + n2 then b2\<lparr>bus_direction := dir_code d\<rparr> else b2)"

definition release_slot :: "semaphore_ops \<Rightarrow> task_t \<Rightarrow> bus \<Rightarrow> (pc \<times> bus) option" where
  "release_slot sem t b =
     (case sema_down sem (mutex b) of
        None \<Rightarrow> None
      | Some m \<Rightarrow>
          let b1 = b\<lparr>mutex := m, task_on_bus := task_on_bus b - 1, bus_slots := sema_up sem (bus_slots b)\<rparr>;
              b2 = (if task_on_bus b1 = 0 then b1\<lparr>bus_direction := - 1\<rparr> else b1);
              b3 = (if bus_direction b2 \<noteq> dir_code RECEIVE then wake_direction sem SEND b2 else b2);
              b4 = (if bus_direction b3 \<noteq> dir_code SEND then wake_direction sem RECEIVE b3 else b3)
          in Some (Done, b4\<lparr>mutex := sema_up sem (mutex b4)\<rparr>))"

subsection \<open>Tasks\<close>

text \<open>\<open>run_task\<close>: the next step of a task; \<open>None\<close> while it is blocked or when it has finished.\<close>

fun run_task :: "semaphore_ops \<Rightarrow> task_t \<Rightarrow> pc \<Rightarrow> bus \<Rightarrow> (pc \<times> bus) option" where
  "run_task sem t Start b = get_slot sem t b"
| "run_task sem t Waiting b = woken sem t b"
| "run_task sem t Relock b = relock sem t b"
| "run_task sem t Boarding b = board sem t b"
| "run_task sem t Onboard b = release_slot sem t b"
| "run_task sem t Done b = None"

text \<open>
  \<open>batch_scheduler\<close>: the tasks created and the ticks slept; \<open>rnd\<close> are the random numbers. The assertion adds in
  32 bits, the array has 200 elements.
\<close>

definition make_tasks :: "(nat \<Rightarrow> nat) \<Rightarrow> nat \<Rightarrow> nat \<Rightarrow> direction_t \<Rightarrow> priority_t \<Rightarrow> task_t list" where
  "make_tasks rnd from n d p = map (\<lambda>i. \<lparr>direction = d, priority = p, transfer_duration = rnd (from + i) mod 244\<rparr>) [0..<n]"

definition batch_scheduler :: "(nat \<Rightarrow> nat) \<Rightarrow> nat \<Rightarrow> nat \<Rightarrow> nat \<Rightarrow> nat \<Rightarrow> (task_t list \<times> nat) res" where
  "batch_scheduler rnd num_priority_send num_priority_receive num_tasks_send num_tasks_receive =
     (if MAX_NUM_OF_TASKS < (num_tasks_send + num_tasks_receive + num_priority_send + num_priority_receive) mod 2 ^ 32
      then Inl AssertFail
      else let ts1 = make_tasks rnd 0 num_priority_send SEND PRIORITY;
               ts2 = ts1 @ make_tasks rnd (length ts1) num_priority_receive RECEIVE PRIORITY;
               ts3 = ts2 @ make_tasks rnd (length ts2) num_tasks_send SEND NORMAL;
               ts4 = ts3 @ make_tasks rnd (length ts3) num_tasks_receive RECEIVE NORMAL
           in if MAX_NUM_OF_TASKS < length ts4 then Inl OutOfBounds
              else Inr (ts4, 2 * sum_list (map transfer_duration ts4)))"

text \<open>All tasks together; a schedule is the sequence of tasks that take a step.\<close>

type_synonym system = "bus \<times> pc list"

definition start :: "task_t list \<Rightarrow> system" where
  "start ts = (init_bus, replicate (length ts) Start)"

definition sys_step :: "semaphore_ops \<Rightarrow> task_t list \<Rightarrow> nat \<Rightarrow> system \<Rightarrow> system option" where
  "sys_step sem ts i s =
     (if i < length ts \<and> i < length (snd s)
      then map_option (\<lambda>(q, b). (b, (snd s)[i := q])) (run_task sem (ts ! i) (snd s ! i) (fst s))
      else None)"

fun run_schedule :: "semaphore_ops \<Rightarrow> task_t list \<Rightarrow> nat list \<Rightarrow> system \<Rightarrow> system option" where
  "run_schedule sem ts [] s = Some s"
| "run_schedule sem ts (i # is) s = (case sys_step sem ts i s of None \<Rightarrow> None | Some s' \<Rightarrow> run_schedule sem ts is s')"

inductive bus_reaches :: "semaphore_ops \<Rightarrow> task_t list \<Rightarrow> system \<Rightarrow> bool" for sem ts where
  init: "bus_reaches sem ts (start ts)"
| step: "bus_reaches sem ts s \<Longrightarrow> sys_step sem ts i s = Some s' \<Longrightarrow> bus_reaches sem ts s'"

lemma run_schedule_reaches:
  "run_schedule sem ts is s = Some s' \<Longrightarrow> bus_reaches sem ts s \<Longrightarrow> bus_reaches sem ts s'"
proof (induction "is" arbitrary: s)
  case (Cons i "is")
  then show ?case using bus_reaches.step by (auto split: option.splits)
qed simp

subsection \<open>Capacity\<close>

definition bus_inv :: "system \<Rightarrow> bool" where
  "bus_inv s \<longleftrightarrow> bus_slots (fst s) + count_list (snd s) Onboard = 3
     \<and> task_on_bus (fst s) = int (count_list (snd s) Onboard)
     \<and> mutex (fst s) + count_list (snd s) Boarding = 1"

lemma count_list_update:
  "i < length xs \<Longrightarrow> count_list (xs[i := y]) x + (if xs ! i = x then 1 else 0) = count_list xs x + (if y = x then 1 else 0)"
proof (induction xs arbitrary: i)
  case (Cons a xs)
  show ?case
  proof (cases i)
    case (Suc j)
    then show ?thesis using Cons.IH [of j] Cons.prems by auto
  qed auto
qed simp

lemma wake_fields [simp]:
  "bus_slots (wake_direction sem d b) = bus_slots b" "task_on_bus (wake_direction sem d b) = task_on_bus b"
  "mutex (wake_direction sem d b) = mutex b"
  by (simp_all add: wake_direction_def wakeup_waiting_task_def Let_def split: prod.splits)

lemma counters_simps [simp]:
  "sema_down counters v = (if v = 0 then None else Some (v - 1))" "sema_up counters v = v + 1"
  by (simp_all add: counters_def)

lemma run_task_effect:
  assumes "run_task counters t q b = Some (q', b')"
  shows "bus_slots b' + (if q' = Onboard then 1 else 0) = bus_slots b + (if q = Onboard then 1 else 0)
    \<and> task_on_bus b' + (if q = Onboard then 1 else 0) = task_on_bus b + (if q' = Onboard then 1 else 0)
    \<and> mutex b' + (if q' = Boarding then 1 else 0) = mutex b + (if q = Boarding then 1 else 0)"
  using assms
  by (cases q) (auto simp: get_slot_def woken_def relock_def board_def release_slot_def Let_def split: if_splits)

lemma bus_inv_step:
  assumes "sys_step counters ts i s = Some s'" and "bus_inv s"
  shows "bus_inv s'"
proof -
  obtain q b where i: "i < length (snd s)" and r: "run_task counters (ts ! i) (snd s ! i) (fst s) = Some (q, b)"
      and s': "s' = (b, (snd s)[i := q])"
    using assms(1) by (auto simp: sys_step_def split: if_splits)
  note e = run_task_effect [OF r]
  note c1 = count_list_update [OF i, of q Onboard] and c2 = count_list_update [OF i, of q Boarding]
  have "bus_slots b + count_list ((snd s)[i := q]) Onboard = 3"
    using e c1 assms(2) unfolding bus_inv_def by linarith
  moreover have "task_on_bus b = int (count_list ((snd s)[i := q]) Onboard)"
    using e c1 assms(2) unfolding bus_inv_def by (auto split: if_splits)
  moreover have "mutex b + count_list ((snd s)[i := q]) Boarding = 1"
    using e c2 assms(2) unfolding bus_inv_def by linarith
  ultimately show ?thesis by (simp add: bus_inv_def s')
qed

lemma bus_inv_reaches: "bus_reaches counters ts s \<Longrightarrow> bus_inv s"
proof (induction rule: bus_reaches.induct)
  case init
  have "count_list (replicate n Start) Onboard = 0" "count_list (replicate n Start) Boarding = 0" for n
    by (induction n) simp_all
  then show ?case by (simp add: bus_inv_def start_def init_bus_def)
next
  case (step s i s')
  then show ?case using bus_inv_step by blast
qed

subsection \<open>Bad states\<close>

definition onboard :: "task_t list \<Rightarrow> system \<Rightarrow> task_t list" where
  "onboard ts s = map fst (filter (\<lambda>(t, q). q = Onboard) (zip ts (snd s)))"

definition half_duplex :: "task_t list \<Rightarrow> system \<Rightarrow> bool" where
  "half_duplex ts s \<longleftrightarrow> \<not> (SEND \<in> set (map direction (onboard ts s)) \<and> RECEIVE \<in> set (map direction (onboard ts s)))"

definition stuck :: "semaphore_ops \<Rightarrow> task_t list \<Rightarrow> system \<Rightarrow> bool" where
  "stuck sem ts s \<longleftrightarrow> (\<forall>i<length ts. sys_step sem ts i s = None) \<and> (\<exists>q\<in>set (snd s). q \<noteq> Done)"

definition sender :: task_t where "sender = \<lparr>direction = SEND, priority = NORMAL, transfer_duration = 10\<rparr>"
definition receiver_task :: task_t where "receiver_task = \<lparr>direction = RECEIVE, priority = NORMAL, transfer_duration = 10\<rparr>"

definition check_run :: "task_t list \<Rightarrow> nat list \<Rightarrow> (system \<Rightarrow> bool) \<Rightarrow> bool" where
  "check_run ts is P = (case run_schedule counters ts is (start ts) of None \<Rightarrow> False | Some s \<Rightarrow> P s)"

lemma check_run_reaches: "check_run ts is P \<Longrightarrow> \<exists>s. bus_reaches counters ts s \<and> P s"
proof -
  assume "check_run ts is P"
  then obtain s where s: "run_schedule counters ts is (start ts) = Some s" "P s"
    unfolding check_run_def by (cases "run_schedule counters ts is (start ts)") simp_all
  from run_schedule_reaches [OF s(1) bus_reaches.init] s(2) show ?thesis by blast
qed

lemma duplex_run: "check_run [sender, sender, receiver_task, receiver_task] [0,0,2,0,1,2,3,3,3,1,1,1,2,2]
    (\<lambda>s. \<not> half_duplex [sender, sender, receiver_task, receiver_task] s)"
  by code_simp

definition blocked_all :: "task_t list \<Rightarrow> system \<Rightarrow> bool" where
  "blocked_all ts s \<longleftrightarrow> list_all (\<lambda>i. sys_step counters ts i s = None) [0..<length ts] \<and> list_ex (\<lambda>q. q \<noteq> Done) (snd s)"

lemma blocked_stuck: "blocked_all ts s \<Longrightarrow> stuck counters ts s"
  by (simp add: blocked_all_def stuck_def list_all_iff list_ex_iff)

lemma stuck_run: "check_run [sender, sender, sender, sender, sender] [0,0,1,1,2,2,3,0,3,4,4,3]
    (blocked_all [sender, sender, sender, sender, sender])"
  by code_simp

end
