(* ===== verification/Pintos_Transfer.thy ===== *)
theory Pintos_Transfer
  imports Pintos_Timer Pintos_Bus
begin

section \<open>Pintos: the bus and the alarm clock together\<close>

text \<open>
  A task on the bus transfers its data by sleeping. \<open>transfer_data\<close> of \<open>OS-lab3/batch-scheduler.c\<close> calls \<open>timer_sleep\<close> of
  \<open>OS-lab2/timer.c\<close>; here all tasks run with the clock. An event is a timer interrupt or a step of a task that is not asleep; the
  step that boards the bus goes on to the call of \<open>timer_sleep\<close>, which is taken as a whole.
\<close>

definition transfer_data :: "inserter \<Rightarrow> bool \<Rightarrow> nat \<Rightarrow> task_t \<Rightarrow> tstate \<Rightarrow> tstate res" where
  "transfer_data ins intr_on thread task st = timer_sleep ins intr_on thread (of_nat (transfer_duration task)) st"

datatype bus_event = Tick | Go nat

type_synonym timed_bus = "system \<times> tstate"

fun bt_step :: "inserter \<Rightarrow> semaphore_ops \<Rightarrow> task_t list \<Rightarrow> bus_event \<Rightarrow> timed_bus \<Rightarrow> timed_bus option" where
  "bt_step ins sem ts Tick (s, st) = Some (s, timer_interrupt st)"
| "bt_step ins sem ts (Go i) (s, st) =
     (if i \<in> set (thread_list st) then None
      else case sys_step sem ts i s of
             None \<Rightarrow> None
           | Some s' \<Rightarrow>
               if snd s' ! i = Onboard
               then (case transfer_data ins True i (ts ! i) st of Inl _ \<Rightarrow> None | Inr st' \<Rightarrow> Some (s', st'))
               else Some (s', st))"

fun bt_run :: "inserter \<Rightarrow> semaphore_ops \<Rightarrow> task_t list \<Rightarrow> bus_event list \<Rightarrow> timed_bus \<Rightarrow> timed_bus option" where
  "bt_run ins sem ts [] x = Some x"
| "bt_run ins sem ts (e # es) x = (case bt_step ins sem ts e x of None \<Rightarrow> None | Some y \<Rightarrow> bt_run ins sem ts es y)"

subsection \<open>Invariant\<close>

text \<open>Who sleeps is on the bus, and who is on the bus and does not sleep has slept long enough; \<open>n\<close> ticks have passed.\<close>

definition bt_inv :: "nat \<Rightarrow> timed_bus \<Rightarrow> bool" where
  "bt_inv n x \<longleftrightarrow>
     (case x of (s, st) \<Rightarrow> ordered st \<and> distinct (thread_list st) \<and> sint (ticks st) = int n
        \<and> (\<forall>i\<in>set (thread_list st). i < length (snd s) \<and> snd s ! i = Onboard)
        \<and> (\<forall>i<length (snd s). snd s ! i = Onboard \<longrightarrow> i \<notin> set (thread_list st) \<longrightarrow> sint (sleep_ticks st i) \<le> int n))"

lemma bt_inv_start: "bt_inv 0 (start ts, timer_init)"
  by (auto simp: bt_inv_def start_def timer_init_def ordered_def)

lemma bt_tick:
  assumes "bt_inv n (s, st)" and "int n + 1 < 2 ^ 63"
  shows "bt_inv (n + 1) (s, timer_interrupt st)"
proof -
  have o: "ordered st" and t: "sint (ticks st) = int n" using assms(1) by (simp_all add: bt_inv_def)
  have t1: "sint (ticks st + 1) = int n + 1" using sint64_add_nat [of "ticks st" 1] t assms(2) by simp
  show ?thesis using assms(1) timer_interrupt_ordered [OF o] timer_interrupt_keeps_order [OF o] t1
    by (fastforce simp: bt_inv_def due_def)
qed

lemma sys_step_at:
  assumes "sys_step sem ts i s = Some s'"
  shows "i < length ts" "i < length (snd s)" "\<exists>q. snd s' = (snd s)[i := q]"
  using assms by (auto simp: sys_step_def split: if_splits)

lemma sys_step_others:
  assumes "sys_step sem ts i s = Some s'"
  shows "length (snd s') = length (snd s)" "j \<noteq> i \<Longrightarrow> snd s' ! j = snd s ! j"
  using sys_step_at [OF assms] by auto

lemma sleep_call_fields:
  "ticks (sleep_call ins i n st) = ticks st" "sleep_ticks (sleep_call ins i n st) = (sleep_ticks st)(i := ticks st + n)"
  by (simp_all add: sleep_call_def sleep_block_def sleep_begin_def Let_def timer_ticks_def)

lemma sleep_call_ordered:
  assumes "inserts_ordered ins" and "ordered st" and "i \<notin> set (thread_list st)"
  shows "ordered (sleep_call ins i n st)" "mset (thread_list (sleep_call ins i n st)) = mset (i # thread_list st)"
proof -
  have "ordered (sleep_begin i n st)" using assms(2,3) by (simp add: sleep_begin_ordered)
  from sleep_block_ordered [OF assms(1) this, of i] show "ordered (sleep_call ins i n st)"
    "mset (thread_list (sleep_call ins i n st)) = mset (i # thread_list st)"
    by (simp_all add: sleep_call_def) (simp add: sleep_begin_def Let_def)
qed

text \<open>A step of a task; \<open>Go\<close> never fails because of the clock.\<close>

lemma bt_go:
  assumes "bt_step ins sem ts (Go i) (s, st) = Some (s', st')"
  obtains (board) "sys_step sem ts i s = Some s'" "i \<notin> set (thread_list st)" "snd s' ! i = Onboard"
      "st' = sleep_call ins i (of_nat (transfer_duration (ts ! i))) st"
    | (other) "sys_step sem ts i s = Some s'" "i \<notin> set (thread_list st)" "snd s' ! i \<noteq> Onboard" "st' = st"
  using assms by (auto simp: transfer_data_def timer_sleep_def split: if_splits option.splits)

lemma bt_go_inv:
  assumes "inserts_ordered ins" and "bt_inv n (s, st)" and go: "bt_step ins sem ts (Go i) (s, st) = Some (s', st')"
  shows "bt_inv n (s', st')"
  using go
proof (cases rule: bt_go)
  case board
  have o: "ordered st" using assms(2) by (simp add: bt_inv_def)
  note c = sleep_call_ordered [OF assms(1) o board(2), of "of_nat (transfer_duration (ts ! i))"]
  have d: "set (thread_list st') = insert i (set (thread_list st))" "distinct (thread_list st')"
    using mset_eq_setD [OF c(2)] distinct_mset_eq [OF c(2)] board assms(2) by (auto simp: bt_inv_def)
  have "\<forall>j\<in>set (thread_list st). snd s' ! j = snd s ! j" using board(2) sys_step_others(2) [OF board(1)] by metis
  then show ?thesis using assms(2) c(1) d board(2-4) sys_step_others [OF board(1)] sys_step_at(2) [OF board(1)]
    by (auto simp: bt_inv_def sleep_call_fields)
next
  case other
  then show ?thesis using assms(2) sys_step_others [OF other(1)] by (auto simp: bt_inv_def) metis+
qed

lemma bt_run_inv:
  "inserts_ordered ins \<Longrightarrow> bt_inv n x \<Longrightarrow> bt_run ins sem ts es x = Some y \<Longrightarrow> int n + int (length es) < 2 ^ 63 \<Longrightarrow>
     bt_inv (n + count_list es Tick) y"
proof (induction es arbitrary: n x)
  case (Cons e es)
  obtain s st where x: "x = (s, st)" by fastforce
  obtain z where z: "bt_step ins sem ts e x = Some z" "bt_run ins sem ts es z = Some y" using Cons.prems(3) by (auto split: option.splits)
  show ?case
  proof (cases e)
    case Tick
    have "bt_inv (n + 1) z" using bt_tick [of n s st] Cons.prems(2,4) z(1) x Tick by simp
    from Cons.IH [OF Cons.prems(1) this z(2)] show ?thesis using Cons.prems(4) Tick by simp
  next
    case (Go i)
    obtain s' st' where z': "z = (s', st')" by fastforce
    have "bt_inv n z" using bt_go_inv [OF Cons.prems(1)] Cons.prems(2) z(1) unfolding x z' Go by blast
    from Cons.IH [OF Cons.prems(1) this z(2)] show ?thesis using Cons.prems(4) Go by simp
  qed
qed simp

text \<open>The tasks alone do nothing they could not do without the clock.\<close>

lemma bt_run_reaches:
  "bus_reaches sem ts (fst x) \<Longrightarrow> bt_run ins sem ts es x = Some y \<Longrightarrow> bus_reaches sem ts (fst y)"
proof (induction es arbitrary: x)
  case (Cons e es)
  obtain s st where x: "x = (s, st)" by fastforce
  obtain z where z: "bt_step ins sem ts e x = Some z" "bt_run ins sem ts es z = Some y" using Cons.prems(2) by (auto split: option.splits)
  have "bus_reaches sem ts (fst z)"
  proof (cases e)
    case Tick
    then show ?thesis using Cons.prems(1) z(1) x by auto
  next
    case (Go i)
    obtain s' st' where z': "z = (s', st')" by fastforce
    have "sys_step sem ts i s = Some s'" using z(1) unfolding x z' Go by (cases rule: bt_go)
    then show ?thesis using bus_reaches.step Cons.prems(1) x z' by auto
  qed
  then show ?case using Cons.IH z(2) by blast
qed simp

subsection \<open>How long a task stays on the bus\<close>

lemma held_until_due:
  "inserts_ordered ins \<Longrightarrow> bt_inv n (s, st) \<Longrightarrow> i < length (snd s) \<Longrightarrow> snd s ! i = Onboard \<Longrightarrow>
     bt_run ins sem ts es (s, st) = Some (s', st') \<Longrightarrow> snd s' ! i \<noteq> Onboard \<Longrightarrow> int n + int (length es) < 2 ^ 63 \<Longrightarrow>
     sint (sleep_ticks st i) \<le> int n + int (count_list es Tick)"
proof (induction es arbitrary: n s st)
  case (Cons e es)
  obtain s1 st1 where z: "bt_step ins sem ts e (s, st) = Some (s1, st1)" "bt_run ins sem ts es (s1, st1) = Some (s', st')"
    using Cons.prems(5) by (auto split: option.splits)
  show ?case
  proof (cases e)
    case Tick
    then have e: "s1 = s" "st1 = timer_interrupt st" using z(1) by simp_all
    have "bt_inv (n + 1) (s1, st1)" unfolding e using bt_tick [OF Cons.prems(2)] Cons.prems(7) by simp
    from Cons.IH [OF Cons.prems(1) this _ _ z(2) Cons.prems(6)] show ?thesis using Cons.prems(3,4,7) Tick e by simp
  next
    case (Go j)
    have inv: "bt_inv n (s1, st1)" using bt_go_inv [OF Cons.prems(1,2)] z(1) unfolding Go by blast
    show ?thesis
    proof (cases "j = i")
      case True
      have "i \<notin> set (thread_list st)" using z(1) unfolding Go True by (cases rule: bt_go) auto
      then have "sint (sleep_ticks st i) \<le> int n" using Cons.prems(2-4) by (simp add: bt_inv_def)
      then show ?thesis by simp
    next
      case False
      have s: "sys_step sem ts j s = Some s1" "sleep_ticks st1 i = sleep_ticks st i"
        using z(1) False unfolding Go by (cases rule: bt_go; simp add: sleep_call_fields)+
      from Cons.IH [OF Cons.prems(1) inv _ _ z(2) Cons.prems(6)] show ?thesis
        using Cons.prems(3,4,7) Go False s sys_step_others [OF s(1)] by simp
    qed
  qed
qed simp

lemma count_list_indices: "distinct is \<Longrightarrow> \<forall>i\<in>set is. i < length xs \<and> xs ! i = x \<Longrightarrow> length is \<le> count_list xs x"
proof -
  assume a: "distinct is" "\<forall>i\<in>set is. i < length xs \<and> xs ! i = x"
  have "length is = card (set is)" using a(1) by (simp add: distinct_card)
  also have "\<dots> \<le> card {i. i < length xs \<and> xs ! i = x}" using a(2) by (intro card_mono) auto
  also have "\<dots> = length (filter (\<lambda>y. y = x) xs)" by (simp add: length_filter_conv_card)
  also have "\<dots> = count_list xs x" by (induction xs) auto
  finally show ?thesis .
qed

lemma at_most_three_sleep:
  assumes "bt_inv n (s, st)" and "bus_reaches counters ts s"
  shows "length (thread_list st) \<le> 3"
proof -
  have "length (thread_list st) \<le> count_list (snd s) Onboard" using assms(1) by (intro count_list_indices) (auto simp: bt_inv_def)
  also have "\<dots> \<le> 3" using bus_inv_reaches [OF assms(2)] by (simp add: bus_inv_def)
  finally show ?thesis .
qed

end
