(* ===== verification/Pintos_Properties.thy ===== *)
theory Pintos_Properties
  imports Pintos_Clock Pintos_Transfer
begin

section \<open>Pintos: properties\<close>

text \<open>
  The alarm clock wakes every sleeper at its tick and not before; the calibration loop tests each bit on its
  own. The bus keeps its capacity, but not its direction, and can stop for ever.
\<close>

text \<open>
  C28. In every execution the list of sleepers has no duplicates, and a timer interrupt unblocks
  exactly those whose tick has come, in the order of the list, and keeps the others.
\<close>

theorem timer_wakes_due:
  assumes "inserts_ordered ins" and "timed ins (st, P)"
  shows "thread_list (timer_interrupt st) = filter (\<lambda>t. sint (ticks st + 1) < sint (sleep_ticks st t)) (thread_list st)
    \<and> calls (timer_interrupt st) = calls st @ Thread_tick
        # map Unblock (filter (\<lambda>t. sint (sleep_ticks st t) \<le> sint (ticks st + 1)) (thread_list st))
    \<and> distinct (thread_list st)"
proof -
  have "timer_inv (st, P)" using timed_inv assms by blast
  then show ?thesis using timer_interrupt_ordered [of st] by (simp add: timer_inv_def due_def [abs_def] not_le)
qed

definition two_sleepers :: tstate where
  "two_sleepers = sleep_call insert_before 2 1 (sleep_call insert_before 1 2 timer_init)"

lemma two_sleepers_timed: "timed insert_before (two_sleepers, {})"
proof -
  have "timed insert_before (sleep_begin 1 2 timer_init, {1})"
    using timed.step [OF timed.start tstep.begins [of 1 timer_init "{}" insert_before 2]] by (simp add: timer_init_def)
  from timed.step [OF this tstep.blocks [of 1 "{1}" insert_before]]
  have "timed insert_before (sleep_call insert_before 1 2 timer_init, {})" by (simp add: sleep_call_def)
  moreover have "2 \<notin> set (thread_list (sleep_call insert_before 1 2 timer_init))"
    by (simp add: sleep_call_def sleep_block_def sleep_begin_def timer_init_def Let_def)
  ultimately have "timed insert_before (sleep_begin 2 1 (sleep_call insert_before 1 2 timer_init), {2})"
    using timed.step [OF _ tstep.begins [of 2 _ "{}" insert_before 1]] by simp
  from timed.step [OF this tstep.blocks [of 2 "{2}" insert_before]]
  show ?thesis by (simp add: two_sleepers_def sleep_call_def [of _ 2])
qed

lemma two_sleepers_state: "thread_list two_sleepers = [2, 1]" "ticks two_sleepers = 0"
  "sleep_ticks two_sleepers (Suc 0) = 2" "sleep_ticks two_sleepers 2 = 1"
  by (simp_all add: two_sleepers_def sleep_call_def sleep_block_def sleep_begin_def timer_init_def Let_def
      thread_comparison_def timer_ticks_def)

theorem timer_wakes_due_witness:
  "thread_list (timer_interrupt two_sleepers) = [1]
   \<and> calls (timer_interrupt two_sleepers) = calls two_sleepers @ [Thread_tick, Unblock 2]"
  using timer_wakes_due [OF insert_before_ok two_sleepers_timed] by (simp add: two_sleepers_state)



text \<open>
  C30. The calibration loop ends for every clock for which some power of two of loops takes longer
  than a tick; it finds the first power of two whose double takes longer than a tick and sets each
  of the next nine bits when this bit alone on top of the power does not take longer.
\<close>

theorem calibration_bits:
  assumes "10 \<le> m" and "m < 31" and "\<forall>i. 10 \<le> i \<and> i < m \<longrightarrow> \<not> too_many (pow2 (i + 1))" and "too_many (pow2 (m + 1))"
  shows "\<exists>r. timer_calibrate True too_many = Inr r
    \<and> (\<forall>j. bit r j \<longleftrightarrow> j = m \<or> (m - 10 < j \<and> j < m \<and> \<not> too_many (pow2 m OR pow2 j)))"
  using assms by (rule calibrate_bits)

lemma calibration_overshoots: "timer_calibrate True (\<lambda>l. 1600 < unat l) = Inr 2046"
  by code_simp

theorem calibration_bits_witness:
  "\<exists>r. timer_calibrate True (\<lambda>l. 1600 < unat l) = Inr r
    \<and> (\<forall>j. bit r j \<longleftrightarrow> j = 10 \<or> (10 - 10 < j \<and> j < 10 \<and> \<not> 1600 < unat (pow2 10 OR pow2 j)))"
  using calibration_bits [of 10 "\<lambda>l. 1600 < unat l"] by (simp add: pow2_def)

text \<open>
  C31. In every interleaving of any tasks at most three tasks are on the bus,
  \<open>task_on_bus\<close> is their number, the free slots are the rest, and at most one task
  waits for a slot inside the critical section.
\<close>

theorem bus_capacity:
  assumes "counting sem" and "bus_reaches sem ts s"
  shows "count_list (snd s) Onboard \<le> 3 \<and> task_on_bus (fst s) = int (count_list (snd s) Onboard)
    \<and> bus_slots (fst s) = 3 - count_list (snd s) Onboard \<and> count_list (snd s) Boarding \<le> 1"
proof -
  have "bus_inv s" using assms bus_inv_reaches by (simp add: counting_counters)
  then show ?thesis by (auto simp: bus_inv_def)
qed

theorem bus_capacity_witness:
  "\<exists>s. bus_reaches counters [sender, sender, receiver_task, receiver_task] s
    \<and> \<not> half_duplex [sender, sender, receiver_task, receiver_task] s \<and> count_list (snd s) Onboard \<le> 3"
proof -
  obtain s where s: "bus_reaches counters [sender, sender, receiver_task, receiver_task] s"
      "\<not> half_duplex [sender, sender, receiver_task, receiver_task] s"
    using check_run_reaches [OF duplex_run] by blast
  then show ?thesis using bus_capacity [OF _ s(1)] by (intro exI [of _ s]) (simp add: counting_counters)
qed







end
