(* ===== verification/Login_Db.thy ===== *)
theory Login_Db
  imports App_Text
begin

section \<open>The login program: the password database\<close>

text \<open>
  \<open>computer-security/lab/lab-2/pwent.c\<close> over the text of the file \<open>passdb\<close>. Of the C library the model has \<open>fgets\<close>,
  \<open>sscanf\<close> and \<open>snprintf\<close> for the formats used; \<open>crypt\<close> and \<open>random\<close> are parameters. What the file system
  decides is part of the state; writing to an opened file is taken to succeed. A number out of range in the
  file wraps.
\<close>

record databaseEntry =
  user_name :: string
  uid :: int
  password :: string
  passwordSalt :: string
  attemptsFailed :: int
  passwordAge :: int

record files =
  passdb :: "string option"
  tmp_ok :: bool
  rename_ok :: bool
  append_ok :: bool

definition DATABASE_STRING_LENGTH :: nat where "DATABASE_STRING_LENGTH = 1000"
definition DATABASE_ENTRY_LENGTH :: nat where "DATABASE_ENTRY_LENGTH = DATABASE_STRING_LENGTH * 3 + 4 * 3"
definition DATABASE_PASSWORD_SALT_LENGTH :: nat where "DATABASE_PASSWORD_SALT_LENGTH = 512 div 8"

subsection \<open>Lines and fields\<close>

text \<open>\<open>fgets\<close> into a buffer of \<open>n\<close> characters: the line with its newline, at most \<open>n - 1\<close> characters, and the rest.\<close>

definition line_of :: "nat \<Rightarrow> string \<Rightarrow> string" where
  "line_of n s =
     (let t = take (n - 1) s; l = takeWhile (\<lambda>c. c \<noteq> NL) t in if length l < length t then l @ [NL] else l)"

definition fgets :: "nat \<Rightarrow> string \<Rightarrow> (string \<times> string) option" where
  "fgets n s = (if s = [] then None else Some (line_of n s, drop (length (line_of n s)) s))"

text \<open>\<open>%[^:]\<close>, \<open>:\<close> and \<open>%d\<close>.\<close>

definition scan_field :: "string \<Rightarrow> (string \<times> string) option" where
  "scan_field s =
     (let f = takeWhile (\<lambda>c. c \<noteq> CHR '':'') s in if f = [] then None else Some (f, dropWhile (\<lambda>c. c \<noteq> CHR '':'') s))"

definition scan_colon :: "string \<Rightarrow> string option" where
  "scan_colon s = (case s of c # r \<Rightarrow> if c = CHR '':'' then Some r else None | [] \<Rightarrow> None)"

definition wrap32 :: "int \<Rightarrow> int" where "wrap32 v = sint (word_of_int v :: i32)"

definition strip_sign :: "string \<Rightarrow> string" where
  "strip_sign s = (case s of c # r \<Rightarrow> if c = CHR ''-'' \<or> c = CHR ''+'' then r else s | [] \<Rightarrow> [])"

definition scan_int :: "string \<Rightarrow> (int \<times> string) option" where
  "scan_int s =
     (let t = dropWhile is_space s; u = strip_sign t
      in if takeWhile is_digit u = [] then None else Some (wrap32 (signed_value t), dropWhile is_digit u))"

text \<open>\<open>sscanf\<close> with \<open>DATABASE_ENTRY_SCAN_FORMAT\<close>: all six conversions or nothing.\<close>

definition scan_entry :: "string \<Rightarrow> databaseEntry option" where
  "scan_entry s =
     (case scan_field s of None \<Rightarrow> None | Some (n, s1) \<Rightarrow>
     (case scan_colon s1 of None \<Rightarrow> None | Some s2 \<Rightarrow>
     (case scan_int s2 of None \<Rightarrow> None | Some (u, s3) \<Rightarrow>
     (case scan_colon s3 of None \<Rightarrow> None | Some s4 \<Rightarrow>
     (case scan_field s4 of None \<Rightarrow> None | Some (p, s5) \<Rightarrow>
     (case scan_colon s5 of None \<Rightarrow> None | Some s6 \<Rightarrow>
     (case scan_field s6 of None \<Rightarrow> None | Some (salt, s7) \<Rightarrow>
     (case scan_colon s7 of None \<Rightarrow> None | Some s8 \<Rightarrow>
     (case scan_int s8 of None \<Rightarrow> None | Some (a, s9) \<Rightarrow>
     (case scan_colon s9 of None \<Rightarrow> None | Some s10 \<Rightarrow>
     (case scan_int s10 of None \<Rightarrow> None | Some (g, _) \<Rightarrow>
        Some \<lparr>user_name = n, uid = u, password = p, passwordSalt = salt, attemptsFailed = a, passwordAge = g\<rparr>)))))))))))"

text \<open>\<open>DATABASE_ENTRY_SET_FORMAT\<close>\<close>

definition entry_text :: "databaseEntry \<Rightarrow> string" where
  "entry_text e = user_name e @ '':'' @ decimal (uid e) @ '':'' @ password e @ '':'' @ passwordSalt e @ '':'' @
     decimal (attemptsFailed e) @ '':'' @ decimal (passwordAge e) @ [NL]"

subsection \<open>The three operations\<close>

lemma line_of_nonempty: "s \<noteq> [] \<Longrightarrow> 2 \<le> n \<Longrightarrow> line_of n s \<noteq> []"
  by (cases s; cases "n - 1") (auto simp: line_of_def Let_def)

lemma fgets_shorter: "fgets n s = Some (l, r) \<Longrightarrow> 2 \<le> n \<Longrightarrow> length r < length s"
  using line_of_nonempty [of s n] by (auto simp: fgets_def split: if_splits)

function get_loop :: "string \<Rightarrow> string \<Rightarrow> databaseEntry option" where
  "get_loop file who =
     (case fgets DATABASE_STRING_LENGTH file of
        None \<Rightarrow> None
      | Some (entryBuffer, r) \<Rightarrow>
          (case scan_entry (cstr entryBuffer) of
             None \<Rightarrow> None
           | Some e \<Rightarrow> if user_name e = who then Some e else get_loop r who))"
  by pat_completeness auto

termination
  by (relation "measure (\<lambda>(file, _). length file)") (auto dest: fgets_shorter simp: DATABASE_STRING_LENGTH_def)

declare get_loop.simps [simp del]

definition getDatabaseEntry :: "string \<Rightarrow> files \<Rightarrow> databaseEntry option" where
  "getDatabaseEntry who fs = (case passdb fs of None \<Rightarrow> None | Some file \<Rightarrow> get_loop file who)"

text \<open>
  The copy with the entry replaced, and whether it was found; \<open>None\<close> when the loop is left by a \<open>break\<close>. The
  field of the name is copied into an array of 1000 characters without a bound.
\<close>

function update_loop :: "string \<Rightarrow> string \<Rightarrow> databaseEntry \<Rightarrow> bool \<Rightarrow> string \<Rightarrow> (bool \<times> string) option res" where
  "update_loop file who new found out =
     (case fgets DATABASE_ENTRY_LENGTH file of
        None \<Rightarrow> Inr (Some (found, out))
      | Some (entryBuffer, r) \<Rightarrow>
          (case scan_field (cstr entryBuffer) of
             None \<Rightarrow> Inr None
           | Some (nameBuffer, _) \<Rightarrow>
               if DATABASE_STRING_LENGTH \<le> length nameBuffer then Inl OutOfBounds
               else if nameBuffer = who
               then if DATABASE_ENTRY_LENGTH \<le> length (entry_text new) then Inr None
                    else update_loop r who new True (out @ entry_text new)
               else update_loop r who new found (out @ cstr entryBuffer)))"
  by pat_completeness auto

termination
  by (relation "measure (\<lambda>(file, _). length file)")
    (auto dest: fgets_shorter simp: DATABASE_ENTRY_LENGTH_def DATABASE_STRING_LENGTH_def)

declare update_loop.simps [simp del]

definition updateDatabaseEntry :: "string \<Rightarrow> databaseEntry \<Rightarrow> files \<Rightarrow> (int \<times> files) res" where
  "updateDatabaseEntry who new fs =
     (case passdb fs of
        None \<Rightarrow> Inr (- 1, fs)
      | Some file \<Rightarrow>
          if \<not> tmp_ok fs then Inr (- 1, fs)
          else bnd (update_loop file who new False []) (\<lambda>r.
                 case r of
                   None \<Rightarrow> Inr (- 1, fs)
                 | Some (found, out) \<Rightarrow>
                     if \<not> found then Inr (- 1, fs)
                     else if rename_ok fs then Inr (0, fs\<lparr>passdb := Some out\<rparr>) else Inr (- 1, fs)))"

text \<open>
  The salt is an array of 67 characters that is never ended: \<open>after\<close> is what the heap holds behind it. The
  random numbers are \<open>rnd\<close>, two for each character.
\<close>

definition salt_char :: "int \<Rightarrow> int \<Rightarrow> char" where
  "salt_char r1 r2 = (if cmod r1 2 \<noteq> 0 then to_char (65 + cmod r2 26) else to_char (97 + cmod r2 26))"

definition make_salt :: "(nat \<Rightarrow> int) \<Rightarrow> string" where
  "make_salt rnd = ''$6$'' @ map (\<lambda>i. salt_char (rnd (2 * i)) (rnd (2 * i + 1))) [0..<DATABASE_PASSWORD_SALT_LENGTH]"

definition appendDatabaseEntry ::
    "(string \<Rightarrow> string \<Rightarrow> string) \<Rightarrow> (nat \<Rightarrow> int) \<Rightarrow> string \<Rightarrow> string \<Rightarrow> int \<Rightarrow> string \<Rightarrow> files \<Rightarrow> (int \<times> files) res" where
  "appendDatabaseEntry crypt rnd after who n pw fs =
     (if \<not> append_ok fs then Inr (- 1, fs)
      else if NUL \<notin> set after then Inl OutOfBounds
      else let salt = cstr (make_salt rnd @ after);
               e = \<lparr>user_name = who, uid = n, password = crypt pw salt, passwordSalt = salt, attemptsFailed = 0, passwordAge = 0\<rparr>
           in if DATABASE_ENTRY_LENGTH \<le> length (entry_text e) then Inr (- 1, fs)
              else Inr (0, fs\<lparr>passdb := Some ((case passdb fs of None \<Rightarrow> [] | Some file \<Rightarrow> file) @ entry_text e)\<rparr>))"

subsection \<open>Well-formed entries\<close>

definition field_ok :: "string \<Rightarrow> bool" where
  "field_ok s \<longleftrightarrow> s \<noteq> [] \<and> CHR '':'' \<notin> set s \<and> NL \<notin> set s \<and> NUL \<notin> set s"

definition int_ok :: "int \<Rightarrow> bool" where "int_ok n \<longleftrightarrow> - (2 ^ 31) \<le> n \<and> n < 2 ^ 31"

definition entry_ok :: "databaseEntry \<Rightarrow> bool" where
  "entry_ok e \<longleftrightarrow> field_ok (user_name e) \<and> field_ok (password e) \<and> field_ok (passwordSalt e)
     \<and> int_ok (uid e) \<and> int_ok (attemptsFailed e) \<and> int_ok (passwordAge e)
     \<and> length (entry_text e) < DATABASE_STRING_LENGTH"

definition db_text :: "databaseEntry list \<Rightarrow> string" where "db_text es = concat (map entry_text es)"

lemma decimal_chars: "c \<in> set (decimal n) \<Longrightarrow> c = CHR ''-'' \<or> is_digit c"
  using digits10_digit [of "nat \<bar>n\<bar>"] by (auto simp: decimal_def list_all_iff split: if_splits)

lemma decimal_plain: "CHR '':'' \<notin> set (decimal n)" "NL \<notin> set (decimal n)" "NUL \<notin> set (decimal n)"
  using decimal_chars [of _ n] by (fastforce simp: is_digit_def)+

lemma entry_text_split:
  "entry_ok e \<Longrightarrow> \<exists>t. entry_text e = t @ [NL] \<and> NL \<notin> set t \<and> NUL \<notin> set t"
  using decimal_plain by (auto simp: entry_text_def entry_ok_def field_ok_def intro!: exI)

lemma line_of_entry:
  assumes "entry_ok e" and "DATABASE_STRING_LENGTH \<le> n"
  shows "line_of n (entry_text e @ r) = entry_text e"
proof -
  obtain t where t: "entry_text e = t @ [NL]" "NL \<notin> set t" using entry_text_split [OF assms(1)] by blast
  have len: "length (entry_text e) \<le> n - 1" using assms by (auto simp: entry_ok_def)
  then have "take (n - 1) (entry_text e @ r) = entry_text e @ take (n - 1 - length (entry_text e)) r" by simp
  then have "take (n - 1) (entry_text e @ r) = t @ NL # take (n - 1 - length (entry_text e)) r" unfolding t(1) by simp
  moreover have "takeWhile (\<lambda>c. c \<noteq> NL) (t @ NL # u) = t" for u using t(2) by (induction t) auto
  ultimately show ?thesis using t(1) by (simp add: line_of_def Let_def)
qed

lemma fgets_entry:
  "entry_ok e \<Longrightarrow> DATABASE_STRING_LENGTH \<le> n \<Longrightarrow> fgets n (entry_text e @ r) = Some (entry_text e, r)"
  using line_of_entry [of e n r] entry_text_split [of e] by (auto simp: fgets_def)

lemma cstr_entry: "entry_ok e \<Longrightarrow> cstr (entry_text e) = entry_text e"
proof -
  assume "entry_ok e"
  then obtain t where "entry_text e = t @ [NL]" "NUL \<notin> set t" using entry_text_split by blast
  then have "\<forall>c\<in>set (entry_text e). c \<noteq> NUL" by auto
  then show ?thesis by (simp add: cstr_def takeWhile_eq_all_conv)
qed

lemma scan_field_ok: "field_ok f \<Longrightarrow> scan_field (f @ CHR '':'' # r) = Some (f, CHR '':'' # r)"
proof -
  assume f: "field_ok f"
  then have "takeWhile (\<lambda>c. c \<noteq> CHR '':'') (f @ CHR '':'' # r) = f" "dropWhile (\<lambda>c. c \<noteq> CHR '':'') (f @ CHR '':'' # r) = CHR '':'' # r"
    by (auto simp: field_ok_def takeWhile_append dropWhile_append)
  then show ?thesis using f by (simp add: scan_field_def field_ok_def)
qed

lemma scan_colon_ok [simp]: "scan_colon (CHR '':'' # r) = Some r"
  by (simp add: scan_colon_def)

lemma wrap32_id: "int_ok n \<Longrightarrow> wrap32 n = n"
proof -
  assume "int_ok n"
  then have "signed_take_bit 31 n = n" unfolding int_ok_def by (intro signed_take_bit_int_eq_self) simp_all
  moreover have "wrap32 n = signed_take_bit 31 n" unfolding wrap32_def by transfer simp
  ultimately show ?thesis by simp
qed

definition stops :: "string \<Rightarrow> bool" where "stops r \<longleftrightarrow> r = [] \<or> \<not> is_digit (hd r)"

lemma digit_prefix: "stops r \<Longrightarrow> list_all is_digit d \<Longrightarrow> takeWhile is_digit (d @ r) = d \<and> dropWhile is_digit (d @ r) = r"
  by (induction d) (cases r; auto simp: stops_def)+

lemma digits_prefix:
  assumes "stops r"
  shows "takeWhile is_digit (digits 10 n @ r) = digits 10 n" "dropWhile is_digit (digits 10 n @ r) = r"
    "digits_value (digits 10 n @ r) = int n"
proof -
  have p: "takeWhile is_digit (digits 10 n @ r) = digits 10 n \<and> dropWhile is_digit (digits 10 n @ r) = r"
    using digit_prefix [OF assms digits10_digit] .
  then show "takeWhile is_digit (digits 10 n @ r) = digits 10 n" "dropWhile is_digit (digits 10 n @ r) = r" by simp_all
  have "takeWhile is_digit (digits 10 n) = digits 10 n"
    using digits10_digit [of n] by (simp only: takeWhile_eq_all_conv list_all_iff)
  then show "digits_value (digits 10 n @ r) = int n"
    using digits10_value [of n] p unfolding digits_value_def by (simp only:)
qed

lemma digit_facts:
  "is_digit c \<Longrightarrow> \<not> is_space c" "is_digit c \<Longrightarrow> c \<noteq> CHR ''-''" "is_digit c \<Longrightarrow> c \<noteq> CHR ''+''"
  "\<not> is_space CHR ''-''" "\<not> is_digit CHR '':''" "\<not> is_digit NL"
  by (auto simp: is_digit_def is_space_def)

lemma signed_value_cases:
  "signed_value (CHR ''-'' # s) = - digits_value s"
  "c \<noteq> CHR ''-'' \<Longrightarrow> c \<noteq> CHR ''+'' \<Longrightarrow> signed_value (c # s) = digits_value (c # s)"
  by (auto simp: signed_value_def split: char.splits bool.splits)

lemma decimal_shape:
  assumes "stops r"
  shows "dropWhile is_space (decimal n @ r) = decimal n @ r \<and> signed_value (decimal n @ r) = n
    \<and> takeWhile is_digit (strip_sign (decimal n @ r)) \<noteq> [] \<and> dropWhile is_digit (strip_sign (decimal n @ r)) = r"
proof -
  let ?d = "digits 10 (nat \<bar>n\<bar>)"
  obtain c s where c: "?d = c # s" "is_digit c"
    using digits10_digit [of "nat \<bar>n\<bar>"] digits_nonempty by (cases ?d) auto
  note p = digits_prefix [OF assms, of "nat \<bar>n\<bar>"]
  note f = digit_facts(1-3) [OF c(2)]
  show ?thesis
  proof (cases "n < 0")
    case True
    then have "decimal n @ r = CHR ''-'' # ?d @ r" by (simp add: decimal_def)
    then show ?thesis using True p digits_nonempty digit_facts(4) by (simp add: strip_sign_def signed_value_cases)
  next
    case False
    then have d: "decimal n @ r = ?d @ r" by (simp add: decimal_def)
    have "strip_sign (?d @ r) = ?d @ r" unfolding c(1) using f by (simp add: strip_sign_def)
    moreover have "signed_value (?d @ r) = digits_value (?d @ r)"
      unfolding c(1) using signed_value_cases(2) f by simp
    moreover have "dropWhile is_space (?d @ r) = ?d @ r" unfolding c(1) using f(1) by simp
    ultimately show ?thesis unfolding d using False p digits_nonempty by simp
  qed
qed

lemma scan_int_decimal: "int_ok n \<Longrightarrow> stops r \<Longrightarrow> scan_int (decimal n @ r) = Some (n, r)"
  using decimal_shape [of r n] wrap32_id [of n] by (simp add: scan_int_def Let_def)

lemma stops_colon [simp]: "stops (CHR '':'' # r)" "stops (NL # r)"
  using digit_facts by (simp_all add: stops_def)

theorem scan_entry_text: "entry_ok e \<Longrightarrow> scan_entry (entry_text e) = Some e"
  by (simp add: entry_ok_def scan_entry_def entry_text_def scan_field_ok scan_int_decimal)

subsection \<open>The operations on a database of well-formed entries\<close>

lemma get_loop_db:
  "list_all entry_ok es \<Longrightarrow> get_loop (db_text es) who = find (\<lambda>e. user_name e = who) es"
proof (induction es)
  case Nil
  then show ?case by (subst get_loop.simps) (simp add: db_text_def fgets_def)
next
  case (Cons e es)
  then have "fgets DATABASE_STRING_LENGTH (db_text (e # es)) = Some (entry_text e, db_text es)"
    using fgets_entry by (simp add: db_text_def)
  then show ?case using Cons scan_entry_text cstr_entry by (subst get_loop.simps) simp
qed

definition replace_entry :: "string \<Rightarrow> databaseEntry \<Rightarrow> databaseEntry list \<Rightarrow> databaseEntry list" where
  "replace_entry who new es = map (\<lambda>e. if user_name e = who then new else e) es"

lemma entry_text_bound:
  "entry_ok e \<Longrightarrow> \<not> DATABASE_ENTRY_LENGTH \<le> length (entry_text e) \<and> \<not> DATABASE_STRING_LENGTH \<le> length (user_name e)"
  by (auto simp: entry_ok_def DATABASE_ENTRY_LENGTH_def entry_text_def)

lemma update_loop_db:
  "list_all entry_ok es \<Longrightarrow> entry_ok new \<Longrightarrow>
     update_loop (db_text es) who new found out =
       Inr (Some (found \<or> (\<exists>e\<in>set es. user_name e = who), out @ db_text (replace_entry who new es)))"
proof (induction es arbitrary: found out)
  case Nil
  then show ?case by (subst update_loop.simps) (simp add: db_text_def fgets_def replace_entry_def)
next
  case (Cons e es)
  have "DATABASE_STRING_LENGTH \<le> DATABASE_ENTRY_LENGTH" by (simp add: DATABASE_ENTRY_LENGTH_def)
  then have f: "fgets DATABASE_ENTRY_LENGTH (db_text (e # es)) = Some (entry_text e, db_text es)"
    using Cons.prems fgets_entry by (simp add: db_text_def)
  have s: "\<exists>r. scan_field (cstr (entry_text e)) = Some (user_name e, r)"
    using Cons.prems cstr_entry [of e] scan_field_ok by (simp add: entry_ok_def) (auto simp: entry_text_def)
  show ?case using f s Cons entry_text_bound [of e] entry_text_bound [of new] cstr_entry [of e]
    by (subst update_loop.simps) (auto simp: db_text_def replace_entry_def)
qed

lemma update_db:
  assumes "list_all entry_ok es" "entry_ok new" "passdb fs = Some (db_text es)" "tmp_ok fs" "rename_ok fs"
    "\<exists>e\<in>set es. user_name e = who"
  shows "updateDatabaseEntry who new fs = Inr (0, fs\<lparr>passdb := Some (db_text (replace_entry who new es))\<rparr>)"
  using assms update_loop_db [OF assms(1,2), of who False "[]"] by (simp add: updateDatabaseEntry_def)

lemma append_db:
  assumes "append_ok fs" "NUL \<in> set after" "entry_ok \<lparr>user_name = who, uid = n, password = crypt pw (cstr (make_salt rnd @ after)),
      passwordSalt = cstr (make_salt rnd @ after), attemptsFailed = 0, passwordAge = 0\<rparr>" (is "entry_ok ?e")
    and "passdb fs = Some (db_text es)"
  shows "appendDatabaseEntry crypt rnd after who n pw fs = Inr (0, fs\<lparr>passdb := Some (db_text (es @ [?e]))\<rparr>)"
  using assms entry_text_bound [OF assms(3)] by (simp add: appendDatabaseEntry_def Let_def db_text_def)

end
