(* ===== verification/Login.thy ===== *)
theory Login
  imports Login_Db
begin

section \<open>The login program: logging in and registering\<close>

text \<open>
  One turn of the loops of \<open>login_linux.c\<close> and \<open>register.c\<close>, and \<open>makepass.c\<close>. What is typed is an argument, as is
  \<open>crypt\<close>; the shell that a login ends in is an outcome.
\<close>

datatype outcome = Again | Shell int | Exit int

definition USER_LENGTH :: nat where "USER_LENGTH = 16"

definition invalid_text :: string where "invalid_text = ''[ERROR] Invalid credentials.''"
definition not_updated :: string where "not_updated = ''[ERROR] Could not update the entry.''"

text \<open>\<open>user[strcspn(user, newline)] = 0\<close>\<close>

definition strip_newline :: "string \<Rightarrow> string" where "strip_newline s = takeWhile (\<lambda>c. c \<noteq> NL) s"

definition typed_name :: "string \<Rightarrow> string" where
  "typed_name input = strip_newline (cstr (line_of USER_LENGTH input))"

definition update_message :: "int \<Rightarrow> string list" where
  "update_message status = (if status = - 1 then [not_updated] else [])"

text \<open>From \<open>setuid\<close> on.\<close>

definition enter_shell :: "(int \<Rightarrow> bool) \<Rightarrow> databaseEntry \<Rightarrow> outcome" where
  "enter_shell setuid_ok e = (if setuid_ok (uid e) then Shell (uid e) else Exit 1)"

text \<open>A password that matches; the second look-up overwrites the entry with what the file holds.\<close>

definition accepted :: "(int \<Rightarrow> bool) \<Rightarrow> string \<Rightarrow> string \<Rightarrow> databaseEntry \<Rightarrow> files \<Rightarrow> (outcome \<times> string list \<times> files) res" where
  "accepted setuid_ok user new_pass userEntry fs =
     bnd (updateDatabaseEntry user (userEntry\<lparr>attemptsFailed := 0, passwordAge := wrap32 (passwordAge userEntry + 1)\<rparr>) fs)
       (\<lambda>(status, fs1).
       let out = ''[INFO] Successful login!'' # update_message status
       in case getDatabaseEntry user fs1 of
            None \<Rightarrow> Inl NullDeref
          | Some e2 \<Rightarrow>
              if 10 \<le> passwordAge e2
              then let e3 = e2\<lparr>passwordAge := 0, password := new_pass\<rparr>
                   in bnd (updateDatabaseEntry user e3 fs1) (\<lambda>(status2, fs2).
                        Inr (enter_shell setuid_ok e3, out @ ''[INFO] You should change password now...'' # update_message status2, fs2))
              else Inr (enter_shell setuid_ok e2, out, fs1))"

definition login_round ::
    "(string \<Rightarrow> string \<Rightarrow> string) \<Rightarrow> (int \<Rightarrow> bool) \<Rightarrow> string \<Rightarrow> string \<Rightarrow> string \<Rightarrow> files \<Rightarrow> (outcome \<times> string list \<times> files) res" where
  "login_round crypt setuid_ok input userPassword new_pass fs =
     (if input = [] then Inr (Exit 0, [], fs)
      else let user = typed_name input
           in case getDatabaseEntry user fs of
                None \<Rightarrow> Inr (Again, [invalid_text], fs)
              | Some userEntry \<Rightarrow>
                  if 3 \<le> attemptsFailed userEntry then Inr (Again, [invalid_text], fs)
                  else if password userEntry = crypt userPassword (passwordSalt userEntry)
                  then accepted setuid_ok user new_pass userEntry fs
                  else bnd (updateDatabaseEntry user (userEntry\<lparr>attemptsFailed := wrap32 (attemptsFailed userEntry + 1)\<rparr>) fs)
                         (\<lambda>(status, fs1). Inr (Again, update_message status @ [invalid_text], fs1)))"

text \<open>One turn of \<open>register\<close>; \<open>True\<close> when the user has been registered.\<close>

definition register_round ::
    "(string \<Rightarrow> string \<Rightarrow> string) \<Rightarrow> (nat \<Rightarrow> int) \<Rightarrow> string \<Rightarrow> string \<Rightarrow> string \<Rightarrow> string \<Rightarrow> string \<Rightarrow> files
      \<Rightarrow> (bool \<times> string list \<times> files) res" where
  "register_round crypt rnd after name_input uid_input pw confirmPassword fs =
     (let who = strip_newline (cstr (line_of DATABASE_STRING_LENGTH name_input));
          uid_text = cstr (line_of DATABASE_STRING_LENGTH uid_input)
      in if getDatabaseEntry who fs \<noteq> None then Inr (False, [''[ERROR] There is a user already with this name''], fs)
         else bnd (atoi uid_text) (\<lambda>uidInt.
              if uidInt = 0 \<and> (uid_text = [] \<or> hd uid_text \<noteq> CHR ''0'') then Inr (False, [''[ERROR] Invalid uid...''], fs)
              else if pw \<noteq> confirmPassword then Inr (False, [''[ERROR] Passwords aren't matching!''], fs)
              else bnd (appendDatabaseEntry crypt rnd after who (sint uidInt) pw fs) (\<lambda>(status, fs1).
                   if status \<noteq> 0 then Inr (False, [''[ERROR] Couldn't register user...''], fs1)
                   else Inr (True, [''[SUCCESS] User registered correctly!''], fs1))))"

subsection \<open>\<open>makepass\<close>\<close>

definition salts :: string where
  "salts = ''abcdefghijklmnopqrstuvwxyzABCDEFGHIJKLMNOPQRSTUVWXYZ0123456789./''"

definition is_salt :: "string \<Rightarrow> bool" where
  "is_salt salt \<longleftrightarrow> length salt = 2 \<and> salt ! 0 \<in> set salts \<and> salt ! 1 \<in> set salts"

text \<open>
  \<open>strncpy(clear1, clear, 8)\<close> into nine characters, of which the last, \<open>junk\<close>, is never set. The result is the exit code
  and what is printed.
\<close>

definition strncpy8 :: "string \<Rightarrow> string" where "strncpy8 s = take 8 (s @ replicate 8 NUL)"

definition makepass ::
    "(string \<Rightarrow> string \<Rightarrow> string) \<Rightarrow> char \<Rightarrow> string list \<Rightarrow> string \<Rightarrow> string \<Rightarrow> (int \<times> string) res" where
  "makepass crypt junk args clear clear2 =
     (if length args \<noteq> 1 then Inr (1, [])
      else if \<not> is_salt (hd args) then Inr (2, [])
      else let clear1 = strncpy8 clear @ [junk]
           in if NUL \<notin> set clear1 \<and> take 9 clear2 = clear1 then Inl OutOfBounds
              else if cstr clear1 \<noteq> clear2 then Inr (4, [])
              else Inr (0, ''Encrypted password: '' @ crypt (cstr clear1) (hd args)))"

lemma makepass_long_password:
  "is_salt salt \<Longrightarrow> 8 < length pw \<Longrightarrow> NUL \<notin> set pw \<Longrightarrow> makepass crypt NUL [salt] pw pw = Inr (4, [])"
proof -
  assume a: "is_salt salt" "8 < length pw" "NUL \<notin> set pw"
  have "strncpy8 pw = take 8 pw" using a(2) by (simp add: strncpy8_def)
  moreover have "cstr (take 8 pw @ [NUL]) = take 8 pw" using a(3) by (intro cstr_no_NUL) (auto dest: in_set_takeD)
  moreover have "length (take 8 pw) < length pw" using a(2) by simp
  then have "take 8 pw \<noteq> pw" by auto
  ultimately show ?thesis using a(1) unfolding makepass_def Let_def by simp
qed

subsection \<open>The same on a list of entries\<close>

definition roomy :: "databaseEntry \<Rightarrow> bool" where
  "roomy e \<longleftrightarrow> field_ok (user_name e) \<and> field_ok (password e) \<and> field_ok (passwordSalt e) \<and> int_ok (uid e)
     \<and> length (user_name e) \<le> 100 \<and> length (password e) \<le> 700 \<and> length (passwordSalt e) \<le> 100
     \<and> attemptsFailed e \<in> {0..3} \<and> passwordAge e \<in> {0..10}"

definition db_ok :: "databaseEntry list \<Rightarrow> bool" where
  "db_ok es \<longleftrightarrow> (\<forall>e\<in>set es. roomy e \<and> passwordAge e < 10)"

definition usable :: "files \<Rightarrow> databaseEntry list \<Rightarrow> bool" where
  "usable fs es \<longleftrightarrow> passdb fs = Some (db_text es) \<and> tmp_ok fs \<and> rename_ok fs \<and> append_ok fs"

definition abs_login ::
    "(string \<Rightarrow> string \<Rightarrow> string) \<Rightarrow> string \<Rightarrow> string \<Rightarrow> string \<Rightarrow> databaseEntry list \<Rightarrow> outcome \<times> databaseEntry list" where
  "abs_login crypt user pw new_pass es =
     (case find (\<lambda>e. user_name e = user) es of
        None \<Rightarrow> (Again, es)
      | Some e \<Rightarrow>
          if 3 \<le> attemptsFailed e then (Again, es)
          else if password e = crypt pw (passwordSalt e)
          then (Shell (uid e),
                replace_entry user
                  (if passwordAge e = 9 then e\<lparr>attemptsFailed := 0, passwordAge := 0, password := new_pass\<rparr>
                   else e\<lparr>attemptsFailed := 0, passwordAge := passwordAge e + 1\<rparr>) es)
          else (Again, replace_entry user (e\<lparr>attemptsFailed := attemptsFailed e + 1\<rparr>) es))"

lemma decimal_bound: "int_ok n \<Longrightarrow> length (decimal n) \<le> 11"
  using decimal_length [of "word_of_int n"] wrap32_id [of n] by (simp add: wrap32_def)

lemma roomy_entry_ok: "roomy e \<Longrightarrow> entry_ok e"
proof -
  assume r: "roomy e"
  then have i: "int_ok (attemptsFailed e)" "int_ok (passwordAge e)" by (auto simp: roomy_def int_ok_def)
  then have "length (entry_text e) \<le> 939"
    using decimal_bound [of "uid e"] decimal_bound [OF i(1)] decimal_bound [OF i(2)] r
    by (simp add: roomy_def entry_text_def)
  then show ?thesis using r i by (simp add: roomy_def entry_ok_def DATABASE_STRING_LENGTH_def)
qed

lemma db_ok_entries: "db_ok es \<Longrightarrow> list_all entry_ok es"
  using roomy_entry_ok by (auto simp: db_ok_def list_all_iff)

lemma find_replace:
  "find (\<lambda>e. user_name e = who) es = Some e \<Longrightarrow> user_name new = who \<Longrightarrow>
     find (\<lambda>e. user_name e = who) (replace_entry who new es) = Some new"
  by (induction es) (auto simp: replace_entry_def split: if_splits)

lemma find_replace_other:
  "who \<noteq> u \<Longrightarrow> user_name new = u \<Longrightarrow> find (\<lambda>e. user_name e = who) (replace_entry u new es) = find (\<lambda>e. user_name e = who) es"
  by (induction es) (auto simp: replace_entry_def)

lemma find_member: "find P es = Some e \<Longrightarrow> e \<in> set es \<and> P e"
  by (induction es) (auto split: if_splits)

lemma replace_twice: "user_name a = who \<Longrightarrow> replace_entry who b (replace_entry who a es) = replace_entry who b es"
  by (auto simp: replace_entry_def)

lemma db_ok_replace: "db_ok es \<Longrightarrow> roomy new \<Longrightarrow> passwordAge new < 10 \<Longrightarrow> db_ok (replace_entry who new es)"
  by (auto simp: db_ok_def replace_entry_def)

lemma entries_replace: "list_all entry_ok es \<Longrightarrow> entry_ok new \<Longrightarrow> list_all entry_ok (replace_entry who new es)"
  by (auto simp: list_all_iff replace_entry_def)

definition good_new :: "string \<Rightarrow> bool" where "good_new pw \<longleftrightarrow> field_ok pw \<and> length pw \<le> 700"

lemma usable_get: "usable fs es \<Longrightarrow> list_all entry_ok es \<Longrightarrow> getDatabaseEntry who fs = find (\<lambda>e. user_name e = who) es"
  by (simp add: usable_def getDatabaseEntry_def get_loop_db)

lemma usable_update:
  "usable fs es \<Longrightarrow> list_all entry_ok es \<Longrightarrow> entry_ok new \<Longrightarrow> find (\<lambda>e. user_name e = who) es = Some e \<Longrightarrow>
     \<exists>fs'. updateDatabaseEntry who new fs = Inr (0, fs') \<and> usable fs' (replace_entry who new es)"
proof -
  assume u: "usable fs es" and e: "list_all entry_ok es" "entry_ok new" and f: "find (\<lambda>e. user_name e = who) es = Some e"
  have "\<exists>e\<in>set es. user_name e = who" using find_member [OF f] by blast
  from update_db [OF e _ _ _ this, of fs] u show ?thesis by (auto simp: usable_def)
qed

lemma wrap32_small: "0 \<le> n \<Longrightarrow> n \<le> 20 \<Longrightarrow> wrap32 n = n"
  by (intro wrap32_id) (simp add: int_ok_def)

lemma accepted_abs:
  assumes u: "usable fs es" and d: "db_ok es" and f: "find (\<lambda>e. user_name e = user) es = Some e" and n: "good_new new_pass"
  shows "\<exists>msgs fs'. accepted (\<lambda>_. True) user new_pass e fs = Inr (Shell (uid e), msgs, fs')
    \<and> usable fs' (replace_entry user
          (if passwordAge e = 9 then e\<lparr>attemptsFailed := 0, passwordAge := 0, password := new_pass\<rparr>
           else e\<lparr>attemptsFailed := 0, passwordAge := passwordAge e + 1\<rparr>) es)"
proof -
  have e: "roomy e" "passwordAge e < 10" "user_name e = user" using find_member [OF f] d by (auto simp: db_ok_def)
  let ?e1 = "e\<lparr>attemptsFailed := 0, passwordAge := passwordAge e + 1\<rparr>"
  have w: "wrap32 (passwordAge e + 1) = passwordAge e + 1" using e by (intro wrap32_small) (auto simp: roomy_def)
  have "roomy ?e1" using e by (auto simp: roomy_def)
  then have ok1: "entry_ok ?e1" by (rule roomy_entry_ok)
  obtain fs1 where f1: "updateDatabaseEntry user ?e1 fs = Inr (0, fs1)" "usable fs1 (replace_entry user ?e1 es)"
    using usable_update [OF u db_ok_entries [OF d] ok1 f] by blast
  have g: "getDatabaseEntry user fs1 = Some ?e1"
    using usable_get [OF f1(2) entries_replace [OF db_ok_entries [OF d] ok1]] find_replace [OF f, of ?e1] e(3) by simp
  show ?thesis
  proof (cases "passwordAge e = 9")
    case False
    then show ?thesis using f1 g w e by (simp add: accepted_def Let_def enter_shell_def)
  next
    case True
    let ?e3 = "e\<lparr>attemptsFailed := 0, passwordAge := 0, password := new_pass\<rparr>"
    have eq: "?e1\<lparr>passwordAge := 0, password := new_pass\<rparr> = ?e3" by simp
    have "roomy ?e3" using e n by (auto simp: roomy_def good_new_def)
    then have ok3: "entry_ok ?e3" by (rule roomy_entry_ok)
    have r2: "find (\<lambda>e. user_name e = user) (replace_entry user ?e1 es) = Some ?e1" using find_replace [OF f, of ?e1] e(3) by simp
    obtain fs2 where "updateDatabaseEntry user ?e3 fs1 = Inr (0, fs2)"
        "usable fs2 (replace_entry user ?e3 (replace_entry user ?e1 es))"
      using usable_update [OF f1(2) entries_replace [OF db_ok_entries [OF d] ok1] ok3 r2] by blast
    then show ?thesis using f1 g w e True replace_twice [of ?e1 user ?e3 es]
      by (simp add: accepted_def Let_def enter_shell_def)
  qed
qed

theorem login_abs:
  assumes u: "usable fs es" and d: "db_ok es" and n: "good_new new_pass" and i: "input \<noteq> []"
  shows "\<exists>msgs fs'. login_round crypt (\<lambda>_. True) input pw new_pass fs
      = Inr (fst (abs_login crypt (typed_name input) pw new_pass es), msgs, fs')
    \<and> usable fs' (snd (abs_login crypt (typed_name input) pw new_pass es))
    \<and> db_ok (snd (abs_login crypt (typed_name input) pw new_pass es))"
proof -
  let ?u = "typed_name input"
  have g: "getDatabaseEntry ?u fs = find (\<lambda>e. user_name e = ?u) es" using usable_get [OF u db_ok_entries [OF d]] .
  show ?thesis
  proof (cases "find (\<lambda>e. user_name e = ?u) es")
    case None
    then show ?thesis using g i u d by (simp add: login_round_def abs_login_def Let_def)
  next
    case (Some e)
    have e: "roomy e" "passwordAge e < 10" "user_name e = ?u" using find_member [OF Some] d by (auto simp: db_ok_def)
    consider "3 \<le> attemptsFailed e" | (ok) "attemptsFailed e < 3" "password e = crypt pw (passwordSalt e)"
      | (bad) "attemptsFailed e < 3" "password e \<noteq> crypt pw (passwordSalt e)" by linarith
    then show ?thesis
    proof cases
      case 1
      then show ?thesis using g i u d Some by (simp add: login_round_def abs_login_def Let_def)
    next
      case ok
      have "db_ok (replace_entry ?u (if passwordAge e = 9 then e\<lparr>attemptsFailed := 0, passwordAge := 0, password := new_pass\<rparr>
           else e\<lparr>attemptsFailed := 0, passwordAge := passwordAge e + 1\<rparr>) es)"
        using e n by (intro db_ok_replace [OF d]) (auto simp: roomy_def good_new_def)
      then show ?thesis using accepted_abs [OF u d Some n] ok g i Some by (auto simp: login_round_def abs_login_def Let_def)
    next
      case bad
      let ?e1 = "e\<lparr>attemptsFailed := attemptsFailed e + 1\<rparr>"
      have w: "wrap32 (attemptsFailed e + 1) = attemptsFailed e + 1" using e bad by (intro wrap32_small) (auto simp: roomy_def)
      have r1: "roomy ?e1" using e bad by (auto simp: roomy_def)
      obtain fs1 where "updateDatabaseEntry ?u ?e1 fs = Inr (0, fs1)" "usable fs1 (replace_entry ?u ?e1 es)"
        using usable_update [OF u db_ok_entries [OF d] roomy_entry_ok [OF r1] Some] by blast
      moreover have "db_ok (replace_entry ?u ?e1 es)" using r1 e by (intro db_ok_replace [OF d]) auto
      ultimately show ?thesis using g i Some bad w by (simp add: login_round_def abs_login_def Let_def)
    qed
  qed
qed

subsection \<open>Rounds\<close>

record round =
  r_input :: string
  r_password :: string
  r_new :: string

fun run_rounds :: "(string \<Rightarrow> string \<Rightarrow> string) \<Rightarrow> round list \<Rightarrow> files \<Rightarrow> (outcome list \<times> files) res" where
  "run_rounds crypt [] fs = Inr ([], fs)"
| "run_rounds crypt (r # rs) fs =
     bnd (login_round crypt (\<lambda>_. True) (r_input r) (r_password r) (r_new r) fs) (\<lambda>(oc, _, fs1).
     bnd (run_rounds crypt rs fs1) (\<lambda>(os, fs2). Inr (oc # os, fs2)))"

fun abs_rounds :: "(string \<Rightarrow> string \<Rightarrow> string) \<Rightarrow> round list \<Rightarrow> databaseEntry list \<Rightarrow> outcome list \<times> databaseEntry list" where
  "abs_rounds crypt [] es = ([], es)"
| "abs_rounds crypt (r # rs) es =
     (let (oc, es1) = abs_login crypt (typed_name (r_input r)) (r_password r) (r_new r) es;
          (os, es2) = abs_rounds crypt rs es1
      in (oc # os, es2))"

definition good_round :: "round \<Rightarrow> bool" where "good_round r \<longleftrightarrow> r_input r \<noteq> [] \<and> good_new (r_new r)"

lemma run_rounds_abs:
  "usable fs es \<Longrightarrow> db_ok es \<Longrightarrow> \<forall>r\<in>set rs. good_round r \<Longrightarrow>
     \<exists>fs'. run_rounds crypt rs fs = Inr (fst (abs_rounds crypt rs es), fs') \<and> usable fs' (snd (abs_rounds crypt rs es))"
proof (induction rs arbitrary: fs es)
  case (Cons r rs)
  let ?a = "abs_login crypt (typed_name (r_input r)) (r_password r) (r_new r) es"
  have "r_input r \<noteq> []" "good_new (r_new r)" using Cons.prems(3) by (auto simp: good_round_def)
  then obtain msgs fs1 where "login_round crypt (\<lambda>_. True) (r_input r) (r_password r) (r_new r) fs = Inr (fst ?a, msgs, fs1)"
      "usable fs1 (snd ?a)" "db_ok (snd ?a)"
    using login_abs [OF Cons.prems(1,2)] by blast
  then show ?case using Cons.IH [of fs1 "snd ?a"] Cons.prems(3) by (auto simp: split_beta)
qed simp

lemma abs_login_other:
  assumes "user \<noteq> u"
  shows "find (\<lambda>e. user_name e = u) (snd (abs_login crypt user pw new_pass es)) = find (\<lambda>e. user_name e = u) es"
proof (cases "find (\<lambda>e. user_name e = user) es")
  case None
  then show ?thesis by (simp add: abs_login_def)
next
  case (Some e)
  have n: "user_name e = user" using find_member [OF Some] by simp
  then show ?thesis using Some find_replace_other [of u user _ es] assms by (simp add: abs_login_def)
qed

lemma locked_rounds:
  "find (\<lambda>e. user_name e = u) es = Some e \<Longrightarrow> 3 \<le> attemptsFailed e \<Longrightarrow> i < length rs \<Longrightarrow>
     typed_name (r_input (rs ! i)) = u \<Longrightarrow> fst (abs_rounds crypt rs es) ! i = Again"
proof (induction rs arbitrary: es i)
  case (Cons r rs)
  let ?a = "abs_login crypt (typed_name (r_input r)) (r_password r) (r_new r) es"
  have same: "typed_name (r_input r) = u \<Longrightarrow> ?a = (Again, es)" using Cons.prems(1,2) by (simp add: abs_login_def)
  then have f: "find (\<lambda>e. user_name e = u) (snd ?a) = Some e"
    using abs_login_other [of "typed_name (r_input r)" u] Cons.prems(1) by (cases "typed_name (r_input r) = u") auto
  show ?case
  proof (cases i)
    case 0
    then show ?thesis using same Cons.prems(4) by (simp add: split_beta Let_def)
  next
    case (Suc j)
    then show ?thesis using Cons.IH [OF f Cons.prems(2), of j] Cons.prems(3,4) by (simp add: split_beta Let_def)
  qed
qed simp

lemma abs_rounds_length [simp]: "length (fst (abs_rounds crypt rs es)) = length rs"
  by (induction rs arbitrary: es) (simp_all add: split_beta Let_def)

lemma wrong_attempt:
  "find (\<lambda>e. user_name e = u) es = Some e \<Longrightarrow> attemptsFailed e < 3 \<Longrightarrow> crypt pw (passwordSalt e) \<noteq> password e \<Longrightarrow>
     abs_login crypt u pw new_pass es = (Again, replace_entry u (e\<lparr>attemptsFailed := attemptsFailed e + 1\<rparr>) es)
     \<and> find (\<lambda>e. user_name e = u) (replace_entry u (e\<lparr>attemptsFailed := attemptsFailed e + 1\<rparr>) es)
         = Some (e\<lparr>attemptsFailed := attemptsFailed e + 1\<rparr>)"
  using find_member [of "\<lambda>e. user_name e = u" es e] find_replace [of u es e "e\<lparr>attemptsFailed := attemptsFailed e + 1\<rparr>"]
  by (auto simp: abs_login_def)

subsection \<open>Registering\<close>

lemma of_to_char: "0 \<le> n \<Longrightarrow> n < 256 \<Longrightarrow> (of_char (to_char n) :: nat) = nat n"
  by (simp add: to_char_def)

lemma salt_char_letter: "0 \<le> r1 \<Longrightarrow> 0 \<le> r2 \<Longrightarrow> 65 \<le> (of_char (salt_char r1 r2) :: nat)"
proof -
  assume r: "0 \<le> r1" "0 \<le> r2"
  have "0 \<le> cmod r2 26" "cmod r2 26 < 26" using r(2) cmod_nonneg [of r2 26] by simp_all
  then show ?thesis by (auto simp: salt_char_def of_to_char)
qed

lemma make_salt_ok: "\<forall>i. 0 \<le> rnd i \<Longrightarrow> field_ok (make_salt rnd) \<and> length (make_salt rnd) = 67"
proof -
  assume r: "\<forall>i. 0 \<le> rnd i"
  have "c \<notin> set (map (\<lambda>i. salt_char (rnd (2 * i)) (rnd (2 * i + 1))) xs)" if "(of_char c :: nat) < 65" for c xs
  proof
    assume "c \<in> set (map (\<lambda>i. salt_char (rnd (2 * i)) (rnd (2 * i + 1))) xs)"
    then obtain i where "c = salt_char (rnd (2 * i)) (rnd (2 * i + 1))" by auto
    then show False using salt_char_letter [of "rnd (2 * i)" "rnd (2 * i + 1)"] r that by simp
  qed
  from this [of "CHR '':''" "[0..<64]"] this [of NL "[0..<64]"] this [of NUL "[0..<64]"] show ?thesis
    by (simp add: make_salt_def field_ok_def DATABASE_PASSWORD_SALT_LENGTH_def)
qed

lemma typed_line:
  assumes "field_ok w" "length w < n"
  shows "strip_newline (cstr (line_of n (w @ [NL]))) = w"
proof -
  have nn: "\<forall>c\<in>set w. c \<noteq> NL" "\<forall>c\<in>set w. c \<noteq> NUL" using assms(1) by (auto simp: field_ok_def)
  have tw: "takeWhile (\<lambda>c. c \<noteq> NL) (w @ [NL]) = w" "takeWhile (\<lambda>c. c \<noteq> NL) w = w"
    using nn(1) by (simp_all add: takeWhile_append2 takeWhile_eq_all_conv)
  have cs: "cstr (w @ [NL]) = w @ [NL]" "cstr w = w" using nn(2) by (auto simp: cstr_def takeWhile_eq_all_conv)
  show ?thesis
  proof (cases "length w = n - 1")
    case True
    then have "take (n - 1) (w @ [NL]) = w" by simp
    then have "line_of n (w @ [NL]) = w" by (simp add: line_of_def Let_def tw)
    then show ?thesis using cs tw by (simp add: strip_newline_def)
  next
    case False
    then have "take (n - 1) (w @ [NL]) = w @ [NL]" using assms(2) by simp
    then have "line_of n (w @ [NL]) = w @ [NL]" by (simp add: line_of_def Let_def tw)
    then show ?thesis using cs tw by (simp add: strip_newline_def)
  qed
qed

lemma uid_line:
  assumes "int_ok n"
  shows "cstr (line_of DATABASE_STRING_LENGTH (decimal n @ [NL])) = decimal n @ [NL]" "atoi (decimal n @ [NL]) = Inr (word_of_int n)"
proof -
  have nn: "\<forall>c\<in>set (decimal n). c \<noteq> NL" "\<forall>c\<in>set (decimal n). c \<noteq> NUL" using decimal_plain [of n] by auto
  have "length (decimal n) < 12" using decimal_bound [OF assms] by simp
  then have tk: "take (DATABASE_STRING_LENGTH - 1) (decimal n @ [NL]) = decimal n @ [NL]" by (simp add: DATABASE_STRING_LENGTH_def)
  have tw: "takeWhile (\<lambda>c. c \<noteq> NL) (decimal n @ [NL]) = decimal n" using nn(1) by (simp add: takeWhile_append2)
  have "line_of DATABASE_STRING_LENGTH (decimal n @ [NL]) = decimal n @ [NL]" unfolding line_of_def Let_def tk tw by simp
  then show "cstr (line_of DATABASE_STRING_LENGTH (decimal n @ [NL])) = decimal n @ [NL]"
    using nn(2) by (auto simp: cstr_def takeWhile_eq_all_conv)
  have v: "signed_value (dropWhile is_space (decimal n @ [NL])) = n" using decimal_shape [of "[NL]" n] by simp
  show "atoi (decimal n @ [NL]) = Inr (word_of_int n)" using assms unfolding atoi_def v Let_def int_ok_def by simp
qed

lemma register_ok:
  assumes u: "usable fs es" and d: "db_ok es" and w: "field_ok who" "length who \<le> 100" "\<forall>e\<in>set es. user_name e \<noteq> who"
    and n: "int_ok n" "n \<noteq> 0 \<or> decimal n = ''0''" and r: "\<forall>i. 0 \<le> rnd i" and c: "good_new (crypt pw (make_salt rnd))"
  shows "\<exists>msgs fs'. register_round crypt rnd (NUL # rest) (who @ [NL]) (decimal n @ [NL]) pw pw fs = Inr (True, msgs, fs')
    \<and> usable fs' (es @ [\<lparr>user_name = who, uid = n, password = crypt pw (make_salt rnd), passwordSalt = make_salt rnd,
         attemptsFailed = 0, passwordAge = 0\<rparr>])
    \<and> db_ok (es @ [\<lparr>user_name = who, uid = n, password = crypt pw (make_salt rnd), passwordSalt = make_salt rnd,
         attemptsFailed = 0, passwordAge = 0\<rparr>])"
proof -
  let ?e = "\<lparr>user_name = who, uid = n, password = crypt pw (make_salt rnd), passwordSalt = make_salt rnd,
         attemptsFailed = 0, passwordAge = 0\<rparr>"
  have who: "strip_newline (cstr (line_of DATABASE_STRING_LENGTH (who @ [NL]))) = who"
    using typed_line [OF w(1)] w(2) by (simp add: DATABASE_STRING_LENGTH_def)
  have "getDatabaseEntry who fs = find (\<lambda>e. user_name e = who) es" using usable_get [OF u db_ok_entries [OF d]] .
  also have "\<dots> = None" using w(3) by (simp add: find_None_iff)
  finally have none: "getDatabaseEntry who fs = None" .
  have "cstr (make_salt rnd @ NUL # rest) = make_salt rnd" using make_salt_ok [OF r] by (intro cstr_no_NUL) (simp add: field_ok_def)
  moreover have ro: "roomy ?e" using w n make_salt_ok [OF r] c by (simp add: roomy_def good_new_def)
  ultimately have ap: "appendDatabaseEntry crypt rnd (NUL # rest) who n pw fs = Inr (0, fs\<lparr>passdb := Some (db_text (es @ [?e]))\<rparr>)"
    using append_db [of fs "NUL # rest" who n crypt pw rnd es] u roomy_entry_ok [OF ro] by (simp add: usable_def)
  have s: "sint (word_of_int n :: i32) = n" using wrap32_id [OF n(1)] by (simp add: wrap32_def)
  then have z: "(word_of_int n :: i32) = 0 \<longleftrightarrow> n = 0" by (metis signed_0 word_of_int_0)
  have hd: "\<not> ((word_of_int n :: i32) = 0 \<and> (decimal n @ [NL] = [] \<or> hd (decimal n @ [NL]) \<noteq> CHR ''0''))"
    using n(2) z by auto
  have "register_round crypt rnd (NUL # rest) (who @ [NL]) (decimal n @ [NL]) pw pw fs
      = Inr (True, [''[SUCCESS] User registered correctly!''], fs\<lparr>passdb := Some (db_text (es @ [?e]))\<rparr>)"
    unfolding register_round_def Let_def who uid_line [OF n(1)] using none hd ap s by simp
  then show ?thesis using u d ro by (auto simp: usable_def db_ok_def)
qed

end
