(* ===== verification/Getopt.thy ===== *)
theory Getopt
  imports C_Text
begin

section \<open>Options of the command line\<close>

text \<open>
  The C library's \<open>getopt\<close> and \<open>getopt_long\<close> in their default mode, for options without arguments: the values the
  calls return one after the other, and the operands, which the calls move behind the options. The programs
  in \<open>OS-lab1/code/extensions\<close> loop over the values and then look at the operands.
\<close>

definition option_char :: "string \<Rightarrow> char \<Rightarrow> char" where
  "option_char optstring c = (if c \<in> set optstring then c else CHR ''?'')"

text \<open>A long option is named in full or by an unambiguous beginning; a value given with it is an error.\<close>

definition long_option :: "(string \<times> char) list \<Rightarrow> string \<Rightarrow> char" where
  "long_option longopts a =
     (let nm = takeWhile (\<lambda>c. c \<noteq> CHR ''='') a;
          full = filter (\<lambda>l. fst l = nm) longopts;
          part = filter (\<lambda>l. take (length nm) (fst l) = nm) longopts
      in if nm \<noteq> a then CHR ''?''
         else if full \<noteq> [] then snd (hd full)
         else if length part = 1 then snd (hd part)
         else CHR ''?'')"

definition is_option :: "string \<Rightarrow> bool" where
  "is_option a = (case a of c # _ # _ \<Rightarrow> c = CHR ''-'' | _ \<Rightarrow> False)"

fun getopt_long :: "string \<Rightarrow> (string \<times> char) list option \<Rightarrow> string list \<Rightarrow> char list \<times> string list" where
  "getopt_long optstring longopts [] = ([], [])"
| "getopt_long optstring longopts (a # as) =
     (if a = ''--'' then ([], as)
      else let (cs, ops) = getopt_long optstring longopts as
           in if is_option a
              then (case longopts of
                      Some ls \<Rightarrow> if take 2 a = ''--'' then (long_option ls (drop 2 a) # cs, ops)
                                else (map (option_char optstring) (tl a) @ cs, ops)
                    | None \<Rightarrow> (map (option_char optstring) (tl a) @ cs, ops))
              else (cs, a # ops))"

subsection \<open>Where the operands are\<close>

text \<open>\<open>optind\<close> after the last call, the program's name included.\<close>

definition optind :: "string \<Rightarrow> (string \<times> char) list option \<Rightarrow> string list \<Rightarrow> nat" where
  "optind optstring longopts args = 1 + length args - length (snd (getopt_long optstring longopts args))"

lemma getopt_long_operands: "length (snd (getopt_long os lo args)) \<le> length args"
  by (induction os lo args rule: getopt_long.induct) (auto split: prod.splits option.splits)

lemma getopt_options:
  assumes "\<forall>a\<in>set os. is_option a \<and> take 2 a \<noteq> ''--''" and "\<forall>a\<in>set ops. \<not> is_option a"
  shows "getopt_long s lo (os @ ops) = (map (option_char s) (concat (map tl os)), ops)"
  using assms
proof (induction os)
  case Nil
  have "getopt_long s lo ops = ([], ops)"
    using Nil(2) by (induction ops) (auto simp: is_option_def)
  then show ?case by simp
next
  case (Cons a os)
  then show ?case by (auto split: option.splits)
qed

end
