(* ===== verification/Ls_List.thy ===== *)
theory Ls_List
  imports App_Text Getopt "HOL-Library.List_Lexorder"
begin

section \<open>The directory lister\<close>

text \<open>
  \<open>OS-lab1/code/extensions/list-command/ls.c\<close>. The directories are the argument \<open>opendir\<close>, with the entries \<open>readdir\<close>
  returns in turn; \<open>qsort\<close> is the parameter \<open>qs\<close>, with what is documented of it as a hypothesis. Neither the array of
  options nor the mark of hidden entries is initialised by the code: \<open>args0\<close> and \<open>junk\<close> are what is there.
\<close>

record ls_entry =
  e_name :: string
  e_type :: char
  e_size :: nat
  is_hidden :: int

definition MAX_NAME :: nat where "MAX_NAME = 256"

subsection \<open>Names\<close>

fun strcmp :: "string \<Rightarrow> string \<Rightarrow> int" where
  "strcmp [] [] = 0"
| "strcmp [] (b # bs) = - of_char b"
| "strcmp (a # as) [] = of_char a"
| "strcmp (a # as) (b # bs) = (if a = b then strcmp as bs else of_char a - of_char b)"

definition cmp :: "ls_entry \<Rightarrow> ls_entry \<Rightarrow> int" where
  "cmp p1 p2 =
     (if strcmp (e_name p1) ''.'' = 0 then - 1
      else if strcmp (e_name p2) ''.'' = 0 then 1
      else if strcmp (e_name p1) ''..'' = 0 then - 1
      else if strcmp (e_name p2) ''..'' = 0 then 1
      else strcmp (e_name p1) (e_name p2))"

text \<open>The order \<open>cmp\<close> means, as an order on names: \<open>.\<close>, \<open>..\<close>, then by bytes.\<close>

datatype fname = FName string

fun fname_string :: "fname \<Rightarrow> string" where "fname_string (FName s) = s"

definition rank :: "string \<Rightarrow> nat" where
  "rank s = (if s = ''.'' then 0 else if s = ''..'' then 1 else 2)"

definition fname_key :: "fname \<Rightarrow> nat list" where
  "fname_key n = rank (fname_string n) # map of_char (fname_string n)"

lemma fname_key_inj: "fname_key a = fname_key b \<Longrightarrow> a = b"
proof -
  assume "fname_key a = fname_key b"
  then have "map of_char (fname_string a) = (map of_char (fname_string b) :: nat list)" by (simp add: fname_key_def)
  moreover have "inj (of_char :: char \<Rightarrow> nat)" by (simp add: inj_def)
  ultimately have "fname_string a = fname_string b" by (metis inj_map_eq_map)
  then show ?thesis by (cases a; cases b) simp
qed

instantiation fname :: linorder
begin

definition less_eq_fname :: "fname \<Rightarrow> fname \<Rightarrow> bool" where
  "less_eq_fname a b \<longleftrightarrow> fname_key a \<le> fname_key b"

definition less_fname :: "fname \<Rightarrow> fname \<Rightarrow> bool" where
  "less_fname a b \<longleftrightarrow> fname_key a < fname_key b"

instance
  by standard (auto simp: less_eq_fname_def less_fname_def dest: fname_key_inj)

end


subsection \<open>Reading and printing\<close>

definition check_hidden :: "ls_entry \<Rightarrow> ls_entry" where
  "check_hidden e = (case e_name e of [] \<Rightarrow> e | c # _ \<Rightarrow> if c = CHR ''.'' then e\<lparr>is_hidden := 1\<rparr> else e)"

definition additional_dir_type_process :: "nat \<Rightarrow> char" where
  "additional_dir_type_process c = (if c = 4 then CHR ''d'' else if c = 10 then CHR ''l'' else CHR ''-'')"

fun read_entries :: "(nat \<Rightarrow> int) \<Rightarrow> nat \<Rightarrow> (string \<times> nat \<times> nat) list \<Rightarrow> ls_entry list res" where
  "read_entries junk i [] = Inr []"
| "read_entries junk i ((d_name, d_type, d_reclen) # ds) =
     (if MAX_NAME + 1 \<le> length d_name then Inl OutOfBounds
      else bnd (read_entries junk (i + 1) ds) (\<lambda>es.
        Inr (check_hidden \<lparr>e_name = d_name, e_type = additional_dir_type_process d_type, e_size = d_reclen,
                           is_hidden = junk i\<rparr> # es)))"

definition TAB :: char where "TAB = CHR 0x09"

definition long_line :: "ls_entry \<Rightarrow> string" where
  "long_line e = [e_type e, TAB] @ e_name e @ [TAB] @ decimal (int (e_size e)) @ '' bytes'' @ [NL]"

definition shown :: "(nat \<Rightarrow> int) \<Rightarrow> ls_entry \<Rightarrow> bool" where
  "shown arguments e \<longleftrightarrow> arguments 3 = 1 \<or> is_hidden e \<noteq> 1"

text \<open>\<open>list\<close>: the exit status and what is printed. \<open>opendir\<close> returns \<open>None\<close> when the directory cannot be opened.\<close>

type_synonym dirs = "string \<Rightarrow> (string \<times> nat \<times> nat) list option"

definition list_dir ::
    "((ls_entry \<Rightarrow> ls_entry \<Rightarrow> int) \<Rightarrow> ls_entry list \<Rightarrow> ls_entry list) \<Rightarrow> (nat \<Rightarrow> int)
      \<Rightarrow> dirs \<Rightarrow> string option \<Rightarrow> (nat \<Rightarrow> int) \<Rightarrow> (int \<times> string) res" where
  "list_dir qs junk opendir directory arguments =
     (case opendir (case directory of Some d \<Rightarrow> d | None \<Rightarrow> ''.'') of
        None \<Rightarrow> Inr (1, [])
      | Some ds \<Rightarrow> bnd (read_entries junk 0 ds) (\<lambda>es.
          let es1 = (if arguments 4 = 1 then qs cmp es else es);
              vis = filter (shown arguments) es1
          in Inr (0, if arguments 2 = 1 then concat (map long_line vis)
                     else concat (map (\<lambda>e. e_name e @ '' '') vis) @ [NL])))"

datatype options = Arguments "nat \<Rightarrow> int" | Leave int string

definition help_text :: string where
  "help_text = ''This is the help message for this program. This program'' @ [NL] @
     ''has somewhat similar feature as the list-ls UNIX command'' @ [NL] @
     ''Supported operator are: -h, -s, -l and -a.'' @ [NL] @
     ''-h --help:  print the help message for this program.'' @ [NL] @
     ''-l --long:  print each directory in one line with details.'' @ [NL] @
     ''-a --all:   print every directory, even they are hidden.'' @ [NL] @
     ''-s --sort:  sort the results in the alphabetical order.'' @ [NL]"

fun get_options :: "char list \<Rightarrow> (nat \<Rightarrow> int) \<Rightarrow> options" where
  "get_options [] arguments = Arguments arguments"
| "get_options (c # cs) arguments =
     (if c = CHR ''h'' then Leave 0 help_text
      else if c = CHR ''l'' then get_options cs (arguments(2 := 1))
      else if c = CHR ''a'' then get_options cs (arguments(3 := 1))
      else if c = CHR ''s'' then get_options cs (arguments(4 := 1))
      else if c = CHR ''?'' then Leave 1 (''Use -h or --help to see the help message.'' @ [NL])
      else Leave 1 [])"

definition ls_longopts :: "(string \<times> char) list" where
  "ls_longopts = [(''help'', CHR ''h''), (''long'', CHR ''l''), (''all'', CHR ''a''), (''short'', CHR ''s'')]"

definition ls_main ::
    "((ls_entry \<Rightarrow> ls_entry \<Rightarrow> int) \<Rightarrow> ls_entry list \<Rightarrow> ls_entry list) \<Rightarrow> (nat \<Rightarrow> int) \<Rightarrow> (nat \<Rightarrow> int)
      \<Rightarrow> dirs \<Rightarrow> string list \<Rightarrow> (int \<times> string) res" where
  "ls_main qs args0 junk opendir args =
     (let (opts, rest) = getopt_long ''hlas'' (Some ls_longopts) args
      in case get_options opts args0 of
           Leave n out \<Rightarrow> Inr (n, out)
         | Arguments arguments \<Rightarrow>
             list_dir qs junk opendir (case rest of [] \<Rightarrow> None | d # _ \<Rightarrow> Some d) arguments)"

subsection \<open>The order of the listing\<close>










fun insert_entry :: "(ls_entry \<Rightarrow> ls_entry \<Rightarrow> int) \<Rightarrow> ls_entry \<Rightarrow> ls_entry list \<Rightarrow> ls_entry list" where
  "insert_entry c x [] = [x]"
| "insert_entry c x (y # ys) = (if c x y \<le> 0 then x # y # ys else y # insert_entry c x ys)"


lemma insert_entry_mset: "mset (insert_entry c x ys) = add_mset x (mset ys)"
  by (induction ys) auto

lemma insert_entry_set [simp]: "set (insert_entry c x ys) = insert x (set ys)"
  using insert_entry_mset [of c x ys] by (metis set_mset_add_mset_insert set_mset_mset)












text \<open>The option the help text calls \<open>--sort\<close> is unknown.\<close>

lemma ls_sort_unknown:
  "ls_main qs args0 junk opendir [''--sort''] = Inr (1, ''Use -h or --help to see the help message.'' @ [NL])"
  by (simp add: ls_main_def is_option_def long_option_def ls_longopts_def)

end
