(* ===== verification/Ext_Tools.thy ===== *)
theory Ext_Tools
  imports App_Text Getopt
begin

section \<open>The smaller command line programs\<close>

text \<open>
  \<open>OS-lab1/code/extensions/argument-parse/parse.c\<close>, \<open>date-time/date-time.c\<close> and \<open>who/who.c\<close>, and the resolver
  \<open>computer-networking/lab-1/main.c\<close>. A program yields its exit status and what it prints on the standard output.
  What the system says is an argument: the broken-down time and the text \<open>strftime\<close> leaves, the records \<open>getutent\<close>
  returns, the host's name and the results of \<open>getaddrinfo\<close>.
\<close>

definition line :: "string \<Rightarrow> string" where "line s = s @ [NL]"

definition see_help :: string where "see_help = line ''Use -h or --help to see the help message.''"

subsection \<open>The option parser\<close>

text \<open>\<open>Parsed opt_result param_position\<close>, or the program is left.\<close>

datatype parsed_args = Parsed int int | Left_with int string

definition usage :: "string \<Rightarrow> string" where
  "usage argv0 =
     line (''This command is used to list information about the directory, default is listing the current '' @
           ''directory or the directory you passed to this command.'') @
     line (''Usage: '' @ argv0 @ '' [-l] [-a] [-h]'') @
     line ''  -l           Use a long listing format'' @
     line ''  -a           Include directory entries whose names begin with a dot (.) - or a hidden one.'' @
     line ''  -h           Display this help message''"

fun opt_loop :: "string \<Rightarrow> char list \<Rightarrow> int \<Rightarrow> int \<Rightarrow> parsed_args" where
  "opt_loop argv0 [] opt_result flag = Parsed opt_result (1 + flag)"
| "opt_loop argv0 (c # cs) opt_result flag =
     (if c = CHR ''h'' then Left_with 0 (usage argv0)
      else if c = CHR ''l'' then opt_loop argv0 cs (opt_result + 1) 1
      else if c = CHR ''a'' then opt_loop argv0 cs (opt_result + 2) 1
      else if c = CHR ''?'' then Left_with 1 (line ''Use -h to see the help message.'')
      else Left_with 1 [])"

definition parse_arguments :: "string \<Rightarrow> string list \<Rightarrow> parsed_args" where
  "parse_arguments argv0 args = opt_loop argv0 (fst (getopt_long ''lah'' None args)) 0 0"

subsection \<open>Date and time\<close>

record tm =
  tm_hour :: int
  tm_min :: int
  tm_sec :: int

definition time_help :: "string \<Rightarrow> string" where
  "time_help argv0 =
     line (''This is the help message for this program '' @ argv0) @
     line ''Use -l or --long to display the date and time in long format.'' @
     line ''Use -h or --help to display this help message.''"

definition time_longopts :: "(string \<times> char) list" where
  "time_longopts = [(''help'', CHR ''h''), (''long'', CHR ''l'')]"

text \<open>The first option decides. \<open>long_time\<close> is what \<open>strftime\<close> writes, nothing when it fails; then the assertion stops.\<close>

definition date_time :: "string \<Rightarrow> string list \<Rightarrow> tm \<Rightarrow> string \<Rightarrow> (int \<times> string) res" where
  "date_time argv0 args t long_time =
     (case fst (getopt_long ''lh'' (Some time_longopts) args) of
        [] \<Rightarrow> Inr (0, line (''Current local time : '' @ decimal (tm_hour t) @ '':'' @ decimal (tm_min t) @ '':'' @
                          decimal (tm_sec t)))
      | c # _ \<Rightarrow>
          if c = CHR ''h'' then Inr (0, time_help argv0)
          else if c = CHR ''l''
            then (if long_time = [] then Inl (Panic ''ret'') else Inr (0, line (''Current date time: '' @ long_time)))
          else if c = CHR ''?'' then Inr (1, see_help)
          else Inr (1, []))"

subsection \<open>Who is logged in\<close>

text \<open>
  The fields lie one behind the other in the record and need not contain a zero: a full name is printed
  together with the host that follows it, a full line with everything that follows.
\<close>

record utmp =
  ut_type :: int
  ut_line :: string
  ut_id :: string
  ut_user :: string
  ut_host :: string
  ut_rest :: string
  ut_sec :: int

definition USER_PROCESS :: int where "USER_PROCESS = 7"

definition user_text :: "utmp \<Rightarrow> string" where "user_text u = cstr (ut_user u @ ut_host u @ ut_rest u)"
definition line_text :: "utmp \<Rightarrow> string" where
  "line_text u = cstr (ut_line u @ ut_id u @ ut_user u @ ut_host u @ ut_rest u)"
definition host_text :: "utmp \<Rightarrow> string" where "host_text u = cstr (ut_host u @ ut_rest u)"

definition TAB :: char where "TAB = CHR 0x09"

definition who_record :: "(int \<Rightarrow> string) \<Rightarrow> bool \<Rightarrow> utmp \<Rightarrow> string" where
  "who_record minute_text long_opt u =
     (if ut_type u = USER_PROCESS
      then user_text u @
           (if long_opt
            then [TAB] @ line_text u @ [TAB] @ minute_text (ut_sec u) @
                 (if 0 < length (host_text u) then [TAB] @ ''('' @ host_text u @ '')'' else [])
            else []) @ [NL]
      else [])"

definition who_help :: "string \<Rightarrow> string" where
  "who_help argv0 =
     line (''This is the help message for '' @ argv0 @ '' prgram.'') @
     line ''This program will print the current logged in users.'' @
     line ''Supported operator are: -h, -l.'' @
     line ''-h --help:  print the help message for this program.'' @
     line ''-l --long:  print each user in one line with details (login time and tty).''"

fun who_options :: "string \<Rightarrow> char list \<Rightarrow> bool \<Rightarrow> (int \<times> string) + bool" where
  "who_options argv0 [] long_opt = Inr long_opt"
| "who_options argv0 (c # cs) long_opt =
     (if c = CHR ''h'' then Inl (0, who_help argv0)
      else if c = CHR ''l'' then who_options argv0 cs True
      else if c = CHR ''?'' then Inl (1, see_help)
      else Inl (1, []))"

definition who :: "(int \<Rightarrow> string) \<Rightarrow> string \<Rightarrow> string list \<Rightarrow> utmp list \<Rightarrow> int \<times> string" where
  "who minute_text argv0 args us =
     (case who_options argv0 (fst (getopt_long ''hl'' (Some time_longopts) args)) False of
        Inl out \<Rightarrow> out
      | Inr long_opt \<Rightarrow> (0, concat (map (who_record minute_text long_opt) us)))"

subsection \<open>The resolver\<close>

datatype sockaddr = Inet "8 word list" | Inet6 "8 word list" | Other_family int

record addrinfo_hints =
  ai_flags :: int
  ai_family :: int
  ai_socktype :: int
  ai_protocol :: int

text \<open>\<open>AF_INET\<close> is stored as a flag; the family stays unspecified.\<close>

definition hints :: addrinfo_hints where
  "hints = \<lparr>ai_flags = 2, ai_family = 0, ai_socktype = 1, ai_protocol = 6\<rparr>"

definition addr_line :: "(sockaddr \<Rightarrow> string) \<Rightarrow> sockaddr \<Rightarrow> string" where
  "addr_line ntop a =
     (case a of Inet _ \<Rightarrow> line (''IPv4: '' @ ntop a) | Inet6 _ \<Rightarrow> line (''IPv6: '' @ ntop a) | Other_family _ \<Rightarrow> [])"

definition resolve ::
    "(string \<Rightarrow> addrinfo_hints \<Rightarrow> string + sockaddr list) \<Rightarrow> (sockaddr \<Rightarrow> string) \<Rightarrow> string \<Rightarrow> string list
      \<Rightarrow> int \<times> string" where
  "resolve getaddrinfo ntop hostname args =
     (case args of
        [] \<Rightarrow> (1, line ''Need a hostname to resolve, error!'')
      | h # _ \<Rightarrow>
          let start = line (''Resolving '' @ [CHR 0x27] @ h @ [CHR 0x27] @ '' from '' @ [CHR 0x27] @ hostname @ [CHR 0x27] @ '':'')
          in (case getaddrinfo h hints of
                Inl msg \<Rightarrow> (1, start @ line (''The program got an error from getaddrinfo() function: '' @ msg))
              | Inr addrs \<Rightarrow> (0, start @ concat (map (addr_line ntop) addrs))))"

subsection \<open>Fetch and increment\<close>

text \<open>
  \<open>OS sandbox/test_and_set.c\<close>: \<open>*t++\<close> increments the pointer, not what it points at. The value returned, and the
  variable afterwards.
\<close>

definition fai :: "int \<Rightarrow> int \<times> int" where "fai v = (v, v)"

fun take_tickets :: "nat \<Rightarrow> nat \<Rightarrow> int \<Rightarrow> int list \<Rightarrow> string \<Rightarrow> int list \<times> int \<times> string" where
  "take_tickets i 0 k ticket out = (ticket, k, out)"
| "take_tickets i (Suc n) k ticket out =
     (let (r, k') = fai k
      in take_tickets (i + 1) n k' (ticket[i := r])
           (out @ line (''Value of ticket['' @ decimal (int i) @ '']: '' @ decimal k')))"

fun serve :: "nat \<Rightarrow> nat \<Rightarrow> int \<Rightarrow> int list \<Rightarrow> string \<Rightarrow> int \<times> string" where
  "serve i 0 t ticket out = (t, out)"
| "serve i (Suc n) t ticket out =
     (if ticket ! i = t
      then serve (i + 1) n (snd (fai t)) ticket (out @ line (''Cirtical selection for '' @ decimal (int i) @ ''.''))
      else serve (i + 1) n t ticket out)"

definition test_and_set_main :: "int list \<times> string" where
  "test_and_set_main =
     (let (ticket, k, out) = take_tickets 0 3 1 [0, 0, 0] []
      in (ticket, snd (serve 0 3 1 ticket out)))"

text \<open>All three hold the same ticket.\<close>

lemma test_and_set_tickets: "fst test_and_set_main = [1, 1, 1]"
  by (simp add: test_and_set_main_def numeral_3_eq_3 fai_def split: prod.splits)

subsection \<open>What the option parser returns\<close>

lemma opt_loop_sum:
  assumes "set cs \<subseteq> {CHR ''l'', CHR ''a''}"
  shows "opt_loop argv0 cs r f =
    Parsed (r + int (count_list cs CHR ''l'') + 2 * int (count_list cs CHR ''a'')) (1 + (if cs = [] then f else 1))"
  using assms
proof (induction cs arbitrary: r f)
  case (Cons c cs)
  then have "c = CHR ''l'' \<or> c = CHR ''a''" by auto
  then show ?case using Cons by auto
qed simp

text \<open>
  For options l and a in any grouping followed by operands, the result is the number of l
  plus twice the number of a, and the position returned is that of the first operand exactly when
  there is at most one argument with options.
\<close>

lemma option_position:
  assumes "\<forall>a\<in>set os. is_option a \<and> take 2 a \<noteq> ''--''" and "set (concat (map tl os)) \<subseteq> {CHR ''l'', CHR ''a''}"
    and "\<forall>a\<in>set ops. \<not> is_option a"
  shows "\<exists>r p. parse_arguments argv0 (os @ ops) = Parsed r p
    \<and> r = int (count_list (concat (map tl os)) CHR ''l'') + 2 * int (count_list (concat (map tl os)) CHR ''a'')
    \<and> (p = int (optind ''lah'' None (os @ ops)) \<longleftrightarrow> length os \<le> 1)"
proof -
  have "map (option_char ''lah'') (concat (map tl os)) = concat (map tl os)"
    using assms(2) by (intro map_idI) (auto simp: option_char_def)
  then have g: "getopt_long ''lah'' None (os @ ops) = (concat (map tl os), ops)"
    using getopt_options [OF assms(1,3)] by simp
  have "concat (map tl os) = [] \<longleftrightarrow> os = []"
    using assms(1) by (cases os) (auto simp: is_option_def split: list.splits)
  then have "parse_arguments argv0 (os @ ops) =
      Parsed (int (count_list (concat (map tl os)) CHR ''l'') + 2 * int (count_list (concat (map tl os)) CHR ''a''))
        (1 + (if os = [] then 0 else 1))"
    using opt_loop_sum [OF assms(2), of argv0 0 0] unfolding parse_arguments_def g by simp
  moreover have "optind ''lah'' None (os @ ops) = 1 + length os" unfolding optind_def g by simp
  ultimately show ?thesis by (cases os) auto
qed

lemma option_position_witness:
  "\<exists>r p. parse_arguments ''ls'' [''-l'', ''-a'', ''dir''] = Parsed r p \<and> r = 3 \<and> p \<noteq> int (optind ''lah'' None [''-l'', ''-a'', ''dir''])"
  using option_position [of "[''-l'', ''-a'']" "[''dir'']" "''ls''"] by (auto simp: is_option_def)

text \<open>The sum does not tell the options apart.\<close>

lemma option_sum_ambiguous: "parse_arguments argv0 [''-ll''] = parse_arguments argv0 [''-a'']"
  by (simp add: parse_arguments_def is_option_def option_char_def)

end
