(* ===== verification/Ext_Process.thy ===== *)
theory Ext_Process
  imports App_Text
begin

section \<open>Small programs that start processes\<close>

text \<open>
  \<open>OS-lab1/code/extensions/background-process/main.c\<close> and \<open>OS/sandbox/pipe_test.c\<close>. What \<open>fork\<close> returns is an argument: the same
  function is the program in the parent and in the child.
\<close>

subsection \<open>A program in the background\<close>

text \<open>
  \<open>bg_tty\<close> is what reaches the terminal through the standard output and the standard error, \<open>bg_null\<close> says that both lead to the null device,
  \<open>bg_calls\<close> is the log of the calls that change the process.
\<close>

datatype bg_call = Setsid | Chdir_to string | Reopen string string

record background =
  bg_tty :: "string list"
  bg_null :: bool
  bg_calls :: "bg_call list"

datatype bg_end = Exits int | Executes "string list"

definition bg_say :: "string \<Rightarrow> background \<Rightarrow> background" where
  "bg_say t b = (if bg_null b then b else b\<lparr>bg_tty := bg_tty b @ [t]\<rparr>)"

definition bg_do :: "bg_call \<Rightarrow> background \<Rightarrow> background" where
  "bg_do c b = b\<lparr>bg_calls := bg_calls b @ [c]\<rparr>"

definition bg_redirect :: "background \<Rightarrow> background" where
  "bg_redirect b =
     (bg_do (Reopen ''/dev/null'' ''w'') (bg_do (Reopen ''/dev/null'' ''w'') (bg_do (Reopen ''/dev/null'' ''r'') b)))\<lparr>bg_null := True\<rparr>"

definition bg_main :: "int \<Rightarrow> bool \<Rightarrow> (string list \<Rightarrow> bool) \<Rightarrow> background \<Rightarrow> bg_end \<times> background" where
  "bg_main pid setsid_ok runs b =
     (if pid < 0 then (Exits 1, bg_say ''fork failed'' b)
      else if 0 < pid then (Exits 0, bg_say (''Parent is still running, child PID = '' @ decimal pid) b)
      else let b1 = bg_do Setsid b
           in if \<not> setsid_ok then (Exits 1, bg_say ''setsid failed'' b1)
              else let b2 = bg_redirect (bg_do (Chdir_to ''/'') b1)
                   in if runs [''/bin/sleep'', ''60''] then (Executes [''/bin/sleep'', ''60''], b2)
                      else (Exits 1, bg_say ''exec failed''
                                       (bg_say (''This line will not be printed if exec is successful.'' @ [NL]) b2)))"

text \<open>The child executes the program detached and cut off from the terminal, or nobody is told why not.\<close>

lemma bg_child:
  assumes "bg_main 0 True runs b = (en, b')"
  shows "bg_tty b' = bg_tty b" "bg_null b'" "Setsid \<in> set (bg_calls b')"
    "en = (if runs [''/bin/sleep'', ''60''] then Executes [''/bin/sleep'', ''60''] else Exits 1)"
  using assms by (auto simp: bg_main_def Let_def bg_say_def bg_redirect_def bg_do_def split: if_splits)

lemma bg_parent_returns: "0 < pid \<Longrightarrow> \<exists>b'. bg_main pid ok runs b = (Exits 0, b') \<and> bg_calls b' = bg_calls b"
  by (simp add: bg_main_def bg_say_def)

subsection \<open>A pipe between parent and child\<close>

text \<open>
  Parent and child after a successful \<open>fork\<close>. A read takes what is in the pipe, at most \<open>BUFFER_SIZE\<close> bytes, waits while it is
  empty and somebody can still write, and gives nothing when nobody can; a write that nobody can read ends the process. The
  program counters count the statements; \<open>pp_buf\<close> is \<open>read_msg\<close>, uninitialised at first.
\<close>

definition BUFFER_SIZE :: nat where "BUFFER_SIZE = 25"

definition write_msg :: string where "write_msg = ''Greetings'' @ replicate 16 NUL"

record pipe_state =
  pp_parent :: nat
  pp_child :: nat
  pp_data :: string
  pp_write :: "bool \<times> bool"
  pp_read :: "bool \<times> bool"
  pp_buf :: string
  pp_out :: "string res option"

definition pipe_start :: "string \<Rightarrow> pipe_state" where
  "pipe_start stk = \<lparr>pp_parent = 0, pp_child = 0, pp_data = [], pp_write = (True, True), pp_read = (True, True), pp_buf = stk, pp_out = None\<rparr>"

text \<open>Before that: the status and the message when \<open>pipe\<close> or \<open>fork\<close> fails.\<close>

definition pipe_main :: "bool \<Rightarrow> int \<Rightarrow> string \<Rightarrow> (int \<times> string) + pipe_state" where
  "pipe_main pipe_ok pid stk =
     (if \<not> pipe_ok then Inl (1, ''Pipe failed'') else if pid < 0 then Inl (1, ''Fork failed'') else Inr (pipe_start stk))"

definition parent_step :: "pipe_state \<Rightarrow> pipe_state option" where
  "parent_step s =
     (if pp_parent s = 0 then Some (s\<lparr>pp_read := (False, snd (pp_read s)), pp_parent := 1\<rparr>)
      else if pp_parent s = 1
      then if pp_read s = (False, False) then Some (s\<lparr>pp_write := (False, snd (pp_write s)), pp_parent := 3\<rparr>)
           else Some (s\<lparr>pp_data := pp_data s @ take (length (cstr write_msg) + 1) write_msg, pp_parent := 2\<rparr>)
      else if pp_parent s = 2 then Some (s\<lparr>pp_write := (False, snd (pp_write s)), pp_parent := 3\<rparr>)
      else None)"

definition child_step :: "pipe_state \<Rightarrow> pipe_state option" where
  "child_step s =
     (if pp_child s = 0 then Some (s\<lparr>pp_write := (fst (pp_write s), False), pp_child := 1\<rparr>)
      else if pp_child s = 1
      then if pp_data s = [] \<and> pp_write s \<noteq> (False, False) then None
           else let got = take BUFFER_SIZE (pp_data s)
                in Some (s\<lparr>pp_buf := got @ drop (length got) (pp_buf s), pp_data := drop BUFFER_SIZE (pp_data s), pp_child := 2\<rparr>)
      else if pp_child s = 2
      then Some (s\<lparr>pp_out := Some (if NUL \<in> set (pp_buf s) then Inr (''Child read: '' @ cstr (pp_buf s) @ [NL]) else Inl OutOfBounds),
                   pp_child := 3\<rparr>)
      else if pp_child s = 3 then Some (s\<lparr>pp_read := (fst (pp_read s), False), pp_child := 4\<rparr>)
      else None)"

inductive pipe_reaches :: "string \<Rightarrow> pipe_state \<Rightarrow> bool" for stk where
  forked: "pipe_reaches stk (pipe_start stk)"
| parent: "pipe_reaches stk s \<Longrightarrow> parent_step s = Some s' \<Longrightarrow> pipe_reaches stk s'"
| child: "pipe_reaches stk s \<Longrightarrow> child_step s = Some s' \<Longrightarrow> pipe_reaches stk s'"

definition greeting :: string where "greeting = ''Greetings'' @ [NUL]"

lemma greeting_sent: "take (length (cstr write_msg) + 1) write_msg = greeting" "length greeting = 10" "NUL \<in> set greeting"
  "cstr (greeting @ r) = ''Greetings''"
  by (simp_all add: write_msg_def greeting_def cstr_def)

definition pipe_inv :: "pipe_state \<Rightarrow> bool" where
  "pipe_inv s \<longleftrightarrow> pp_parent s \<le> 3 \<and> pp_child s \<le> 4
     \<and> pp_data s = (if 2 \<le> pp_parent s \<and> pp_child s \<le> 1 then greeting else [])
     \<and> (2 \<le> pp_child s \<longrightarrow> 2 \<le> pp_parent s \<and> take 10 (pp_buf s) = greeting)
     \<and> pp_write s = (pp_parent s \<le> 2, pp_child s = 0)
     \<and> pp_read s = (pp_parent s = 0, pp_child s \<le> 3)
     \<and> pp_out s = (if 3 \<le> pp_child s then Some (Inr (''Child read: Greetings'' @ [NL])) else None)"

lemma buf_greets:
  assumes "take 10 b = greeting"
  shows "NUL \<in> set b" "cstr b = ''Greetings''"
proof -
  have "b = greeting @ drop 10 b" using assms by (metis append_take_drop_id)
  then show "NUL \<in> set b" "cstr b = ''Greetings''" using greeting_sent(3,4) by (metis UnI1 set_append, metis)
qed

lemma parent_step_inv: "pipe_inv s \<Longrightarrow> parent_step s = Some s' \<Longrightarrow> pipe_inv s'"
  using greeting_sent(1) by (auto simp: parent_step_def pipe_inv_def split: if_splits)

lemma child_step_inv:
  assumes "pipe_inv s" and "child_step s = Some s'"
  shows "pipe_inv s'"
proof -
  have "pp_child s \<in> {0, 1, 2, 3}" using assms by (auto simp: child_step_def pipe_inv_def split: if_splits)
  then consider "pp_child s = 0" | "pp_child s = 1" | "pp_child s = 2" | "pp_child s = 3" by auto
  then show ?thesis
  proof cases
    case 2
    have d: "pp_data s = greeting" "2 \<le> pp_parent s"
      using assms 2 greeting_sent(2) by (auto simp: child_step_def pipe_inv_def split: if_splits)
    then have "s' = s\<lparr>pp_buf := greeting @ drop 10 (pp_buf s), pp_data := [], pp_child := 2\<rparr>"
      using assms(2) 2 greeting_sent(2) by (auto simp: child_step_def BUFFER_SIZE_def Let_def split: if_splits)
    then show ?thesis using assms(1) 2 d greeting_sent(2) by (simp add: pipe_inv_def)
  next
    case 3
    then have "take 10 (pp_buf s) = greeting" using assms(1) by (simp add: pipe_inv_def)
    then show ?thesis using assms 3 buf_greets [of "pp_buf s"] by (auto simp: child_step_def pipe_inv_def)
  qed (use assms in \<open>auto simp: child_step_def pipe_inv_def\<close>)
qed

text \<open>
  In every interleaving the child prints the message of the parent, whatever its buffer held; as long as one of them has not
  finished one can move, and every move counts.
\<close>

lemma pipe_reaches_inv: "pipe_reaches stk s \<Longrightarrow> pipe_inv s"
proof (induction rule: pipe_reaches.induct)
  case forked
  then show ?case by (simp add: pipe_start_def pipe_inv_def)
qed (use parent_step_inv child_step_inv in blast)+

lemma pipe_greets: "pipe_reaches stk s \<Longrightarrow> pp_out s \<in> {None, Some (Inr (''Child read: Greetings'' @ [NL]))}"
  using pipe_reaches_inv [of stk s] by (simp add: pipe_inv_def)

lemma pipe_moves:
  assumes "pipe_reaches stk s" and "parent_step s = None" and "child_step s = None"
  shows "pp_parent s = 3" "pp_child s = 4" "pp_out s = Some (Inr (''Child read: Greetings'' @ [NL]))"
proof -
  have inv: "pipe_inv s" using pipe_reaches_inv [OF assms(1)] .
  then show p: "pp_parent s = 3" using assms(2) by (auto simp: parent_step_def pipe_inv_def split: if_splits)
  then have "pp_child s \<noteq> 1" using inv assms(3) greeting_sent(2) by (auto simp: child_step_def pipe_inv_def split: if_splits)
  then show "pp_child s = 4" "pp_out s = Some (Inr (''Child read: Greetings'' @ [NL]))"
    using inv assms(3) by (auto simp: child_step_def pipe_inv_def split: if_splits)
qed

lemma pipe_steps_count:
  "parent_step s = Some s' \<Longrightarrow> pp_parent s < pp_parent s' \<and> pp_child s' = pp_child s"
  "child_step s = Some s' \<Longrightarrow> pp_child s < pp_child s' \<and> pp_parent s' = pp_parent s"
  by (auto simp: parent_step_def child_step_def Let_def split: if_splits)

end
