(* ===== verification/App_Line.thy ===== *)
theory App_Line
  imports App_Lab2
begin

section \<open>The number application on its serial line\<close>

text \<open>
  \<open>objects.c\<close>, \<open>startApp\<close> and the two handlers of the first application together with the serial driver and the port. The
  state is what the object, the driver and the port hold, the messages the driver has sent that the application has not
  handled yet, and the bytes that have left on the line. The kernel is there through its contract: messages are handled
  in the order they were sent, one at a time. An event is an interrupt of the port, with the byte that has arrived, if one has,
  and whether the transmitter is empty, or the handling of the oldest message. Interrupts the hardware would not
  request because they are disabled are events, too.
\<close>

subsection \<open>Calls of the driver\<close>

fun do_call :: "call \<Rightarrow> Serial \<times> USART_TypeDef \<Rightarrow> (Serial \<times> USART_TypeDef) res" where
  "do_call (SCI_WRITE p) (s, u) = sci_write (map of_char p) s u"
| "do_call (SCI_WRITECHAR c) (s, u) = sci_writechar c s u"

fun do_calls :: "call list \<Rightarrow> Serial \<times> USART_TypeDef \<Rightarrow> (Serial \<times> USART_TypeDef) res" where
  "do_calls [] x = Inr x"
| "do_calls (c # cs) x = bnd (do_call c x) (do_calls cs)"

fun call_bytes :: "call \<Rightarrow> u8 list" where
  "call_bytes (SCI_WRITE p) = crlf (map of_char p)"
| "call_bytes (SCI_WRITECHAR c) = [ucast c]"

definition bytes_of :: "call list \<Rightarrow> u8 list" where "bytes_of cs = concat (map call_bytes cs)"

lemma bytes_of_simps [simp]: "bytes_of [] = []" "bytes_of (c # cs) = call_bytes c @ bytes_of cs"
  by (simp_all add: bytes_of_def)

text \<open>The port asks for an interrupt whenever bytes are waiting.\<close>

definition sends_on :: "Serial \<times> USART_TypeDef \<Rightarrow> bool" where
  "sends_on x \<longleftrightarrow> sci_inv (fst x) \<and> (ring_abs (fst x) \<noteq> [] \<longrightarrow> txe_enabled (snd x))"

lemma txe_frame:
  "us_RDR (USART_ITConfig USART_IT_TXE on u) = us_RDR u"
  by (simp add: USART_ITConfig_def USART_IT_TXE_def it_reg_def)

lemma outc_frame: "outc c s = Inr s' \<Longrightarrow> sci_obj s' = sci_obj s \<and> sci_meth s' = sci_meth s"
  by (auto simp: outc_def split: if_splits)

lemma write_loop_frame: "write_loop p s = Inr s' \<Longrightarrow> sci_obj s' = sci_obj s \<and> sci_meth s' = sci_meth s"
proof (induction p arbitrary: s)
  case (Cons c p)
  then obtain s1 s2 where "(if c = 10 then outc 13 s else Inr s) = Inr s1" "outc c s1 = Inr s2" "write_loop p s2 = Inr s'" by auto
  then show ?case using Cons.IH [of s2] outc_frame by (metis sum.inject(2))
qed simp

lemma do_call_bytes:
  assumes "sends_on (s, u)"
  shows "\<exists>s' u'. do_call c (s, u) = Inr (s', u') \<and> sends_on (s', u')
    \<and> ring_abs s' = take SCI_BUFSIZE (ring_abs s @ call_bytes c) \<and> sci_obj s' = sci_obj s \<and> sci_meth s' = sci_meth s"
proof -
  have inv: "sci_inv s" using assms by (simp add: sends_on_def)
  let ?u = "if r_count s = 0 then USART_ITConfig USART_IT_TXE True u else u"
  have on: "txe_enabled ?u" using assms by (auto simp: sends_on_def txe_config)
  show ?thesis
  proof (cases c)
    case (SCI_WRITE p)
    obtain s' where s': "write_loop (map of_char p) s = Inr s'" "sci_inv s'" "ring_abs s' = take SCI_BUFSIZE (ring_abs s @ crlf (map of_char p))"
      using write_loop_appends [OF inv] by blast
    then show ?thesis using on write_loop_frame [OF s'(1)] by (simp add: SCI_WRITE sci_write_def Let_def sends_on_def)
  next
    case (SCI_WRITECHAR d)
    obtain s' where s': "outc (ucast d) s = Inr s'" "sci_inv s'" "ring_abs s' = take SCI_BUFSIZE (ring_abs s @ [ucast d])"
      using scif.put_total [OF inv] by blast
    then show ?thesis using on outc_frame [OF s'(1)] by (simp add: SCI_WRITECHAR sci_writechar_def Let_def sends_on_def)
  qed
qed

lemma do_calls_bytes:
  "sends_on (s, u) \<Longrightarrow> \<exists>s' u'. do_calls cs (s, u) = Inr (s', u') \<and> sends_on (s', u')
    \<and> ring_abs s' = take SCI_BUFSIZE (ring_abs s @ bytes_of cs) \<and> sci_obj s' = sci_obj s \<and> sci_meth s' = sci_meth s"
proof (induction cs arbitrary: s u)
  case Nil
  then show ?case by (simp add: sends_on_def sci_inv_def ring_rep_def)
next
  case (Cons c cs)
  obtain s1 u1 where 1: "do_call c (s, u) = Inr (s1, u1)" "sends_on (s1, u1)"
    "ring_abs s1 = take SCI_BUFSIZE (ring_abs s @ call_bytes c)" "sci_obj s1 = sci_obj s" "sci_meth s1 = sci_meth s"
    using do_call_bytes [OF Cons.prems] by blast
  obtain s2 u2 where "do_calls cs (s1, u1) = Inr (s2, u2)" "sends_on (s2, u2)"
    "ring_abs s2 = take SCI_BUFSIZE (ring_abs s1 @ bytes_of cs)" "sci_obj s2 = sci_obj s1" "sci_meth s2 = sci_meth s1"
    using Cons.IH [OF 1(2)] by blast
  with 1 show ?case by (auto simp: min_def take_Cons' not_le split: if_splits)
qed

text \<open>The bytes of a text; a single character is sent as it is, in a string a line feed gets a carriage return.\<close>

lemma byte_of_char: "of_char (to_char (sint d)) = (ucast d :: u8)" for d :: i32
proof -
  let ?n = "nat (sint d mod 256)"
  have "of_char (to_char (sint d)) = (of_nat (of_char (char_of ?n :: char)) :: u8)"
    by (simp only: to_char_def of_nat_of_char)
  also have "\<dots> = word_of_int (sint d mod 256)" by simp
  also have "\<dots> = word_of_int (sint d)"
    by (rule word_of_int_eq_iff [THEN iffD2]) (simp add: take_bit_eq_mod)
  also have "\<dots> = ucast d"
    by (rule bit_word_eqI) (simp add: bit_simps bit_sint_iff)
  finally show ?thesis .
qed

lemma plain_bytes:
  "(\<And>d. SCI_WRITECHAR d \<in> set cs \<Longrightarrow> ucast d \<noteq> (10 :: u8)) \<Longrightarrow> bytes_of cs = crlf (map of_char (text_of cs))"
proof (induction cs)
  case (Cons c cs)
  have app: "crlf (xs @ ys) = crlf xs @ crlf ys" for xs ys by (induction xs) auto
  show ?case using Cons by (cases c) (auto simp: app byte_of_char)
qed simp

subsection \<open>The objects and the start\<close>

definition APP :: nat where "APP = 0"
definition M_READER :: nat where "M_READER = 1"
definition M_RECEIVER :: nat where "M_RECEIVER = 2"

definition can0 :: Can where "can0 = initCan (Some APP) M_RECEIVER"
definition sci0 :: Serial where "sci0 = initSerial (Some APP) M_READER"

definition hello_text :: string where
  "hello_text = ''Hello, if this code here, the program is setup correctly,... '' @ [NL]"

definition startApp ::
  "(nat \<Rightarrow> u32) \<Rightarrow> (nat \<Rightarrow> u32) \<Rightarrow> Can \<Rightarrow> Serial \<Rightarrow> CAN_TypeDef \<Rightarrow> CAN_TypeDef \<Rightarrow> USART_TypeDef \<Rightarrow> nvic
    \<Rightarrow> (Can \<times> Serial \<times> CAN_TypeDef \<times> CAN_TypeDef \<times> USART_TypeDef \<times> nvic) res" where
  "startApp msr1 msr2 can sci c1 c2 u v =
     bnd (can_init msr1 msr2 can c1 c2 v) (\<lambda>(_, can1, d1, d2, v1).
     bnd (sci_init sci u v1) (\<lambda>(sci1, u1, v2).
     bnd (sci_write (map of_char hello_text) sci1 u1) (\<lambda>(sci2, u2). Inr (can1, sci2, d1, d2, u2, v2))))"

subsection \<open>Events\<close>

record line_state =
  li_app :: App
  li_sci :: Serial
  li_usart :: USART_TypeDef
  li_msgs :: sends
  li_wire :: "u8 list"

datatype line_event = Port "u8 option" bool | Handle

text \<open>What the port shows when it interrupts.\<close>

definition port_shows :: "u8 option \<Rightarrow> bool \<Rightarrow> USART_TypeDef \<Rightarrow> USART_TypeDef" where
  "port_shows rx txe u =
     u\<lparr>us_SR := (if txe then 0x80 else 0) OR (if rx = None then 0 else 0x20),
       us_RDR := (case rx of None \<Rightarrow> us_RDR u | Some b \<Rightarrow> ucast b)\<rparr>"

definition port_irq :: "u8 option \<Rightarrow> bool \<Rightarrow> line_state \<Rightarrow> line_state res" where
  "port_irq rx txe l =
     bnd (sci_interrupt (li_sci l) (port_shows rx txe (li_usart l))) (\<lambda>(ms, s, u).
       Inr (l\<lparr>li_sci := s, li_usart := u, li_msgs := li_msgs l @ ms,
              li_wire := li_wire l @ (if r_count s < r_count (li_sci l) then [ucast (us_TDR u)] else [])\<rparr>))"

definition handle :: "string \<Rightarrow> string \<Rightarrow> string \<Rightarrow> line_state \<Rightarrow> line_state res" where
  "handle stk1 stk2 stk3 l =
     (case li_msgs l of
        [] \<Rightarrow> Inr l
      | (ob, me, arg) # ms \<Rightarrow>
          if ob = APP \<and> me = M_READER
          then bnd (reader stk1 stk2 stk3 arg (li_app l)) (\<lambda>(cs, a).
               bnd (do_calls cs (li_sci l, li_usart l)) (\<lambda>(s, u).
                 Inr (l\<lparr>li_app := a, li_sci := s, li_usart := u, li_msgs := ms\<rparr>)))
          else Inl BadPointer)"

fun line_step :: "string \<Rightarrow> string \<Rightarrow> string \<Rightarrow> line_event \<Rightarrow> line_state \<Rightarrow> line_state res" where
  "line_step stk1 stk2 stk3 (Port rx txe) l = port_irq rx txe l"
| "line_step stk1 stk2 stk3 Handle l = handle stk1 stk2 stk3 l"

fun line_run :: "string \<Rightarrow> string \<Rightarrow> string \<Rightarrow> line_event list \<Rightarrow> line_state \<Rightarrow> line_state res" where
  "line_run stk1 stk2 stk3 [] l = Inr l"
| "line_run stk1 stk2 stk3 (e # es) l = bnd (line_step stk1 stk2 stk3 e l) (line_run stk1 stk2 stk3 es)"

subsection \<open>The contract\<close>

text \<open>
  Abstractly: the keys that wait to be handled, the contract of the application, the bytes that wait to be sent, those sent, and those
  the application wanted to send; \<open>ls_lost\<close> says whether some found no room.
\<close>

record line_spec =
  ls_keys :: "i32 list"
  ls_calc :: calc
  ls_queue :: "u8 list"
  ls_wire :: "u8 list"
  ls_said :: "u8 list"
  ls_lost :: bool

definition key_bytes :: "i32 \<Rightarrow> string \<Rightarrow> u8 list" where
  "key_bytes c out = ucast c # crlf (map of_char (tl out))"

definition say :: "u8 list \<Rightarrow> line_spec \<Rightarrow> line_spec" where
  "say bs a = a\<lparr>ls_queue := take SCI_BUFSIZE (ls_queue a @ bs), ls_said := ls_said a @ bs,
                ls_lost := (ls_lost a \<or> SCI_BUFSIZE < length (ls_queue a @ bs))\<rparr>"

fun spec_step :: "line_event \<Rightarrow> line_spec \<Rightarrow> line_spec res" where
  "spec_step (Port rx txe) a =
     Inr (a\<lparr>ls_keys := ls_keys a @ (case rx of None \<Rightarrow> [] | Some b \<Rightarrow> [ucast b]),
            ls_queue := (if txe then tl (ls_queue a) else ls_queue a),
            ls_wire := ls_wire a @ (if txe then take 1 (ls_queue a) else [])\<rparr>)"
| "spec_step Handle a =
     (case ls_keys a of
        [] \<Rightarrow> Inr a
      | c # cs \<Rightarrow> bnd (calc_step c (ls_calc a)) (\<lambda>(out, st).
          Inr (say (key_bytes c out) (a\<lparr>ls_keys := cs, ls_calc := st\<rparr>))))"

fun spec_run :: "line_event list \<Rightarrow> line_spec \<Rightarrow> line_spec res" where
  "spec_run [] a = Inr a"
| "spec_run (e # es) a = bnd (spec_step e a) (spec_run es)"

definition spec0 :: line_spec where
  "spec0 = \<lparr>ls_keys = [], ls_calc = ([], []), ls_queue = crlf (map of_char hello_text), ls_wire = [],
            ls_said = crlf (map of_char hello_text), ls_lost = False\<rparr>"

definition line_rel :: "line_state \<Rightarrow> line_spec \<Rightarrow> bool" where
  "line_rel l a \<longleftrightarrow>
     app_rel (li_app l) (ls_calc a) \<and> sends_on (li_sci l, li_usart l) \<and> ring_abs (li_sci l) = ls_queue a
     \<and> li_wire l = ls_wire a \<and> li_msgs l = map (\<lambda>c. (APP, M_READER, c)) (ls_keys a)
     \<and> (\<forall>c\<in>set (ls_keys a). \<exists>b :: u8. c = ucast b) \<and> sci_obj (li_sci l) = Some APP \<and> sci_meth (li_sci l) = M_READER"

subsection \<open>Each event refines a step of the contract\<close>

lemma port_flags [simp]:
  "USART_GetFlagStatus USART_FLAG_TXE (port_shows rx txe u) = txe"
  "USART_GetFlagStatus USART_FLAG_RXNE (port_shows rx txe u) \<longleftrightarrow> rx \<noteq> None"
  "txe_enabled (port_shows rx txe u) = txe_enabled u"
  by (simp_all add: port_shows_def USART_GetFlagStatus_def USART_FLAG_TXE_def USART_FLAG_RXNE_def txe_enabled_def)

lemma port_rx:
  "sci_obj s = Some ob \<Longrightarrow> sci_rx s (port_shows rx txe u) =
     (case rx of None \<Rightarrow> [] | Some b \<Rightarrow> [(ob, sci_meth s, ucast b)])"
proof -
  have "(ucast (ucast b AND 0x01FF :: u16) :: i32) = ucast b" for b :: u8
    by (rule bit_word_eqI) (auto simp: bit_simps reg_bits dest: bit_imp_le_length)
  then show "sci_obj s = Some ob \<Longrightarrow> sci_rx s (port_shows rx txe u) = (case rx of None \<Rightarrow> [] | Some b \<Rightarrow> [(ob, sci_meth s, ucast b)])"
    by (cases rx) (simp_all add: sci_rx_def, simp add: USART_ReceiveData_def port_shows_def)
qed

lemma sci_tx_frame: "sci_tx s u = Inr (s', u') \<Longrightarrow> sci_obj s' = sci_obj s \<and> sci_meth s' = sci_meth s"
  by (auto simp: sci_tx_def Let_def split: if_splits)

text \<open>The transmit half moves the oldest byte to the line.\<close>

lemma port_tx:
  assumes "sends_on (s, u)"
  shows "\<exists>s' u'. sci_tx s (port_shows rx txe u) = Inr (s', u') \<and> sends_on (s', u')
    \<and> ring_abs s' = (if txe then tl (ring_abs s) else ring_abs s)
    \<and> (if r_count s' < r_count s then [ucast (us_TDR u')] else []) = (if txe then take 1 (ring_abs s) else [])"
proof (cases "txe \<and> ring_abs s \<noteq> []")
  case True
  then obtain c cs where q: "ring_abs s = c # cs" by (cases "ring_abs s") auto
  have inv: "sci_inv s" and on: "txe_enabled u" using assms q by (auto simp: sends_on_def)
  obtain s' u' where t: "sci_tx s (port_shows rx txe u) = Inr (s', u')" "us_TDR u' = ucast c" "sci_inv s'" "ring_abs s' = cs"
    "txe_enabled u' \<longleftrightarrow> cs \<noteq> []"
    using sci_tx_byte [OF inv q, of "port_shows rx txe u"] True on by auto
  have n: "r_count s' < r_count s" using q t(4) by (metis length_ring_abs length_Cons lessI)
  have "ucast (us_TDR u') = c" unfolding t(2) by (rule bit_word_eqI) (auto simp: bit_simps)
  moreover have "r_count s' = 0 \<longleftrightarrow> cs = []" using t(4) by (metis ring_abs_Nil)
  ultimately show ?thesis using t n q True by (auto simp: sends_on_def)
next
  case False
  show ?thesis
  proof (cases txe)
    case True
    then have "ring_abs s = []" using False by simp
    then show ?thesis using True assms sci_tx_empty [of s "port_shows rx txe u"] by (simp add: sends_on_def ring_abs_def)
  next
    case False
    then have "sci_tx s (port_shows rx txe u) = Inr (s, port_shows rx txe u)" by (simp add: sci_tx_def)
    then show ?thesis using False assms by (simp add: sends_on_def)
  qed
qed

lemma port_refines:
  assumes "line_rel l a" and "spec_step (Port rx txe) a = Inr a'"
  shows "\<exists>l'. port_irq rx txe l = Inr l' \<and> line_rel l' a' \<and> li_app l' = li_app l"
proof -
  have r: "sends_on (li_sci l, li_usart l)" "sci_obj (li_sci l) = Some APP" "sci_meth (li_sci l) = M_READER"
    using assms(1) by (simp_all add: line_rel_def)
  obtain s' u' where t: "sci_tx (li_sci l) (port_shows rx txe (li_usart l)) = Inr (s', u')" "sends_on (s', u')"
    "ring_abs s' = (if txe then tl (ring_abs (li_sci l)) else ring_abs (li_sci l))"
    "(if r_count s' < r_count (li_sci l) then [ucast (us_TDR u')] else []) = (if txe then take 1 (ring_abs (li_sci l)) else [])"
    using port_tx [OF r(1)] by blast
  show ?thesis
    using assms t sci_tx_frame [OF t(1)] port_rx [OF r(2), of rx txe "li_usart l"] r(3)
    by (auto simp: port_irq_def sci_interrupt_def line_rel_def split: option.splits)
qed

lemma handle_refines:
  assumes "line_rel l a" and "spec_step Handle a = Inr a'" and "sint (app_count (li_app l)) < 2147483647"
    and "length stk1 = 12" and "length stk2 = 12" and "length stk3 = 12"
  shows "\<exists>l'. handle stk1 stk2 stk3 l = Inr l' \<and> line_rel l' a' \<and> sint (app_count (li_app l')) \<le> sint (app_count (li_app l)) + 1"
proof (cases "ls_keys a")
  case Nil
  then show ?thesis using assms(1,2) by (auto simp: handle_def line_rel_def)
next
  case (Cons c cs)
  from assms(1) Cons have r: "app_rel (li_app l) (ls_calc a)" "sends_on (li_sci l, li_usart l)" "ring_abs (li_sci l) = ls_queue a"
    "li_msgs l = (APP, M_READER, c) # map (\<lambda>c. (APP, M_READER, c)) cs" and c: "\<exists>b :: u8. c = ucast b"
    by (auto simp: line_rel_def)
  from assms(2) Cons obtain out st where st: "calc_step c (ls_calc a) = Inr (out, st)"
    and a': "a' = say (key_bytes c out) (a\<lparr>ls_keys := cs, ls_calc := st\<rparr>)" by (auto split: prod.splits)
  obtain ks app where k: "reader stk1 stk2 stk3 c (li_app l) = Inr (SCI_WRITECHAR c # ks, app)" "out = to_char (sint c) # text_of ks"
    "\<forall>d. SCI_WRITECHAR d \<in> set ks \<longrightarrow> d = c \<and> c \<noteq> 10" "app_rel app st" "sint (app_count app) \<le> sint (app_count (li_app l)) + 1"
    using reader_refines [OF r(1) assms(3-6) st] by blast
  have "ucast c \<noteq> (10 :: u8)" if "c \<noteq> 10"
  proof -
    obtain b :: u8 where b: "c = ucast b" using c by blast
    have "ucast c = b" unfolding b by (rule bit_word_eqI) (auto simp: bit_simps)
    then show ?thesis using b that by auto
  qed
  then have "bytes_of ks = crlf (map of_char (text_of ks))" using k(3) by (intro plain_bytes) auto
  then have bytes: "bytes_of (SCI_WRITECHAR c # ks) = key_bytes c out" by (simp add: key_bytes_def k(2))
  obtain s' u' where d: "do_calls (SCI_WRITECHAR c # ks) (li_sci l, li_usart l) = Inr (s', u')" "sends_on (s', u')"
    "ring_abs s' = take SCI_BUFSIZE (ring_abs (li_sci l) @ key_bytes c out)" "sci_obj s' = sci_obj (li_sci l)" "sci_meth s' = sci_meth (li_sci l)"
    using do_calls_bytes [OF r(2), of "SCI_WRITECHAR c # ks"] unfolding bytes by blast
  have "handle stk1 stk2 stk3 l = Inr (l\<lparr>li_app := app, li_sci := s', li_usart := u', li_msgs := map (\<lambda>c. (APP, M_READER, c)) cs\<rparr>)"
    using r(4) k(1) d(1) by (simp add: handle_def del: do_calls.simps)
  then show ?thesis using assms(1) Cons r(3) k(4,5) d(2-5) by (auto simp: line_rel_def a' say_def)
qed

lemma line_run_refines:
  "line_rel l a \<Longrightarrow> spec_run es a = Inr a' \<Longrightarrow> sint (app_count (li_app l)) + int (length es) < 2147483648 \<Longrightarrow>
     length stk1 = 12 \<Longrightarrow> length stk2 = 12 \<Longrightarrow> length stk3 = 12 \<Longrightarrow>
     \<exists>l'. line_run stk1 stk2 stk3 es l = Inr l' \<and> line_rel l' a'"
proof (induction es arbitrary: l a)
  case (Cons e es)
  then obtain a1 where a1: "spec_step e a = Inr a1" "spec_run es a1 = Inr a'" by auto
  have n: "sint (app_count (li_app l)) < 2147483647" using Cons.prems(3) by simp
  have "\<exists>l1. line_step stk1 stk2 stk3 e l = Inr l1 \<and> line_rel l1 a1 \<and> sint (app_count (li_app l1)) \<le> sint (app_count (li_app l)) + 1"
  proof (cases e)
    case (Port rx txe)
    then show ?thesis using port_refines [OF Cons.prems(1), of rx txe a1] a1(1) by auto
  next
    case Handle
    then show ?thesis using handle_refines [OF Cons.prems(1) _ n Cons.prems(4-6)] a1(1) by simp
  qed
  then obtain l1 where l1: "line_step stk1 stk2 stk3 e l = Inr l1" "line_rel l1 a1"
    "sint (app_count (li_app l1)) \<le> sint (app_count (li_app l)) + 1" by blast
  have "sint (app_count (li_app l1)) + int (length es) < 2147483648" using Cons.prems(3) l1(3) by simp
  from Cons.IH [OF l1(2) a1(2) this Cons.prems(4-6)] l1(1) show ?case by simp
qed simp

subsection \<open>What leaves on the line\<close>

fun arrived :: "line_event list \<Rightarrow> i32 list" where
  "arrived [] = []"
| "arrived (Port (Some b) txe # es) = ucast b # arrived es"
| "arrived (_ # es) = arrived es"

fun calc_line :: "i32 list \<Rightarrow> calc \<Rightarrow> (u8 list \<times> calc) res" where
  "calc_line [] st = Inr ([], st)"
| "calc_line (c # cs) st =
     bnd (calc_step c st) (\<lambda>(out, s1). bnd (calc_line cs s1) (\<lambda>(bs, s2). Inr (key_bytes c out @ bs, s2)))"

definition faithful :: "line_spec \<Rightarrow> bool" where
  "faithful a \<longleftrightarrow> subseq (ls_wire a @ ls_queue a) (ls_said a) \<and> (\<not> ls_lost a \<longrightarrow> ls_wire a @ ls_queue a = ls_said a)"

lemma say_faithful:
  assumes "faithful a"
  shows "faithful (say bs a)"
proof -
  have "subseq (ls_wire a @ take SCI_BUFSIZE (ls_queue a @ bs)) (ls_wire a @ ls_queue a @ bs)"
    by (simp only: subseq_append') (rule prefix_imp_subseq [OF take_is_prefix])
  moreover have "subseq (ls_wire a @ ls_queue a @ bs) (ls_said a @ bs)"
    using assms list_emb_append_mono [of "(=)" "ls_wire a @ ls_queue a" "ls_said a" bs bs] by (simp add: faithful_def)
  ultimately have "subseq (ls_wire a @ take SCI_BUFSIZE (ls_queue a @ bs)) (ls_said a @ bs)" by (rule subseq_order.trans)
  then show ?thesis using assms by (auto simp: faithful_def say_def)
qed

lemma spec_run_said:
  "spec_run es a = Inr a' \<Longrightarrow> faithful a \<Longrightarrow> faithful a' \<and>
     (\<exists>handled bs. ls_keys a @ arrived es = handled @ ls_keys a' \<and> calc_line handled (ls_calc a) = Inr (bs, ls_calc a')
        \<and> ls_said a' = ls_said a @ bs)"
proof (induction es arbitrary: a)
  case Nil
  then show ?case by (auto intro!: exI [of _ "[]"])
next
  case (Cons e es)
  then obtain a1 where a1: "spec_step e a = Inr a1" "spec_run es a1 = Inr a'" by auto
  show ?case
  proof (cases e)
    case (Port rx txe)
    with a1(1) have e: "a1 = a\<lparr>ls_keys := ls_keys a @ (case rx of None \<Rightarrow> [] | Some b \<Rightarrow> [ucast b]),
            ls_queue := (if txe then tl (ls_queue a) else ls_queue a),
            ls_wire := ls_wire a @ (if txe then take 1 (ls_queue a) else [])\<rparr>" by simp
    have "ls_wire a1 @ ls_queue a1 = ls_wire a @ ls_queue a" by (cases "ls_queue a") (simp_all add: e)
    then have "faithful a1" using Cons.prems(2) by (simp add: faithful_def e)
    with Cons.IH [OF a1(2)] show ?thesis by (cases rx) (auto simp: e Port)
  next
    case Handle
    show ?thesis
    proof (cases "ls_keys a")
      case Nil
      then show ?thesis using Cons.IH [OF a1(2)] Cons.prems(2) a1(1) Handle by auto
    next
      case (Cons c cs)
      from a1(1) Cons Handle obtain out st where st: "calc_step c (ls_calc a) = Inr (out, st)"
        and e: "a1 = say (key_bytes c out) (a\<lparr>ls_keys := cs, ls_calc := st\<rparr>)" by (auto split: prod.splits)
      have "faithful (a\<lparr>ls_keys := cs, ls_calc := st\<rparr>)" using Cons.prems(2) by (simp add: faithful_def)
      then have "faithful a1" unfolding e by (rule say_faithful)
      from Cons.IH [OF a1(2) this] obtain handled bs where "faithful a'" "ls_keys a1 @ arrived es = handled @ ls_keys a'"
        "calc_line handled (ls_calc a1) = Inr (bs, ls_calc a')" "ls_said a' = ls_said a1 @ bs" by blast
      then show ?thesis using st Cons Handle
        by (intro conjI exI [of _ "c # handled"] exI [of _ "key_bytes c out @ bs"]) (simp_all add: e say_def)
    qed
  qed
qed

lemma line_rel_txe: "line_rel l a \<Longrightarrow> ring_abs (li_sci l) \<noteq> [] \<Longrightarrow> txe_enabled (li_usart l)"
  unfolding line_rel_def sends_on_def fst_conv snd_conv by blast

lemma spec0_faithful: "faithful spec0"
  by (simp add: faithful_def spec0_def)

text \<open>The start leaves the greeting in the ring.\<close>

lemma startApp_line:
  assumes "startApp msr1 msr2 can sci0 c1 c2 u v = Inr (can1, sci1, d1, d2, u1, v1)"
  shows "line_rel \<lparr>li_app = initApp, li_sci = sci1, li_usart = u1, li_msgs = [], li_wire = []\<rparr> spec0"
proof -
  from assms obtain v0 u0 sci2 where s: "sci_init sci0 u v0 = Inr (sci2, u0, v1)" "sci_write (map of_char hello_text) sci2 u0 = Inr (sci1, u1)"
    by (auto simp: startApp_def)
  from s(1) have sci2: "sci2 = sci0" by (auto simp: sci_init_def sci0_def initSerial_def Let_def)
  have on: "sends_on (sci0, u0)" by (simp add: sends_on_def sci0_def)
  have "length (crlf (map of_char hello_text)) \<le> SCI_BUFSIZE" by (simp add: hello_text_def SCI_BUFSIZE_def)
  then show ?thesis
    using do_call_bytes [OF on, of "SCI_WRITE hello_text"] s(2) initApp_rel
    by (auto simp: line_rel_def spec0_def sci2) (simp_all add: sci0_def initSerial_def ring_abs_def)
qed

subsection \<open>Well-formed states\<close>

text \<open>Every array has its size, every index is inside, and every message is for a method the object has.\<close>

definition line_wf :: "line_state \<Rightarrow> bool" where
  "line_wf l \<longleftrightarrow>
     length (buffer (li_app l)) = 2 \<and> length (number (li_app l)) = 64 \<and> app_pos (li_app l) = 0 \<and> num_pos (li_app l) \<le> 63
     \<and> length (history (li_app l)) = 3 \<and> 0 \<le> sint (app_count (li_app l)) \<and> sends_on (li_sci l, li_usart l)
     \<and> sci_obj (li_sci l) = Some APP \<and> sci_meth (li_sci l) = M_READER
     \<and> (\<forall>(ob, me, c)\<in>set (li_msgs l). ob = APP \<and> me = M_READER \<and> (\<exists>b :: u8. c = ucast b))"

lemma line_rel_wf: "line_rel l a \<Longrightarrow> line_wf l"
  by (auto simp: line_rel_def line_wf_def app_rel_def)

lemma line_wf_rel:
  assumes "line_wf l"
  shows "\<exists>a. line_rel l a \<and> fst (ls_calc a) = take (num_pos (li_app l)) (number (li_app l))
    \<and> ls_keys a = map (snd \<circ> snd) (li_msgs l)"
proof -
  let ?a = "\<lparr>ls_keys = map (snd \<circ> snd) (li_msgs l),
     ls_calc = (take (num_pos (li_app l)) (number (li_app l)), ring3 (sint (app_count (li_app l))) (history (li_app l))),
     ls_queue = ring_abs (li_sci l), ls_wire = li_wire l, ls_said = [], ls_lost = False\<rparr>"
  have "length (ring3 n h) = 3" "pad3 (ring3 n h) = ring3 n h" for n h by (simp_all add: ring3_def pad3_def)
  moreover have "li_msgs l = map (\<lambda>c. (APP, M_READER, c)) (map (snd \<circ> snd) (li_msgs l))"
    using assms by (intro nth_equalityI) (auto simp: line_wf_def dest!: nth_mem)
  ultimately have "line_rel l ?a"
    using assms by (auto simp: line_rel_def line_wf_def app_rel_ring3 min_def split: prod.splits)
  then show ?thesis by (intro exI [of _ ?a]) simp
qed

text \<open>The key that ends a number that fits no int.\<close>

definition number_too_big :: "line_state \<Rightarrow> bool" where
  "number_too_big l \<longleftrightarrow>
     (case li_msgs l of [] \<Rightarrow> False
      | (_, _, c) # _ \<Rightarrow> (c = 10 \<or> c = 13 \<or> c = 101) \<and> atoi (cstr (take (num_pos (li_app l)) (number (li_app l)))) = Inl Undefined)"

lemma calc_step_fault:
  "calc_step c (typed, recent) = Inl f \<longleftrightarrow> c \<noteq> 70 \<and> (c = 10 \<or> c = 13 \<or> c = 101) \<and> atoi (cstr typed) = Inl f"
  by (cases "atoi (cstr typed)") (auto simp: Let_def)

lemma spec_step_fault:
  "spec_step Handle a = Inl f \<longleftrightarrow> (\<exists>c cs. ls_keys a = c # cs \<and> calc_step c (ls_calc a) = Inl f)"
  by (cases "ls_keys a") (auto simp: bnd_def simp del: calc_step.simps split: sum.splits prod.splits)

lemma line_step_types:
  assumes "line_wf l" and "sint (app_count (li_app l)) < 2147483647"
    and "length stk1 = 12" and "length stk2 = 12" and "length stk3 = 12"
  shows "if e = Handle \<and> number_too_big l then line_step stk1 stk2 stk3 e l = Inl Undefined
    else \<exists>l'. line_step stk1 stk2 stk3 e l = Inr l' \<and> line_wf l'"
proof -
  obtain a where a: "line_rel l a" "fst (ls_calc a) = take (num_pos (li_app l)) (number (li_app l))"
    "ls_keys a = map (snd \<circ> snd) (li_msgs l)" using line_wf_rel [OF assms(1)] by blast
  show ?thesis
  proof (cases e)
    case (Port rx txe)
    then show ?thesis using port_refines [OF a(1), of rx txe] line_rel_wf by auto
  next
    case e: Handle
    show ?thesis
    proof (cases "spec_step Handle a")
      case (Inr a')
      have "\<not> number_too_big l"
      proof
        assume "number_too_big l"
        then obtain ob me c ms where "li_msgs l = (ob, me, c) # ms" "calc_step c (ls_calc a) = Inl Undefined"
          using a(2) by (cases "ls_calc a") (auto simp: number_too_big_def calc_step_fault simp del: calc_step.simps split: list.splits)
        then have "spec_step Handle a = Inl Undefined" using a(3) by (simp add: spec_step_fault del: spec_step.simps calc_step.simps)
        with Inr show False by simp
      qed
      then show ?thesis using handle_refines [OF a(1) Inr assms(2-5)] line_rel_wf e by auto
    next
      case (Inl f)
      then obtain ob me c ms where m: "li_msgs l = (ob, me, c) # ms" using a(3) by (cases "li_msgs l") auto
      have key: "c \<noteq> 70" "c = 10 \<or> c = 13 \<or> c = 101" "atoi (cstr (take (num_pos (li_app l)) (number (li_app l)))) = Inl f"
        using Inl a(2,3) m by (cases "ls_calc a"; auto simp: spec_step_fault calc_step_fault simp del: calc_step.simps spec_step.simps)+
      have u: "f = Undefined" using key(3) by (auto simp: atoi_def Let_def split: if_splits)
      have w: "num_pos (li_app l) < length (number (li_app l))" "ob = APP" "me = M_READER"
        using assms(1) m by (auto simp: line_wf_def)
      have "reader stk1 stk2 stk3 c (li_app l) = Inl Undefined"
        using key u w(1) cstr_put [OF w(1)] by (auto simp: reader_def reader_enter_def)
      then show ?thesis using key(2,3) u e m w by (auto simp: number_too_big_def handle_def)
    qed
  qed
qed

subsection \<open>A greeting from another board\<close>

text \<open>
  The second application's start method sends a frame; a board that runs either application prints it. The frame's mailbox is copied
  by the bus.
\<close>

lemma CAN_Init_frame:
  "can_TSR (snd (CAN_Init ini msr c)) = can_TSR c" "sTxMailBox (snd (CAN_Init ini msr c)) = sTxMailBox c"
  by (simp_all add: CAN_Init_def Let_def)

lemma can_init_frame:
  assumes "can_init msr1 msr2 can c1 c2 v = Inr (out, can', d1, d2, v')"
  shows "can_TSR d1 = can_TSR c1" "sTxMailBox d1 = sTxMailBox c1"
  using assms CAN_Init_frame [of can_init_struct msr1 c1]
  by (auto simp: can_init_def Let_def CAN_ITConfig_def split: prod.splits)

lemma startApp2_frame:
  assumes "startApp2 msr1 msr2 frame stk can sci c1 c2 u v = Inr (can', sci', e1, d2, u', v')"
    and "length (cm_buff stk) = 8" and "length (Data frame) = 8" and "free_mailbox (can_TSR c1) \<noteq> CAN_TxStatus_NoMailBox"
  shows "\<exists>msg. hello_msg stk = Inr msg \<and> length (cm_buff msg) = 8 \<and> view msg = (1, 1, [0x48, 0x65, 0x6C, 0x6C, 0x6F, 0])
    \<and> cm_length msg = 6
    \<and> sTxMailBox e1 (unat (free_mailbox (can_TSR c1))) =
        fill_mailbox (sent_frame frame msg) (sTxMailBox c1 (unat (free_mailbox (can_TSR c1))))"
proof -
  from assms(1) obtain out can1 d1 v1 msg r where s: "can_init msr1 msr2 can c1 c2 v = Inr (out, can1, d1, d2, v1)"
    "hello_msg stk = Inr msg" "can_send frame msg d1 = Inr r" "e1 = snd (snd (snd r))"
    by (auto simp: startApp2_def split: prod.splits)
  obtain b0 b1 b2 b3 b4 b5 b6 b7 where b: "cm_buff stk = [b0, b1, b2, b3, b4, b5, b6, b7]"
    using assms(2) by (auto simp: eval_nat_numeral length_Suc_conv)
  have msg: "msg = stk\<lparr>msgId := 1, nodeId := 1, cm_length := 6, cm_buff := [0x48, 0x65, 0x6C, 0x6C, 0x6F, 0, b6, b7]\<rparr>"
    using s(2) by (simp add: hello_msg_def b aset_def)
  have "e1 = upd_tx (unat (free_mailbox (can_TSR c1))) (fill_mailbox (sent_frame frame msg)) d1"
    using s(3,4) can_send_frame [of msg frame d1] assms(3,4) can_init_frame [OF s(1)] by (simp add: msg split: if_splits)
  then show ?thesis using s(2) can_init_frame [OF s(1)] by (simp add: msg view_def upd_tx_def)
qed

lemma receiver_prints:
  assumes "can_inv can" and "can_abs can = (i, n, d) # es" and "0 \<in> set d" and "length (cm_buff stk) = 8"
  shows "\<exists>can'. receiver stk can = Inr ([SCI_WRITE ''Can msg received: '',
      SCI_WRITE (map (\<lambda>x. char_of (unat x)) (takeWhile (\<lambda>x. x \<noteq> 0) d))], can') \<and> can_inv can' \<and> can_abs can' = es"
proof -
  obtain msg can' where m: "can_receive stk can = Inr (0, msg, can')" "view msg = (i, n, d)" "can_inv can'" "can_abs can' = es"
    using can_receive_takes [OF assms(1,2,4)] by blast
  let ?k = "unat (cm_length msg)"
  have d: "take ?k (cm_buff msg) = d" using m(2) by (simp add: view_def)
  then have "0 \<in> set (cm_buff msg)" using assms(3) by (metis in_set_takeD)
  moreover have "takeWhile (\<lambda>x. x \<noteq> 0) (cm_buff msg) = takeWhile (\<lambda>x. x \<noteq> 0) d"
  proof -
    have "cm_buff msg = d @ drop ?k (cm_buff msg)" using d append_take_drop_id [of ?k "cm_buff msg"] by simp
    then show ?thesis using assms(3) by (metis (mono_tags, lifting) takeWhile_append1)
  qed
  ultimately show ?thesis using m(1,3,4) by (simp add: receiver_def)
qed

text \<open>An interrupt of a controller whose driver has room stores the frame and wakes the receiver.\<close>

lemma can_interrupt_stores:
  assumes "can_inv s" and "rx_ok (read_mailbox (sFIFOMailBox d 0) stk)" and "r_count s < CAN_BUFSIZE" and "can_obj s = Some ob"
    and "rx_entry (read_mailbox (sFIFOMailBox d 0) stk) = (i, n, bs)"
  shows "\<exists>out s' d'. can_interrupt stk s d = Inr (out, [(ob, can_meth s, push_bit 4 (ucast i) + ucast n)], s', d')
    \<and> can_inv s' \<and> can_abs s' = can_abs s @ [(i, n, bs)]"
  using can_store_appends [OF assms(1-3)] assms(3-5)
  by (auto simp: can_interrupt_def CAN_Receive_def CAN_FIFORelease_def Let_def)

end
