(* ===== verification/Line_Properties.thy ===== *)
theory Line_Properties
  imports App_Line
begin

section \<open>Applications, drivers and registers together\<close>

text \<open>
  What the composition of applications, drivers and registers does: the number application on its serial line implements its contract and
  keeps its state well formed, and the greeting of one board is printed by another. First, concrete boards for the witnesses.
\<close>

definition idle_usart :: USART_TypeDef where
  "idle_usart = \<lparr>us_SR = 0xC0, us_TDR = 0, us_RDR = 0, us_BRR = 0, us_CR1 = 0, us_CR2 = 0, us_CR3 = 0, us_GTPR = 0\<rparr>"

definition idle_nvic :: nvic where
  "idle_nvic = \<lparr>nv_ISER = replicate 8 0, nv_IP = replicate 240 0, nv_SHP = replicate 12 0\<rparr>"

definition idle_can :: CAN_TypeDef where
  "idle_can =
     \<lparr>can_MCR = 0, can_MSR = 0, can_TSR = 0x1C000000, can_RF0R = 1, can_RF1R = 0, can_IER = 0, can_ESR = 0, can_BTR = 0,
      sTxMailBox = (\<lambda>_. \<lparr>mb_IR = 0, mb_DTR = 0, mb_DLR = 0, mb_DHR = 0\<rparr>),
      sFIFOMailBox = (\<lambda>_. \<lparr>mb_IR = 0, mb_DTR = 0, mb_DLR = 0, mb_DHR = 0\<rparr>), can_FMR = 0, can_FM1R = 0,
      can_FS1R = 0, can_FFA1R = 0, can_FA1R = 0, sFilterRegister = replicate 28 (0, 0)\<rparr>"

abbreviation some_frame :: CanMsgFrame where
  "some_frame \<equiv> \<lparr>StdId = 0, ExtId = 0, IDE = 0, RTR = 0, DLC = 0, Data = replicate 8 0\<rparr>"

abbreviation some_rx :: CanRxMsg where
  "some_rx \<equiv> \<lparr>StdId = 0, ExtId = 0, IDE = 0, RTR = 0, DLC = 0, Data = replicate 8 0, FMI = 0\<rparr>"

lemma can_init_idle: "\<exists>out can1 d1 d2 v1. can_init msr1 msr2 can c1 c2 idle_nvic = Inr (out, can1, d1, d2, v1)
    \<and> length (nv_ISER v1) = 8 \<and> length (nv_IP v1) = 240"
  by (auto simp: can_init_def Let_def NVIC_SetPriority_def NVIC_EnableIRQ_def idle_nvic_def aset_def aget_def split: prod.splits)

lemma sci_init_idle: "length (nv_ISER v1) = 8 \<Longrightarrow> length (nv_IP v1) = 240 \<Longrightarrow>
    \<exists>u1 v2. sci_init s u v1 = Inr (s\<lparr>r_count := 0, r_head := 0, r_tail := 0\<rparr>, u1, v2)"
  by (auto simp: sci_init_def Let_def NVIC_SetPriority_def NVIC_EnableIRQ_def aset_def aget_def)

lemma sci_write_total: "sends_on (s, u) \<Longrightarrow> \<exists>s' u'. sci_write (map of_char p) s u = Inr (s', u')"
  using do_call_bytes [of s u "SCI_WRITE p"] by auto












text \<open>
  C10. The frame the second application sends at its start is printed by a board that runs either
  of them: copied by the bus, its interrupt stores it and sends one message to the application,
  whose handler takes it and puts \<open>Can msg received: Hello\<close> behind the bytes that
  wait to be sent.
\<close>

theorem hello_arrives:
  assumes "startApp2 msr1 msr2 frame stk can sci c1 c2 u v = Inr (can', sci', e1, e2, u', v')"
    and "length (cm_buff stk) = 8" and "length (Data frame) = 8" and "free_mailbox (can_TSR c1) \<noteq> CAN_TxStatus_NoMailBox"
    and "on_the_bus (sTxMailBox e1 (unat (free_mailbox (can_TSR c1)))) (sFIFOMailBox d 0)"
    and "can_inv s" and "can_abs s = []" and "can_obj s = Some APP" and "can_meth s = M_RECEIVER"
    and "length (cm_buff stkB) = 8" and "sends_on (t, w)"
  shows "\<exists>out s1 d' calls s2 t' w'. can_interrupt rx s d = Inr (out, [(APP, M_RECEIVER, 17)], s1, d')
    \<and> receiver stkB s1 = Inr (calls, s2) \<and> text_of calls = ''Can msg received: Hello'' \<and> can_inv s2 \<and> can_abs s2 = []
    \<and> do_calls calls (t, w) = Inr (t', w') \<and> sends_on (t', w')
    \<and> ring_abs t' = take SCI_BUFSIZE (ring_abs t @ map of_char ''Can msg received: Hello'')"
proof -
  obtain msg where m: "length (cm_buff msg) = 8" "view msg = (1, 1, [0x48, 0x65, 0x6C, 0x6C, 0x6F, 0])" "cm_length msg = 6"
    "sTxMailBox e1 (unat (free_mailbox (can_TSR c1))) = fill_mailbox (sent_frame frame msg) (sTxMailBox c1 (unat (free_mailbox (can_TSR c1))))"
    using startApp2_frame [OF assms(1-4)] by blast
  have ids: "msgId msg = 1" "nodeId msg = 1" "take 6 (cm_buff msg) = [0x48, 0x65, 0x6C, 0x6C, 0x6F, 0]"
    using m(2,3) by (simp_all add: view_def)
  then have "msgId msg < 128" "nodeId msg < 16" by simp_all
  note e = can_end_to_end [OF m(1) assms(3) this assms(5) [unfolded m(4)], of rx]
  have entry: "rx_entry (read_mailbox (sFIFOMailBox d 0) rx) = (1, 1, [0x48, 0x65, 0x6C, 0x6C, 0x6F, 0])"
    using e(2) ids m(3) by simp
  have "r_count s = 0" using assms(7) by (metis can_abs_def length_map length_ring_abs list.size(3))
  then have room: "r_count s < CAN_BUFSIZE" by (simp add: CAN_BUFSIZE_def)
  obtain out s1 d' where i: "can_interrupt rx s d = Inr (out, [(APP, M_RECEIVER, 17)], s1, d')" "can_inv s1"
    "can_abs s1 = [(1, 1, [0x48, 0x65, 0x6C, 0x6C, 0x6F, 0])]"
    using can_interrupt_stores [OF assms(6) e(1) room assms(8) entry] assms(7,9) by auto
  let ?calls = "[SCI_WRITE ''Can msg received: '', SCI_WRITE ''Hello'']"
  have hello: "map (\<lambda>x. char_of (unat x)) (takeWhile (\<lambda>x. x \<noteq> 0) [0x48, 0x65, 0x6C, 0x6C, 0x6F, 0 :: u8]) = ''Hello''" by code_simp
  obtain s2 where r: "receiver stkB s1 = Inr (?calls, s2)" "can_inv s2" "can_abs s2 = []"
    using receiver_prints [OF i(2,3) _ assms(10)] unfolding hello by auto
  have bytes: "bytes_of ?calls = map of_char ''Can msg received: Hello''" by simp
  have "text_of ?calls = ''Can msg received: Hello''" by simp
  then show ?thesis using i(1) r do_calls_bytes [OF assms(11), of ?calls] unfolding bytes
    by (intro exI [of _ out] exI [of _ s1] exI [of _ d'] exI [of _ ?calls] exI [of _ s2]) auto
qed

lemma startApp2_idle: "\<exists>can1 sci1 e1 e2 u1 v1. startApp2 msr1 msr2 some_frame empty_msg can0 sci0 idle_can idle_can u idle_nvic
    = Inr (can1, sci1, e1, e2, u1, v1)"
proof -
  obtain out can1 d1 d2 v1 where c: "can_init msr1 msr2 can0 idle_can idle_can idle_nvic = Inr (out, can1, d1, d2, v1)"
    "length (nv_ISER v1) = 8" "length (nv_IP v1) = 240" using can_init_idle by blast
  obtain u1 v2 where s: "sci_init sci0 u v1 = Inr (sci0, u1, v2)"
    using sci_init_idle [OF c(2,3), of sci0 u] by (auto simp: sci0_def initSerial_def)
  have "sends_on (sci0, u1)" by (simp add: sends_on_def sci0_def)
  from sci_write_total [OF this, of "''Hello, hello...'' @ [NL]"] obtain s' u' where
    "sci_write (map of_char (''Hello, hello...'' @ [NL])) sci0 u1 = Inr (s', u')" by blast
  moreover have "hello_msg empty_msg = Inr (empty_msg\<lparr>msgId := 1, nodeId := 1, cm_length := 6,
    cm_buff := [0x48, 0x65, 0x6C, 0x6C, 0x6F, 0, 0, 0]\<rparr>)"
    by (simp add: hello_msg_def empty_msg_def aset_def eval_nat_numeral)
  ultimately show ?thesis using c(1) s
    by (auto simp: startApp2_def can_send_frame split: prod.splits simp del: map_append)
qed

theorem hello_arrives_witness:
  "\<exists>d out s1 d' calls. can_interrupt some_rx can0 d = Inr (out, [(APP, M_RECEIVER, 17)], s1, d')
     \<and> text_of calls = ''Can msg received: Hello''"
proof -
  obtain can1 sci1 e1 e2 u1 v1 where st: "startApp2 (\<lambda>_. 0) (\<lambda>_. 0) some_frame empty_msg can0 sci0 idle_can idle_can idle_usart idle_nvic
    = Inr (can1, sci1, e1, e2, u1, v1)" using startApp2_idle by blast
  let ?m = "sTxMailBox e1 (unat (free_mailbox (can_TSR idle_can)))"
  let ?d = "idle_can\<lparr>sFIFOMailBox := (\<lambda>_. ?m\<lparr>mb_IR := mb_IR ?m AND NOT 0x01\<rparr>)\<rparr>"
  have bus: "on_the_bus ?m (sFIFOMailBox ?d 0)" by (simp add: on_the_bus_def)
  have "free_mailbox (can_TSR idle_can) \<noteq> CAN_TxStatus_NoMailBox"
    by (simp add: idle_can_def free_mailbox_def CAN_TxStatus_NoMailBox_def)
  from hello_arrives [OF st _ _ this bus, of can0 empty_msg sci0 idle_usart some_rx] show ?thesis
    using initCan_inv by (auto simp: empty_msg_def can0_def initCan_def sends_on_def sci0_def)
qed

end
