(* ===== verification/Lsh_Custom.thy ===== *)
theory Lsh_Custom
  imports Lsh_Session
begin

section \<open>The earlier shell\<close>

text \<open>
  \<open>OS-lab1/code/lsh-custom.c\<close>: the parser of the shell with a simpler loop. Each program is run to its end before
  the next one starts, from the head of the parser's list; pipes, redirections and the background mark are not looked at. The command
  that is run is kept over the turns of the main loop, but the words it points to are in the parser's buffers.

  The model follows one process: \<open>fork_pid e k\<close> is what call \<open>k\<close> of \<open>fork\<close> returns in it, 0 in the child. A child that
  executes its program is no longer the shell; one that fails to goes on as the shell. \<open>runs\<close> says which programs can be executed.
\<close>

record custom =
  cu_forks :: nat
  cu_log :: "event list"

abbreviation note_events :: "event list \<Rightarrow> custom \<Rightarrow> custom" where
  "note_events es cu \<equiv> cu\<lparr>cu_log := cu_log cu @ es\<rparr>"

datatype custom_end = Ready | Returned int | Became "string list"

datatype custom_control = Go "nat option" | Leave custom_end

definition custom_step :: "env \<Rightarrow> (string list \<Rightarrow> bool) \<Rightarrow> pstate \<Rightarrow> nat \<Rightarrow> custom \<Rightarrow> (custom_control \<times> custom) res" where
  "custom_step e runs ps i cu =
     bnd (aget (cmdbuf ps) i) (\<lambda>node.
     bnd (argv ps node) (\<lambda>args.
       case args of
         [] \<Rightarrow> Inl NullDeref
       | w # ws \<Rightarrow>
           if w = ''exit''
           then Inr (Leave (Returned 0), note_events [Message ''Exit command detected, terminating the shell.''] cu)
           else if w = ''cd''
           then Inr (Go (pgm_next node),
                     note_events (Message ''Using the built-in cd command'' # cd_builtin e (case ws of [] \<Rightarrow> None | d # _ \<Rightarrow> Some d)) cu)
           else let pid = fork_pid e (cu_forks cu); cu1 = cu\<lparr>cu_forks := cu_forks cu + 1\<rparr>
                in if pid < 0 then Inr (Leave (Returned (- 1)), note_events [Message ''Fork failed''] cu1)
                   else if pid = 0
                   then if runs args then Inr (Leave (Became args), cu1)
                        else Inr (Go (pgm_next node), note_events [Message ''lsh, exec failed''] cu1)
                   else Inr (Go (pgm_next node), note_events [Forked pid (Exec args Std_in Std_out), Waited pid] cu1)))"

fun custom_run :: "nat \<Rightarrow> env \<Rightarrow> (string list \<Rightarrow> bool) \<Rightarrow> pstate \<Rightarrow> nat option \<Rightarrow> custom \<Rightarrow> (custom_end \<times> custom) res option" where
  "custom_run n e runs ps None cu = Some (Inr (Ready, cu))"
| "custom_run 0 e runs ps (Some i) cu = None"
| "custom_run (Suc n) e runs ps (Some i) cu =
     (case custom_step e runs ps i cu of
        Inl f \<Rightarrow> Some (Inl f)
      | Inr (Leave en, cu') \<Rightarrow> Some (Inr (en, cu'))
      | Inr (Go p, cu') \<Rightarrow> custom_run n e runs ps p cu')"

text \<open>One turn of the main loop. \<open>to_process\<close> is \<open>None\<close> until a line has been parsed: it is not initialised.\<close>

definition custom_line ::
    "nat \<Rightarrow> env \<Rightarrow> (string list \<Rightarrow> bool) \<Rightarrow> string option \<Rightarrow> Command option \<Rightarrow> pstate \<Rightarrow> custom
      \<Rightarrow> (custom_end \<times> Command option \<times> pstate \<times> custom) res option" where
  "custom_line n e runs line to_process ps cu =
     (case line of
        None \<Rightarrow> Some (Inr (Returned 0, to_process, ps, note_events [Message ''End of file - EOF detected, quit the program.''] cu))
      | Some l \<Rightarrow>
          (case stripwhite l of
             Inl f \<Rightarrow> Some (Inl f)
           | Inr s \<Rightarrow>
               (case parse s ps of
                  Inl f \<Rightarrow> Some (Inl f)
                | Inr (r, c, ps1) \<Rightarrow>
                    let tp = (if r = 1 then Some c else to_process);
                        cu1 = (if r = 1 then cu else note_events [Message ''Parse ERROR''] cu)
                    in case tp of
                         None \<Rightarrow> Some (Inl Undefined)
                       | Some d \<Rightarrow> map_option (\<lambda>x. bnd x (\<lambda>(en, cu2). Inr (en, tp, ps1, cu2))) (custom_run n e runs ps1 (pgm d) cu1))))"

text \<open>The lines until the shell returns or its process becomes another program.\<close>

fun custom_main ::
    "nat \<Rightarrow> env \<Rightarrow> (string list \<Rightarrow> bool) \<Rightarrow> string option list \<Rightarrow> Command option \<Rightarrow> pstate \<Rightarrow> custom
      \<Rightarrow> (custom_end \<times> custom) res option" where
  "custom_main n e runs [] tp ps cu = Some (Inr (Ready, cu))"
| "custom_main n e runs (l # ls) tp ps cu =
     (case custom_line n e runs l tp ps cu of
        None \<Rightarrow> None
      | Some (Inl f) \<Rightarrow> Some (Inl f)
      | Some (Inr (Ready, tp', ps', cu')) \<Rightarrow> custom_main n e runs ls tp' ps' cu'
      | Some (Inr (en, tp', ps', cu')) \<Rightarrow> Some (Inr (en, cu')))"

subsection \<open>The loop on lists\<close>







subsection \<open>What it does with a line\<close>

definition custom0 :: custom where "custom0 = \<lparr>cu_forks = 0, cu_log = []\<rparr>"

text \<open>
  A rejected line is run, as far as it was parsed, when a line before it was good; a lone special character then
  makes the shell read a null pointer, and without a good line before it, an uninitialised command. The child whose program cannot be
  executed prompts like its parent.
\<close>

lemma rejected_line_runs:
  "custom_main 20 calm (\<lambda>_. True) [Some ''ls'', Some ''date & x''] None pstate0 custom0 =
     Some (Inr (Ready, \<lparr>cu_forks = 2, cu_log = [Forked 100 (Exec [''ls''] Std_in Std_out), Waited 100, Message ''Parse ERROR'',
       Forked 101 (Exec [''date''] Std_in Std_out), Waited 101]\<rparr>))"
  "custom_main 20 calm (\<lambda>_. True) [Some ''ls'', Some ''&''] None pstate0 custom0 = Some (Inl NullDeref)"
  "custom_main 20 calm (\<lambda>_. True) [Some ''date & x''] None pstate0 custom0 = Some (Inl Undefined)"
  "custom_main 20 (calm\<lparr>fork_pid := (\<lambda>k. if k = 0 then 0 else 7)\<rparr>) (\<lambda>ws. ws \<noteq> [''nothing'']) [Some ''nothing'', Some ''ls''] None pstate0 custom0 =
     Some (Inr (Ready, \<lparr>cu_forks = 2, cu_log = [Message ''lsh, exec failed'', Forked 7 (Exec [''ls''] Std_in Std_out), Waited 7]\<rparr>))"
  by code_simp+



end
