(* ===== verification/Spec2Isabelle.thy ===== *)
theory Spec2Isabelle
  imports TT_Properties App_Properties Drv_Properties Board_Properties Lsh_Properties Pintos_Properties Login_Properties
    Ls_List Ext_Tools Ext_Process Line_Properties Lsh_Custom
begin

text \<open>
  This development verifies the C programs of a collection of course laboratories: a real-time kernel with its
  drivers and two applications, a command shell, two kernel exercises for Pintos, a login program, and small command
  line tools.

  \<^bold>\<open>Parts and theories.\<close> Paths are relative to \<open>src/\<close>; \<open>RT\<close> stands for \<open>realtime-system/lab-1\<close>, \<open>OS\<close> for \<open>operating-system\<close>.

  \<^item> \<open>Prelude\<close>, \<open>C_Text\<close>, \<open>Chain\<close>, \<open>Ring\<close>: faults and results (\<open>'a res\<close> is a fault or a value; \<open>bnd\<close> runs one thing after
    another), checked array accesses, bit masks, C strings, linked lists threaded through arrays, and bounded buffers.
  \<^item> TinyTimber, \<open>RT/lib/tinytimber/src/TinyTimber.c\<close>. \<open>TT_Queues\<close> has the message blocks, the pool and the two ordered
    queues; \<open>TT_Kernel\<close> the global variables as the record \<open>kstate\<close> and every kernel function on it; \<open>TT_System\<close> the step
    relation of threads and interrupts; \<open>TT_Messages\<close>, \<open>TT_Locks\<close> and \<open>TT_Exclusion\<close> its invariants (where the message
    blocks are, how threads wait for objects, who is inside an object); \<open>TT_Traces\<close> concrete executions; \<open>TT_Support\<close> the
    printing routines, thread frames, vectors and timer set-up; \<open>TT_Properties\<close> what follows.
  \<^item> The board, \<open>RT/lib/md407\<close>. \<open>Stm_Can\<close>, \<open>Stm_Usart\<close>, \<open>Stm_Board\<close> (ports, external interrupts, interrupt controller),
    \<open>Stm_Rcc\<close> (clocks and resets), \<open>Stm_Dac\<close> (converter and system configuration), \<open>Stm_Tim\<close> (timers) and \<open>Stm_Core\<close>
    (priorities, pending interrupts, system timer, reset, trace port) have the operations of the peripheral library on records of registers; \<open>Stm_Startup\<close> puts
    the peripherals together into one \<open>board\<close> and has \<open>startup.c\<close>; \<open>Board_Properties\<close> what it leaves behind. \<open>Stm_Switch\<close> and
    \<open>Stm_Channels\<close> are about the library itself: rows of fields that are set one by one do not disturb each other.
  \<^item> The drivers, \<open>RT/lib/tinytimber/src\<close>. \<open>Drv_Sci\<close>, \<open>Drv_Can\<close> and \<open>Drv_Sio\<close> are the serial, CAN and port drivers on the
    registers of the board; \<open>Drv_Properties\<close> what they deliver.
  \<^item> The applications, \<open>RT/src/App.c\<close> and \<open>realtime-system/lab-2/src/App.c\<close>: \<open>App_Text\<close> (numbers and their text),
    \<open>App_Lab1\<close>, \<open>App_Lab2\<close>, \<open>App_Properties\<close>. \<open>App_Line\<close> puts application, serial driver and port together: \<open>objects.c\<close>, the start
    method, and the events of the line as steps on one state (\<open>line_state\<close>); \<open>Line_Properties\<close> what leaves on the line, and the
    greeting one board sends and another prints.
  \<^item> The shell, \<open>OS/OS-lab1/code\<close>: \<open>Lsh_Parse\<close> is \<open>parse.c\<close> over its static buffers, \<open>Lsh_Grammar\<close> the abstract parser,
    \<open>Lsh_Refine\<close> the proof that one implements the other; \<open>Lsh_Shell\<close> is \<open>lsh.c\<close>, \<open>Lsh_Session\<close> its executions;
    \<open>Lsh_Properties\<close>. \<open>Lsh_Custom\<close> is \<open>lsh-custom.c\<close>, an earlier loop on the same parser, followed in the parent or in the child.
  \<^item> Pintos: \<open>Pintos_Timer\<close> and \<open>Pintos_Clock\<close> are \<open>OS/OS-lab2/timer.c\<close> (sleeping; the loops that count time), \<open>Pintos_Bus\<close> is
    \<open>OS/OS-lab3/batch-scheduler.c\<close>, \<open>Pintos_Transfer\<close> runs its tasks with the alarm clock; \<open>Pintos_Properties\<close>.
  \<^item> The login, \<open>computer-security/lab/lab-2\<close>: \<open>Login_Db\<close> is \<open>pwent.c\<close> over the text of the file, \<open>Login\<close> the programs
    \<open>login_linux.c\<close>, \<open>register.c\<close> and \<open>makepass.c\<close>; \<open>Login_Properties\<close>.
  \<^item> Command line tools: \<open>Getopt\<close> is the option scanner of the C library; \<open>Ls_List\<close> is
    \<open>OS/OS-lab1/code/extensions/list-command/ls.c\<close>; \<open>Ext_Tools\<close> has \<open>argument-parse\<close>, \<open>date-time\<close> and \<open>who\<close> of the same
    directory, the resolver \<open>computer-networking/lab-1/main.c\<close> and \<open>OS/sandbox/test_and_set.c\<close>;
    \<open>Ext_Process\<close> the background program and \<open>OS/sandbox/pipe_test.c\<close>, whose two processes share a pipe.

  \<^bold>\<open>How the parts interact.\<close> The kernel's threads take messages from the ready queue and run the methods of objects; the
  timer interrupt moves messages from the timer queue to it; device interrupts call the drivers, which hold the bounded
  buffers and read and write registers, and send messages to the applications, whose objects print through the serial
  driver. The start-up code configures the registers the drivers find. \<open>App_Line\<close> is this
  interaction for the serial line, with the kernel as a queue of messages: \<open>port_irq\<close> is the driver's interrupt on what the port shows,
  \<open>handle\<close> the application's method on the oldest message, and the calls it makes go through the driver's operations. A bus
  task of Pintos that has boarded sleeps in the list of the alarm clock until an interrupt wakes it. The shell's parser fills static buffers that the
  main loop walks while it starts programs; signals change the job table between any two lines. The login programs
  share the password file.

  \<^bold>\<open>What the lemmas show.\<close> Of the kernel: no message is lost or duplicated, queues stay sorted, the lists end; methods of
  one object exclude each other as long as methods do not call \<open>SYNC\<close>, and a counterexample when they do; a blocked caller is
  reported exactly when it would wait for itself. Of the drivers: the rings are bounded queues (locale \<open>bounded_fifo\<close>, interpreted
  for both), a frame sent is the frame received, a string is transmitted completely. Of the queues: both insertions are instances
  of one contract (locale \<open>msg_queue\<close>). Of the registers: clock and reset lines, converter channels, port pins, interrupt
  enables and the four channels of a timer are banks of independent fields (locale \<open>register_bank\<close> and its extension
  \<open>switches\<close>), so the last command for a field decides what it holds. Both versions of the number printer meet one contract
  (locale \<open>int_writer\<close>). Of the applications and the login: refinements of programs on lists; on the line every event refines a step of a
  contract (\<open>line_spec\<close>) in which keys, answers and bytes are lists, keeps the state well formed, and loses bytes only when the
  ring is full. Of the shells: the
  parser implements its grammar within its buffers, and what a line starts. Of Pintos: when sleepers wake, what the
  calibration computes, also against a clock that ticks regularly, the capacity of the bus and how long a transfer
  holds it. Several theorems exhibit executions in which the code fails; they are marked as such.

  \<^bold>\<open>Conventions.\<close> A store or load outside an array, a null pointer, a failed assertion, a division by zero and an endless
  loop are faults, values of the result. Machine integers are words where their width matters. Registers that act when they
  are written (set and reset halves, write-one-to-clear) act in the model; registers that hardware changes while they are
  polled are streams of values. A peripheral in reset has the reset values of the manual, and stores to a peripheral without a
  clock are lost. Interrupts are steps of their own. What is outside the repository is an argument: the system calls and file
  of the shell and the login, \<open>crypt\<close>, \<open>qsort\<close>, the list and semaphore operations of Pintos, uninitialised memory; what is
  documented of it is a named hypothesis with an instance.

  \<^bold>\<open>Bounds and fuel.\<close> Polling loops of the peripheral library run at most the time-out of the code (\<open>0xFFFF\<close> for CAN,
  \<open>0x5000\<close> for the oscillator), which is their fuel. The wait for a tick ends within one more barrier than a tick has.
  The doubling loop of the calibration has fuel 23 and the refining loop 33, more than the bits of the counter allow. Walks over the shell's programs have fuel 20, the size of its free list. The loop
  of \<open>run\<close> is one step of the system per message, so it needs no fuel. The parser's buffers hold every line of 39 characters,
  and no more in general. All other loops are recursive functions with termination proofs.

  \<^bold>\<open>Not modelled.\<close> \<open>realtime-system/lab-2/lib\<close> is identical to the first laboratory's. The intrinsics of the core are
  third-party wrappers of single instructions. The assembler entry and clearing the bss segment
  are the initial states of the models. The two long option
  parsers in \<open>computer-networking/sandbox\<close> are examples of a manual page. \<open>debugNumber\<close>, \<open>PrintPgm\<close> and \<open>DebugPrintCommand\<close>, which nothing
  calls, are left out; the last two are the printing functions of the shell. The Go, Python, C++ and shell code is in other languages.
\<close>

end
